(* ===== verification/Prelude.thy ===== *)
theory Prelude
  imports Main "HOL-Library.Word" "HOL-Library.List_Lexorder" "HOL-Library.Sublist"
begin

text \<open>
  Shared vocabulary of the development: machine integers and byte strings, the fixed-width
  big-endian encodings that every storage slot and every index value uses, saturating
  arithmetic as in Rust's standard library, and the state-and-error monad in which code that
  mutates the chain state is written, with its weakest-precondition calculus.

  Byte strings are compared with the lexicographic order of the library theory
  List_Lexorder, which is the order of Rust's byte slices.
\<close>

named_theorems wp_simps "weakest preconditions of the monad and of the state adapters"
named_theorems be_simps "big-endian encodings"

subsection \<open>Machine types\<close>

type_synonym byte = "8 word"
type_synonym bytes = "byte list"
type_synonym u16 = "16 word"
type_synonym u32 = "32 word"
type_synonym u64 = "64 word"
type_synonym u128 = "128 word"
type_synonym u256 = "256 word"

text \<open>
  Fixed byte arrays are byte lists; the length (20 for an address, 32 for a word of storage)
  is stated where it matters.
\<close>

type_synonym address = bytes
type_synonym b256 = bytes

definition zero_b256 :: b256 where
  "zero_b256 = replicate 32 0"

definition zero_address :: address where
  "zero_address = replicate 20 0"

lemma unat_bound: "unat w < 2 ^ LENGTH('w)" for w :: "'w::len word"
  by (rule unsigned_less)

lemma unat_byte_lt: "unat (b :: byte) < 256"
  using unat_bound[of b] by simp

lemma unat_of_nat_byte_small [simp]: "x < 256 \<Longrightarrow> unat (of_nat x :: byte) = x"
  by (simp add: unat_of_nat)

lemma of_nat_unat_byte [simp]: "of_nat (unat (b :: byte)) = b"
  by simp

lemma byte_eq_unat: "(a :: byte) = b \<longleftrightarrow> unat a = unat b"
  by (rule word_unat_eq_iff)

subsection \<open>Big-endian encodings\<close>

fun be_bytes :: "nat \<Rightarrow> nat \<Rightarrow> bytes" where
  "be_bytes 0 x = []"
| "be_bytes (Suc n) x = be_bytes n (x div 256) @ [of_nat (x mod 256)]"

definition be_val :: "bytes \<Rightarrow> nat" where
  "be_val bs = foldl (\<lambda>a b. a * 256 + unat b) 0 bs"

lemma length_be_bytes [simp]: "length (be_bytes n x) = n"
  by (induction n arbitrary: x) auto

text \<open>Evaluation at a numeral length, without unary numerals.\<close>

lemma be_bytes_numeral:
  "be_bytes (numeral k) x = be_bytes (pred_numeral k) (x div 256) @ [of_nat (x mod 256)]"
  by (simp only: numeral_eq_Suc[of k] be_bytes.simps)

lemma be_val_Nil [simp]: "be_val [] = 0"
  by (simp add: be_val_def)

lemma be_val_snoc [simp]: "be_val (bs @ [b]) = be_val bs * 256 + unat b"
  by (simp add: be_val_def)

lemma unat_of_nat_byte [simp]: "unat (of_nat (x mod 256) :: byte) = x mod 256"
  by (simp add: unat_of_nat)

lemma be_val_be_bytes [be_simps]: "be_val (be_bytes n x) = x mod 256 ^ n"
proof (induction n arbitrary: x)
  case 0
  then show ?case by simp
next
  case (Suc n)
  have "x mod 256 ^ Suc n = (x div 256) mod 256 ^ n * 256 + x mod 256"
    by (metis add.commute mod_mult2_eq mult.commute power_Suc)
  with Suc show ?case by simp
qed

lemma be_val_bound: "be_val bs < 256 ^ length bs"
proof (induction bs rule: rev_induct)
  case Nil
  then show ?case by simp
next
  case (snoc b bs)
  have step: "a * 256 + u < X * 256" if "a + 1 \<le> X" "u < 256" for a u X :: nat
    using that by linarith
  have "be_val bs + 1 \<le> 256 ^ length bs" using snoc by simp
  from step[OF this unat_byte_lt[of b]] show ?case by (simp add: mult.commute)
qed

lemma be_bytes_be_val [be_simps]: "length bs = n \<Longrightarrow> be_bytes n (be_val bs) = bs"
proof (induction n arbitrary: bs)
  case 0
  then show ?case by simp
next
  case (Suc n)
  then obtain cs b where bs: "bs = cs @ [b]"
    by (metis length_0_conv nat.distinct(1) rev_exhaust)
  have b: "unat b < 256" using unat_bound[of b] by simp
  have "(be_val cs * 256 + unat b) div 256 = be_val cs"
    using b by simp
  moreover have "(be_val cs * 256 + unat b) mod 256 = unat b"
    using b by simp
  ultimately show ?case
    using Suc bs by simp
qed

lemma be_bytes_eq_iff:
  "x < 256 ^ n \<Longrightarrow> y < 256 ^ n \<Longrightarrow> be_bytes n x = be_bytes n y \<longleftrightarrow> x = y"
  by (metis be_val_be_bytes mod_less)

text \<open>
  The order of the encodings is the order of the numbers: what makes range scans over
  fixed-width encodings meaningful.
\<close>

lemma lex_snoc_less:
  fixes xs ys :: "'a::linorder list"
  shows "length xs = length ys \<Longrightarrow> xs @ [a] < ys @ [b] \<longleftrightarrow> xs < ys \<or> xs = ys \<and> a < b"
  by (induction xs ys rule: list_induct2) auto

lemma div_mod_less_iff:
  "x div 256 < y div 256 \<or> x div 256 = y div 256 \<and> x mod 256 < y mod 256 \<longleftrightarrow> x < y"
  for x y :: nat
proof -
  have x: "x = 256 * (x div 256) + x mod 256" and y: "y = 256 * (y div 256) + y mod 256"
    by simp_all
  have rx: "x mod 256 < 256" and ry: "y mod 256 < 256"
    by simp_all
  show ?thesis
    using x y rx ry by linarith
qed

lemma be_bytes_less_iff:
  "x < 256 ^ n \<Longrightarrow> y < 256 ^ n \<Longrightarrow> be_bytes n x < be_bytes n y \<longleftrightarrow> x < y"
proof (induction n arbitrary: x y)
  case 0
  then show ?case by simp
next
  case (Suc n)
  have dx: "x div 256 < 256 ^ n" and dy: "y div 256 < 256 ^ n"
    using Suc.prems by (simp_all add: less_mult_imp_div_less mult.commute)
  have w: "(of_nat (x mod 256) :: byte) < of_nat (y mod 256) \<longleftrightarrow> x mod 256 < y mod 256"
    by (simp add: word_less_nat_alt)
  have "be_bytes (Suc n) x < be_bytes (Suc n) y \<longleftrightarrow>
      x div 256 < y div 256 \<or> x div 256 = y div 256 \<and> x mod 256 < y mod 256"
    using Suc.IH[OF dx dy] be_bytes_eq_iff[OF dx dy] by (simp add: lex_snoc_less w)
  also have "\<dots> \<longleftrightarrow> x < y"
    by (rule div_mod_less_iff)
  finally show ?case .
qed

definition u64_be :: "u64 \<Rightarrow> bytes" where
  "u64_be n = be_bytes 8 (unat n)"

definition u32_be :: "u32 \<Rightarrow> bytes" where
  "u32_be n = be_bytes 4 (unat n)"

definition u256_be :: "u256 \<Rightarrow> bytes" where
  "u256_be n = be_bytes 32 (unat n)"

lemma length_word_be [simp]:
  "length (u64_be a) = 8" "length (u32_be b) = 4" "length (u256_be c) = 32"
  by (simp_all add: u64_be_def u32_be_def u256_be_def)

lemma be_val_u64_be [simp]: "be_val (u64_be n) = unat n"
  using unat_bound[of n] by (simp add: u64_be_def be_simps)

lemma be_val_u32_be [simp]: "be_val (u32_be n) = unat n"
  using unat_bound[of n] by (simp add: u32_be_def be_simps)

lemma be_val_u256_be [simp]: "be_val (u256_be n) = unat n"
  using unat_bound[of n] by (simp add: u256_be_def be_simps)

lemma u64_be_inj [simp]: "u64_be a = u64_be b \<longleftrightarrow> a = b"
  by (metis be_val_u64_be word_unat_eq_iff)

lemma u64_be_less_iff: "u64_be a < u64_be b \<longleftrightarrow> a < b"
  using unat_bound[of a] unat_bound[of b]
  by (simp add: u64_be_def be_bytes_less_iff word_less_nat_alt)

lemma u256_be_less_iff: "u256_be a < u256_be b \<longleftrightarrow> a < b"
  using unat_bound[of a] unat_bound[of b]
  by (simp add: u256_be_def be_bytes_less_iff word_less_nat_alt)

subsection \<open>Saturating and checked arithmetic\<close>

definition sat_add :: "'w::len word \<Rightarrow> 'w word \<Rightarrow> 'w word" where
  "sat_add a b = (if unat a + unat b < 2 ^ LENGTH('w) then a + b else - 1)"

definition sat_sub :: "'w::len word \<Rightarrow> 'w word \<Rightarrow> 'w word" where
  "sat_sub a b = (if b \<le> a then a - b else 0)"

definition sat_mul :: "'w::len word \<Rightarrow> 'w word \<Rightarrow> 'w word" where
  "sat_mul a b = (if unat a * unat b < 2 ^ LENGTH('w) then a * b else - 1)"

definition checked_add :: "'w::len word \<Rightarrow> 'w word \<Rightarrow> 'w word option" where
  "checked_add a b = (if unat a + unat b < 2 ^ LENGTH('w) then Some (a + b) else None)"

definition checked_sub :: "'w::len word \<Rightarrow> 'w word \<Rightarrow> 'w word option" where
  "checked_sub a b = (if b \<le> a then Some (a - b) else None)"

lemma unat_minus_one_word: "unat (- 1 :: 'w::len word) = 2 ^ LENGTH('w) - 1"
  by (simp add: unsigned_minus_1_eq_mask mask_eq_exp_minus_1)

lemma unat_sat_add:
  "unat (sat_add a b) = min (unat a + unat b) (2 ^ LENGTH('w) - 1)" for a b :: "'w::len word"
  by (auto simp: sat_add_def unat_word_ariths unat_minus_one_word)

lemma unat_sat_mul:
  "unat (sat_mul a b) = min (unat a * unat b) (2 ^ LENGTH('w) - 1)" for a b :: "'w::len word"
  by (auto simp: sat_mul_def unat_word_ariths unat_minus_one_word)

lemma unat_sat_sub: "unat (sat_sub a b) = unat a - unat b"
  by (auto simp: sat_sub_def unat_sub word_le_nat_alt)

lemma le_sat_add: "a \<le> sat_add a b"
  using unat_bound[of a] by (simp add: word_le_nat_alt unat_sat_add le_diff_conv2 Suc_le_eq)

lemma checked_add_Some: "checked_add a b = Some c \<Longrightarrow> unat c = unat a + unat b"
  by (auto simp: checked_add_def unat_word_ariths split: if_splits)

subsection \<open>The state-and-error monad\<close>

text \<open>
  Code that takes a mutable state and returns a \<open>Result\<close> is a function from the state to an
  error or a value with the new state. An error carries no state: every caller of such code
  reverts the enclosing call (the EVM journal) when it sees one.
\<close>

type_synonym ('s, 'e, 'a) sm = "'s \<Rightarrow> 'e + 'a \<times> 's"

definition sret :: "'a \<Rightarrow> ('s, 'e, 'a) sm" where
  "sret x s = Inr (x, s)"

definition sfail :: "'e \<Rightarrow> ('s, 'e, 'a) sm" where
  "sfail e s = Inl e"

definition sbind :: "('s, 'e, 'a) sm \<Rightarrow> ('a \<Rightarrow> ('s, 'e, 'b) sm) \<Rightarrow> ('s, 'e, 'b) sm" where
  "sbind m f s = (case m s of Inl e \<Rightarrow> Inl e | Inr (x, s') \<Rightarrow> f x s')"

definition slift :: "'e + 'a \<Rightarrow> ('s, 'e, 'a) sm" where
  "slift r s = (case r of Inl e \<Rightarrow> Inl e | Inr x \<Rightarrow> Inr (x, s))"

fun sfor :: "('a \<Rightarrow> ('s, 'e, unit) sm) \<Rightarrow> 'a list \<Rightarrow> ('s, 'e, unit) sm" where
  "sfor f [] = sret ()"
| "sfor f (x # xs) = sbind (f x) (\<lambda>_. sfor f xs)"

text \<open>
  \<open>wp m s Q\<close>: run from \<open>s\<close>, \<open>m\<close> succeeds and its result and final state satisfy \<open>Q\<close>. It
  states success as well as the postcondition.
\<close>

definition wp :: "('s, 'e, 'a) sm \<Rightarrow> 's \<Rightarrow> ('a \<Rightarrow> 's \<Rightarrow> bool) \<Rightarrow> bool" where
  "wp m s Q = (case m s of Inl _ \<Rightarrow> False | Inr (x, s') \<Rightarrow> Q x s')"

lemma wp_sret [wp_simps]: "wp (sret x) s Q = Q x s"
  by (simp add: wp_def sret_def)

lemma wp_sfail [wp_simps]: "wp (sfail e) s Q = False"
  by (simp add: wp_def sfail_def)

lemma wp_sbind [wp_simps]: "wp (sbind m f) s Q = wp m s (\<lambda>x s'. wp (f x) s' Q)"
  by (simp add: wp_def sbind_def split: sum.splits prod.splits)

lemma wp_slift [wp_simps]: "wp (slift r) s Q = (case r of Inl _ \<Rightarrow> False | Inr x \<Rightarrow> Q x s)"
  by (simp add: wp_def slift_def split: sum.splits)

lemma wp_if [wp_simps]: "wp (if c then m else n) s Q = (if c then wp m s Q else wp n s Q)"
  by simp

lemma wp_mono: "wp m s Q \<Longrightarrow> (\<And>x s'. Q x s' \<Longrightarrow> R x s') \<Longrightarrow> wp m s R"
  by (auto simp: wp_def split: sum.splits)

lemma wp_iff: "wp m s Q \<longleftrightarrow> (\<exists>x s'. m s = Inr (x, s') \<and> Q x s')"
  by (auto simp: wp_def split: sum.splits)

text \<open>A loop keeps an invariant indexed by the elements already processed.\<close>

lemma wp_sfor:
  assumes "I [] s"
    and "\<And>pre x post s. xs = pre @ x # post \<Longrightarrow> I pre s \<Longrightarrow> wp (f x) s (\<lambda>_. I (pre @ [x]))"
  shows "wp (sfor f xs) s (\<lambda>_. I xs)"
proof -
  have "wp (sfor f post) s (\<lambda>_. I xs)" if "xs = pre @ post" and "I pre s" for pre post s
    using that
  proof (induction post arbitrary: pre s)
    case Nil
    then show ?case by (simp add: wp_simps)
  next
    case (Cons x post)
    have "wp (f x) s (\<lambda>_. I (pre @ [x]))"
      using assms(2)[OF Cons.prems] .
    then have "wp (f x) s (\<lambda>_ s'. wp (sfor f post) s' (\<lambda>_. I xs))"
      by (rule wp_mono) (rule Cons.IH, use Cons.prems in simp_all)
    then show ?case by (simp add: wp_simps)
  qed
  from this[of "[]" xs s] assms(1) show ?thesis by simp
qed

subsection \<open>Lists\<close>

text \<open>
  The element swap of Rust's slices, and the prefix length two byte strings share.
\<close>

definition list_swap :: "'a list \<Rightarrow> nat \<Rightarrow> nat \<Rightarrow> 'a list" where
  "list_swap xs i j = xs[i := xs ! j, j := xs ! i]"

lemma length_list_swap [simp]: "length (list_swap xs i j) = length xs"
  by (simp add: list_swap_def)

fun strip_prefix :: "'a list \<Rightarrow> 'a list \<Rightarrow> 'a list option" where
  "strip_prefix [] ys = Some ys"
| "strip_prefix (x # xs) [] = None"
| "strip_prefix (x # xs) (y # ys) = (if x = y then strip_prefix xs ys else None)"

lemma strip_prefix_Some: "strip_prefix xs ys = Some zs \<longleftrightarrow> ys = xs @ zs"
  by (induction xs ys rule: strip_prefix.induct) auto

lemma lex_append_less_iff [simp]:
  fixes xs ys zs :: "'a::linorder list"
  shows "xs @ ys < xs @ zs \<longleftrightarrow> ys < zs"
  by (induction xs) auto

text \<open>
  Loops that write entries into an array at computed positions: a position written once holds
  the value written there, every other position keeps its value.
\<close>

definition scatter :: "('x \<Rightarrow> bool) \<Rightarrow> ('x \<Rightarrow> nat) \<Rightarrow> ('x \<Rightarrow> 'a) \<Rightarrow> 'x list \<Rightarrow> 'a list \<Rightarrow> 'a list" where
  "scatter P p v xs a = fold (\<lambda>x a. if P x then a[p x := v x] else a) xs a"

lemma scatter_other:
  "(\<And>x. x \<in> set xs \<Longrightarrow> P x \<Longrightarrow> p x \<noteq> i) \<Longrightarrow> scatter P p v xs a ! i = a ! i"
  by (induction xs arbitrary: a) (auto simp: scatter_def)

lemma length_scatter [simp]: "length (scatter P p v xs a) = length a"
  by (induction xs arbitrary: a) (auto simp: scatter_def)

lemma scatter_at:
  "distinct (map p (filter P xs)) \<Longrightarrow> x \<in> set xs \<Longrightarrow> P x \<Longrightarrow> p x < length a \<Longrightarrow>
    scatter P p v xs a ! p x = v x"
proof (induction xs arbitrary: a)
  case Nil
  then show ?case by simp
next
  case (Cons y ys)
  have step: "scatter P p v (y # ys) a = scatter P p v ys (if P y then a[p y := v y] else a)"
    by (simp add: scatter_def)
  show ?case
  proof (cases "x \<in> set ys")
    case True
    then show ?thesis using Cons step by (auto split: if_splits)
  next
    case False
    then have "x = y" using Cons.prems by simp
    moreover have "p z \<noteq> p y" if "z \<in> set ys" "P z" for z
      using Cons.prems that \<open>x = y\<close> by (auto simp: image_iff)
    ultimately show ?thesis using Cons.prems step by (simp add: scatter_other)
  qed
qed

lemma fold_pair: "fold (\<lambda>x (a, b). (f x a, g x b)) xs (a, b) = (fold f xs a, fold g xs b)"
  by (induction xs arbitrary: a b) auto

end
