(* ===== verification/ArtNode.thy ===== *)
theory ArtNode
  imports Prelude
begin

text \<open>
  The nodes of the adaptive radix tree of \<open>crates/arkiv-entitydb/src/index_tree.rs\<close>: the four
  inner node layouts, the child operations each layout has, the conversions between layouts and
  the dispatch helpers. Where the code would panic (an index past a fixed-size array, a full
  node, an \<open>expect\<close> on nothing) the operation returns \<open>None\<close>.

  The boxed structs \<open>N4\<close>, \<open>N16\<close>, \<open>N48\<close> and \<open>N256\<close> are the arguments of the constructors (the
  type is recursive through them): prefix, \<open>has_end\<close>, the count \<open>n\<close>, the key bytes or the byte
  index, and the child array. Arrays are lists of the array's length, unused slots included.
  Counts are natural numbers; the count of an \<open>N256\<close> is a \<open>u16\<close> that may run ahead of the children
  it has (its \<open>del_ch\<close> does not decrement for a child that is already empty), so its wrap-around
  and the cast to \<open>u8\<close> when it shrinks are written out.
\<close>

datatype node =
    Empty
  | Leaf bytes
  | N4 bytes bool nat bytes "node list"
  | N16 bytes bool nat bytes "node list"
  | N48 bytes bool nat bytes "node list"
  | N256 bytes bool nat "node list"

definition n48_nil :: byte where
  "n48_nil = 0xFF"

subsection \<open>Constructors of empty inner nodes\<close>

definition n4_empty :: "bytes \<Rightarrow> bool \<Rightarrow> node" where
  "n4_empty pfx has_end = N4 pfx has_end 0 (replicate 4 0) (replicate 4 Empty)"

definition n16_empty :: "bytes \<Rightarrow> bool \<Rightarrow> node" where
  "n16_empty pfx has_end = N16 pfx has_end 0 (replicate 16 0) (replicate 16 Empty)"

definition n48_empty :: "bytes \<Rightarrow> bool \<Rightarrow> node" where
  "n48_empty pfx has_end = N48 pfx has_end 0 (replicate 256 n48_nil) (replicate 48 Empty)"

definition n256_empty :: "bytes \<Rightarrow> bool \<Rightarrow> node" where
  "n256_empty pfx has_end = N256 pfx has_end 0 (replicate 256 Empty)"

subsection \<open>Child operations of each layout\<close>

text \<open>
  \<open>N4\<close> and \<open>N16\<close> keep their keys sorted; the two \<open>add_ch\<close> bodies and the two \<open>del_ch\<close> bodies of
  the source are the same text up to the array length, which is \<open>cap\<close> here. The shifting loops
  are folds over the loop's indices.
\<close>

definition small_add ::
  "nat \<Rightarrow> nat \<Rightarrow> bytes \<Rightarrow> node list \<Rightarrow> byte \<Rightarrow> node \<Rightarrow> (nat \<times> bytes \<times> node list) option" where
  "small_add cap n keys ch b child =
     (if n < cap then
        let pos = length (takeWhile (\<lambda>k. k < b) (take n keys));
            (ks, cs) = fold (\<lambda>i (ks, cs). (ks[Suc i := ks ! i], list_swap cs i (Suc i)))
                         (rev [pos..<n]) (keys, ch)
        in Some (Suc n, ks[pos := b], cs[pos := child])
      else None)"

definition key_pos :: "nat \<Rightarrow> bytes \<Rightarrow> byte \<Rightarrow> nat option" where
  "key_pos n keys b = List.find (\<lambda>i. keys ! i = b) [0..<n]"

definition small_del ::
  "nat \<Rightarrow> bytes \<Rightarrow> node list \<Rightarrow> byte \<Rightarrow> nat \<times> bytes \<times> node list" where
  "small_del n keys ch b =
     (case key_pos n keys b of
        None \<Rightarrow> (n, keys, ch)
      | Some pos \<Rightarrow>
          let (ks, cs) = fold (\<lambda>i (ks, cs). (ks[i := ks ! Suc i], list_swap cs i (Suc i)))
                           [pos..<n - 1] (keys, ch)
          in (n - 1, ks, cs[n - 1 := Empty]))"

definition n48_add :: "nat \<Rightarrow> bytes \<Rightarrow> node list \<Rightarrow> byte \<Rightarrow> node \<Rightarrow> (nat \<times> bytes \<times> node list) option" where
  "n48_add n idx ch b child =
     (case List.find (\<lambda>i. ch ! i = Empty) [0..<48] of
        None \<Rightarrow> None
      | Some slot \<Rightarrow> Some (Suc n, idx[unat b := of_nat slot], ch[slot := child]))"

definition n48_del :: "nat \<Rightarrow> bytes \<Rightarrow> node list \<Rightarrow> byte \<Rightarrow> nat \<times> bytes \<times> node list" where
  "n48_del n idx ch b =
     (let s = idx ! unat b
      in if s = n48_nil then (n, idx, ch)
         else (n - 1, idx[unat b := n48_nil], ch[unat s := Empty]))"

definition n256_add :: "nat \<Rightarrow> node list \<Rightarrow> byte \<Rightarrow> node \<Rightarrow> nat \<times> node list" where
  "n256_add n ch b child = (Suc n mod 2 ^ 16, ch[unat b := child])"

definition n256_del :: "nat \<Rightarrow> node list \<Rightarrow> byte \<Rightarrow> nat \<times> node list" where
  "n256_del n ch b =
     (if ch ! unat b \<noteq> Empty then (n - 1, ch[unat b := Empty]) else (n, ch))"

subsection \<open>Conversions between layouts\<close>

definition n4_to_n16 :: "bytes \<Rightarrow> bool \<Rightarrow> nat \<Rightarrow> bytes \<Rightarrow> node list \<Rightarrow> node" where
  "n4_to_n16 pfx has_end n keys ch =
     N16 pfx has_end n (take n keys @ replicate (16 - n) 0) (ch @ replicate (16 - length ch) Empty)"

definition n16_to_n48 :: "bytes \<Rightarrow> bool \<Rightarrow> nat \<Rightarrow> bytes \<Rightarrow> node list \<Rightarrow> node" where
  "n16_to_n48 pfx has_end n keys ch =
     (let (idx, cs) = fold (\<lambda>(slot, key, c) (idx, cs). (idx[unat key := of_nat slot], cs[slot := c]))
                        (enumerate 0 (zip (take n keys) ch))
                        (replicate 256 n48_nil, replicate 48 Empty)
      in N48 pfx has_end n idx cs)"

text \<open>
  \<open>n48_to_n256\<close> first inverts the byte index into \<open>slot_byte\<close>, whose unused entries hold the same
  marker \<open>0xFF\<close> as the index, and then skips the slots whose byte equals the marker.
\<close>

definition idx_in_range :: "bytes \<Rightarrow> bool" where
  "idx_in_range idx \<longleftrightarrow> (\<forall>s \<in> set idx. s = n48_nil \<or> unat s < 48)"

definition slot_bytes :: "bytes \<Rightarrow> bytes" where
  "slot_bytes idx =
     fold (\<lambda>(byte, slot) sb. if slot \<noteq> n48_nil then sb[unat slot := of_nat byte] else sb)
       (enumerate 0 idx) (replicate 48 n48_nil)"

definition n48_to_n256 :: "bytes \<Rightarrow> bool \<Rightarrow> nat \<Rightarrow> bytes \<Rightarrow> node list \<Rightarrow> node option" where
  "n48_to_n256 pfx has_end n idx ch =
     (if idx_in_range idx then
        Some (N256 pfx has_end n
          (fold (\<lambda>(byte, c) cs. if byte \<noteq> n48_nil then cs[unat byte := c] else cs)
             (zip (slot_bytes idx) ch) (replicate 256 Empty)))
      else None)"

definition n16_to_n4 :: "bytes \<Rightarrow> bool \<Rightarrow> nat \<Rightarrow> bytes \<Rightarrow> node list \<Rightarrow> node" where
  "n16_to_n4 pfx has_end n keys ch =
     N4 pfx has_end n (take n keys @ replicate (4 - n) 0) (take n ch @ replicate (4 - n) Empty)"

text \<open>
  \<open>n48_to_n16\<close> lists the occupied bytes in ascending order (the sort of the source is on a list
  that is already sorted) and takes each child out of its slot.
\<close>

definition n48_pairs :: "bytes \<Rightarrow> (byte \<times> nat) list" where
  "n48_pairs idx =
     map (\<lambda>b. (of_nat b, unat (idx ! b))) (filter (\<lambda>b. idx ! b \<noteq> n48_nil) [0..<256])"

fun take_slots :: "nat list \<Rightarrow> node list \<Rightarrow> node list" where
  "take_slots [] chs = []"
| "take_slots (s # ss) chs = chs ! s # take_slots ss (chs[s := Empty])"

definition n48_to_n16 :: "bytes \<Rightarrow> bool \<Rightarrow> nat \<Rightarrow> bytes \<Rightarrow> node list \<Rightarrow> node option" where
  "n48_to_n16 pfx has_end n idx ch =
     (let pairs = n48_pairs idx; m = length pairs
      in if m \<le> 16 \<and> idx_in_range idx then
           Some (N16 pfx has_end n (map fst pairs @ replicate (16 - m) 0)
                   (take_slots (map snd pairs) ch @ replicate (16 - m) Empty))
         else None)"

definition n256_to_n48 :: "bytes \<Rightarrow> bool \<Rightarrow> nat \<Rightarrow> node list \<Rightarrow> node option" where
  "n256_to_n48 pfx has_end n ch =
     (let occ = filter (\<lambda>(b, c). c \<noteq> Empty) (enumerate 0 ch)
      in if length occ \<le> 48 then
           Some (N48 pfx has_end (n mod 256)
             (fold (\<lambda>(slot, byte, c) idx. idx[byte := of_nat slot]) (enumerate 0 occ)
                (replicate 256 n48_nil))
             (map snd occ @ replicate (48 - length occ) Empty))
         else None)"

subsection \<open>Dispatch helpers\<close>

fun is_inner :: "node \<Rightarrow> bool" where
  "is_inner Empty = False"
| "is_inner (Leaf s) = False"
| "is_inner _ = True"

fun node_prefix :: "node \<Rightarrow> bytes" where
  "node_prefix (N4 p h n ks cs) = p"
| "node_prefix (N16 p h n ks cs) = p"
| "node_prefix (N48 p h n ix cs) = p"
| "node_prefix (N256 p h n cs) = p"
| "node_prefix _ = []"

fun node_set_prefix :: "node \<Rightarrow> bytes \<Rightarrow> node" where
  "node_set_prefix (N4 p h n ks cs) q = N4 q h n ks cs"
| "node_set_prefix (N16 p h n ks cs) q = N16 q h n ks cs"
| "node_set_prefix (N48 p h n ix cs) q = N48 q h n ix cs"
| "node_set_prefix (N256 p h n cs) q = N256 q h n cs"
| "node_set_prefix nd q = nd"

fun node_has_end :: "node \<Rightarrow> bool" where
  "node_has_end (N4 p h n ks cs) = h"
| "node_has_end (N16 p h n ks cs) = h"
| "node_has_end (N48 p h n ix cs) = h"
| "node_has_end (N256 p h n cs) = h"
| "node_has_end _ = False"

fun node_set_has_end :: "node \<Rightarrow> bool \<Rightarrow> node" where
  "node_set_has_end (N4 p h n ks cs) e = N4 p e n ks cs"
| "node_set_has_end (N16 p h n ks cs) e = N16 p e n ks cs"
| "node_set_has_end (N48 p h n ix cs) e = N48 p e n ix cs"
| "node_set_has_end (N256 p h n cs) e = N256 p e n cs"
| "node_set_has_end nd e = nd"

text \<open>
  \<open>node_child_pos\<close> is the array position of the child for byte \<open>b\<close>, the part the source's
  \<open>node_has_child\<close>, \<open>node_child_mut\<close> and \<open>node_child_is_empty\<close> share.
\<close>

fun node_child_pos :: "node \<Rightarrow> byte \<Rightarrow> nat option" where
  "node_child_pos (N4 p h n ks cs) b = key_pos n ks b"
| "node_child_pos (N16 p h n ks cs) b = key_pos n ks b"
| "node_child_pos (N48 p h n ix cs) b =
     (if ix ! unat b = n48_nil then None else Some (unat (ix ! unat b)))"
| "node_child_pos (N256 p h n cs) b = (if cs ! unat b = Empty then None else Some (unat b))"
| "node_child_pos _ b = None"

fun node_children :: "node \<Rightarrow> node list" where
  "node_children (N4 p h n ks cs) = cs"
| "node_children (N16 p h n ks cs) = cs"
| "node_children (N48 p h n ix cs) = cs"
| "node_children (N256 p h n cs) = cs"
| "node_children _ = []"

fun node_set_children :: "node \<Rightarrow> node list \<Rightarrow> node" where
  "node_set_children (N4 p h n ks cs) ds = N4 p h n ks ds"
| "node_set_children (N16 p h n ks cs) ds = N16 p h n ks ds"
| "node_set_children (N48 p h n ix cs) ds = N48 p h n ix ds"
| "node_set_children (N256 p h n cs) ds = N256 p h n ds"
| "node_set_children nd ds = nd"

definition node_has_child :: "node \<Rightarrow> byte \<Rightarrow> bool" where
  "node_has_child nd b \<longleftrightarrow> node_child_pos nd b \<noteq> None"

text \<open>
  Reading the child for a byte that \<open>node_has_child\<close> accepts; an index entry past the child array
  panics. Writing through the reference \<open>node_child_mut\<close> hands out is \<open>node_put_child\<close>.
\<close>

definition node_child :: "node \<Rightarrow> byte \<Rightarrow> node option" where
  "node_child nd b =
     (case node_child_pos nd b of
        None \<Rightarrow> None
      | Some i \<Rightarrow> if i < length (node_children nd) then Some (node_children nd ! i) else None)"

definition node_put_child :: "node \<Rightarrow> byte \<Rightarrow> node \<Rightarrow> node" where
  "node_put_child nd b c =
     (case node_child_pos nd b of
        None \<Rightarrow> nd
      | Some i \<Rightarrow> node_set_children nd ((node_children nd)[i := c]))"

text \<open>
  \<open>node_child_is_empty\<close> is asked after the child was written through the reference; for \<open>N256\<close> the
  position of an emptied child is the byte itself.
\<close>

definition node_child_is_empty :: "node \<Rightarrow> byte \<Rightarrow> bool" where
  "node_child_is_empty nd b =
     (case node_child_pos nd b of None \<Rightarrow> True | Some i \<Rightarrow> node_children nd ! i = Empty)"

fun node_add_child :: "node \<Rightarrow> byte \<Rightarrow> node \<Rightarrow> node option" where
  "node_add_child (N4 p h n ks cs) b c =
     map_option (\<lambda>(n', ks', cs'). N4 p h n' ks' cs') (small_add 4 n ks cs b c)"
| "node_add_child (N16 p h n ks cs) b c =
     map_option (\<lambda>(n', ks', cs'). N16 p h n' ks' cs') (small_add 16 n ks cs b c)"
| "node_add_child (N48 p h n ix cs) b c =
     map_option (\<lambda>(n', ix', cs'). N48 p h n' ix' cs') (n48_add n ix cs b c)"
| "node_add_child (N256 p h n cs) b c = (case n256_add n cs b c of (n', cs') \<Rightarrow> Some (N256 p h n' cs'))"
| "node_add_child nd b c = Some nd"

fun node_del_child :: "node \<Rightarrow> byte \<Rightarrow> node" where
  "node_del_child (N4 p h n ks cs) b = (case small_del n ks cs b of (n', ks', cs') \<Rightarrow> N4 p h n' ks' cs')"
| "node_del_child (N16 p h n ks cs) b = (case small_del n ks cs b of (n', ks', cs') \<Rightarrow> N16 p h n' ks' cs')"
| "node_del_child (N48 p h n ix cs) b = (case n48_del n ix cs b of (n', ix', cs') \<Rightarrow> N48 p h n' ix' cs')"
| "node_del_child (N256 p h n cs) b = (case n256_del n cs b of (n', cs') \<Rightarrow> N256 p h n' cs')"
| "node_del_child nd b = nd"

fun node_n_children :: "node \<Rightarrow> nat" where
  "node_n_children (N4 p h n ks cs) = n"
| "node_n_children (N16 p h n ks cs) = n"
| "node_n_children (N48 p h n ix cs) = n"
| "node_n_children (N256 p h n cs) = n"
| "node_n_children _ = 0"

fun node_maybe_grow :: "node \<Rightarrow> node option" where
  "node_maybe_grow (N4 p h n ks cs) =
     (if n = 4 then Some (n4_to_n16 p h n ks cs) else Some (N4 p h n ks cs))"
| "node_maybe_grow (N16 p h n ks cs) =
     (if n = 16 then Some (n16_to_n48 p h n ks cs) else Some (N16 p h n ks cs))"
| "node_maybe_grow (N48 p h n ix cs) =
     (if n = 48 then n48_to_n256 p h n ix cs else Some (N48 p h n ix cs))"
| "node_maybe_grow nd = Some nd"

text \<open>\<open>prepend_into\<close> pushes the prefix and branch byte of a removed parent into its only child.\<close>

fun prepend_into :: "bytes \<Rightarrow> byte \<Rightarrow> node \<Rightarrow> node" where
  "prepend_into pfx b (Leaf s) = Leaf (pfx @ b # s)"
| "prepend_into pfx b Empty = Empty"
| "prepend_into pfx b nd = node_set_prefix nd (pfx @ b # node_prefix nd)"

fun node_maybe_shrink :: "node \<Rightarrow> node option" where
  "node_maybe_shrink nd =
     (if node_n_children nd = 0 \<and> \<not> node_has_end nd then Some Empty
      else case nd of
        N4 p h n ks cs \<Rightarrow>
          if n = 1 \<and> \<not> h then Some (prepend_into p (ks ! 0) (cs ! 0)) else Some nd
      | N16 p h n ks cs \<Rightarrow> if n \<le> 4 then Some (n16_to_n4 p h n ks cs) else Some nd
      | N48 p h n ix cs \<Rightarrow> if n \<le> 16 then n48_to_n16 p h n ix cs else Some nd
      | N256 p h n cs \<Rightarrow> if n \<le> 48 then n256_to_n48 p h n cs else Some nd
      | _ \<Rightarrow> Some nd)"

declare node_maybe_shrink.simps [simp del]

fun common_prefix :: "bytes \<Rightarrow> bytes \<Rightarrow> nat" where
  "common_prefix (a # as) (b # bs) = (if a = b then Suc (common_prefix as bs) else 0)"
| "common_prefix _ _ = 0"

end
