(* ===== verification/ArtShape.thy ===== *)
theory ArtShape
  imports ArtNode
begin

text \<open>
  The representation invariants of the four inner layouts of the radix tree and the effect of
  every child operation and layout conversion on the abstract view of a node: its prefix, its
  \<open>has_end\<close> flag and the function \<open>kid\<close> from branch bytes to children.
\<close>

named_theorems art_view "how node operations change the abstract view of a node"

subsection \<open>The abstract view and the representation invariants\<close>

definition kid :: "node \<Rightarrow> byte \<Rightarrow> node" where
  "kid nd b = (case node_child nd b of None \<Rightarrow> Empty | Some c \<Rightarrow> c)"

definition small_ok :: "nat \<Rightarrow> nat \<Rightarrow> bytes \<Rightarrow> node list \<Rightarrow> bool" where
  "small_ok cap n ks cs \<longleftrightarrow> length ks = cap \<and> length cs = cap \<and> n \<le> cap \<and>
     sorted_wrt (<) (take n ks) \<and> (\<forall>i<cap. cs ! i \<noteq> Empty \<longleftrightarrow> i < n)"

definition n48_ok :: "nat \<Rightarrow> bytes \<Rightarrow> node list \<Rightarrow> bool" where
  "n48_ok n ix cs \<longleftrightarrow> length ix = 256 \<and> length cs = 48 \<and> idx_in_range ix \<and>
     (\<forall>b<256. \<forall>c<256. ix ! b = ix ! c \<and> ix ! b \<noteq> n48_nil \<longrightarrow> b = c) \<and>
     (\<forall>i<48. cs ! i \<noteq> Empty \<longleftrightarrow> (\<exists>b<256. ix ! b \<noteq> n48_nil \<and> unat (ix ! b) = i)) \<and>
     n = card {b. b < 256 \<and> ix ! b \<noteq> n48_nil}"

definition n256_ok :: "nat \<Rightarrow> node list \<Rightarrow> bool" where
  "n256_ok n cs \<longleftrightarrow> length cs = 256 \<and> card {b. b < 256 \<and> cs ! b \<noteq> Empty} \<le> n"

fun shape_ok :: "node \<Rightarrow> bool" where
  "shape_ok (N4 p h n ks cs) = small_ok 4 n ks cs"
| "shape_ok (N16 p h n ks cs) = small_ok 16 n ks cs"
| "shape_ok (N48 p h n ix cs) = n48_ok n ix cs"
| "shape_ok (N256 p h n cs) = n256_ok n cs"
| "shape_ok _ = True"

text \<open>
  \<open>wf_node\<close> asks the layout's invariant of every node of the tree. \<open>tame lo hi\<close> asks for what the
  code needs beyond it: byte \<open>0xFF\<close> occurs in no key, and the count of an \<open>N256\<close> is between \<open>lo\<close>
  and \<open>hi\<close>.
\<close>

fun wf_node :: "node \<Rightarrow> bool" where
  "wf_node Empty = True"
| "wf_node (Leaf s) = True"
| "wf_node (N4 p h n ks cs) = (small_ok 4 n ks cs \<and> (\<forall>c \<in> set cs. wf_node c))"
| "wf_node (N16 p h n ks cs) = (small_ok 16 n ks cs \<and> (\<forall>c \<in> set cs. wf_node c))"
| "wf_node (N48 p h n ix cs) = (n48_ok n ix cs \<and> (\<forall>c \<in> set cs. wf_node c))"
| "wf_node (N256 p h n cs) = (n256_ok n cs \<and> (\<forall>c \<in> set cs. wf_node c))"

fun tame :: "nat \<Rightarrow> nat \<Rightarrow> node \<Rightarrow> bool" where
  "tame lo hi Empty = True"
| "tame lo hi (Leaf s) = (0xFF \<notin> set s)"
| "tame lo hi (N4 p h n ks cs) =
     (0xFF \<notin> set p \<and> kid (N4 p h n ks cs) 0xFF = Empty \<and> (\<forall>c \<in> set cs. tame lo hi c))"
| "tame lo hi (N16 p h n ks cs) =
     (0xFF \<notin> set p \<and> kid (N16 p h n ks cs) 0xFF = Empty \<and> (\<forall>c \<in> set cs. tame lo hi c))"
| "tame lo hi (N48 p h n ix cs) =
     (0xFF \<notin> set p \<and> kid (N48 p h n ix cs) 0xFF = Empty \<and> (\<forall>c \<in> set cs. tame lo hi c))"
| "tame lo hi (N256 p h n cs) =
     (lo \<le> n \<and> n \<le> hi \<and> 0xFF \<notin> set p \<and> kid (N256 p h n cs) 0xFF = Empty \<and> (\<forall>c \<in> set cs. tame lo hi c))"

declare unat_byte_lt [simp]

lemma unat_n48_nil [simp]: "unat n48_nil = 255"
  by (simp add: n48_nil_def)

lemma card_byte_image: "card {b::byte. P b} = card {i. i < 256 \<and> P (of_nat i)}"
proof -
  have "{b::byte. P b} = of_nat ` {i. i < 256 \<and> P (of_nat i)}"
  proof (intro set_eqI iffI)
    fix b :: byte
    assume "b \<in> {b. P b}"
    then have "b = of_nat (unat b)" "unat b \<in> {i. i < 256 \<and> P (of_nat i)}" by simp_all
    then show "b \<in> of_nat ` {i. i < 256 \<and> P (of_nat i)}" by (rule image_eqI)
  qed auto
  moreover have "inj_on (of_nat :: nat \<Rightarrow> byte) {i. i < 256 \<and> P (of_nat i)}"
    by (rule inj_onI) (metis (mono_tags) mem_Collect_eq unat_of_nat_byte_small)
  ultimately show ?thesis by (simp add: card_image)
qed

subsection \<open>Sorted arrays: \<open>N4\<close> and \<open>N16\<close>\<close>

definition skid :: "nat \<Rightarrow> bytes \<Rightarrow> node list \<Rightarrow> byte \<Rightarrow> node" where
  "skid n ks cs b = (case key_pos n ks b of None \<Rightarrow> Empty | Some i \<Rightarrow> cs ! i)"

lemma key_pos_None: "key_pos n ks b = None \<longleftrightarrow> (\<forall>i<n. ks ! i \<noteq> b)"
  by (auto simp: key_pos_def find_None_iff)

lemma key_pos_SomeD: "key_pos n ks b = Some i \<Longrightarrow> i < n \<and> ks ! i = b"
  by (auto simp: key_pos_def find_Some_iff)

lemma small_distinct:
  "small_ok cap n ks cs \<Longrightarrow> i < n \<Longrightarrow> j < n \<Longrightarrow> ks ! i = ks ! j \<longleftrightarrow> i = j"
  unfolding small_ok_def sorted_wrt_iff_nth_less
  by (metis length_take min.absorb2 nat_neq_iff nth_take order_less_irrefl)

lemma small_sorted:
  "small_ok cap n ks cs \<Longrightarrow> i < j \<Longrightarrow> j < n \<Longrightarrow> ks ! i < ks ! j"
  by (auto simp: small_ok_def sorted_wrt_iff_nth_less)

lemma key_pos_Some:
  assumes "small_ok cap n ks cs"
  shows "key_pos n ks b = Some i \<longleftrightarrow> i < n \<and> ks ! i = b"
proof
  assume "key_pos n ks b = Some i"
  then show "i < n \<and> ks ! i = b" by (rule key_pos_SomeD)
next
  assume i: "i < n \<and> ks ! i = b"
  then have "key_pos n ks b \<noteq> None" by (auto simp: key_pos_None)
  then obtain j where j: "key_pos n ks b = Some j" by auto
  then have "j < n \<and> ks ! j = b" by (rule key_pos_SomeD)
  with i assms have "i = j" by (metis small_distinct)
  with j show "key_pos n ks b = Some i" by simp
qed

lemma skid_nth: "small_ok cap n ks cs \<Longrightarrow> i < n \<Longrightarrow> skid n ks cs (ks ! i) = cs ! i"
  using key_pos_Some[of cap n ks cs "ks ! i" i] by (simp add: skid_def)

lemma skid_none: "(\<forall>i<n. ks ! i \<noteq> b) \<Longrightarrow> skid n ks cs b = Empty"
  using key_pos_None[of n ks b] by (simp add: skid_def)

lemma skid_eqI:
  assumes "small_ok cap n ks cs" and "\<And>i. i < n \<Longrightarrow> f (ks ! i) = cs ! i"
    and "\<And>b. \<forall>i<n. ks ! i \<noteq> b \<Longrightarrow> f b = Empty"
  shows "skid n ks cs = f"
proof
  fix b
  show "skid n ks cs b = f b"
  proof (cases "\<exists>i<n. ks ! i = b")
    case True
    with assms show ?thesis by (metis skid_nth)
  next
    case False
    with assms(3)[of b] show ?thesis by (simp add: skid_none)
  qed
qed

lemma skid_Empty_iff:
  "small_ok cap n ks cs \<Longrightarrow> skid n ks cs b = Empty \<longleftrightarrow> (\<forall>i<n. ks ! i \<noteq> b)"
  by (metis skid_none skid_nth small_ok_def order_less_le_trans)

text \<open>What the two shifting loops compute.\<close>

lemma shift_right:
  assumes "pos \<le> n" "n < length ks" "length cs = length ks"
    and "fold (\<lambda>i (ks, cs). (ks[Suc i := ks ! i], list_swap cs i (Suc i))) (rev [pos..<n]) (ks, cs)
      = (ks', cs')"
  shows "length ks' = length ks \<and> length cs' = length cs \<and>
    (\<forall>j<length ks. ks' ! j = (if pos < j \<and> j \<le> n then ks ! (j - 1) else ks ! j)) \<and>
    (\<forall>j<length cs. cs' ! j = (if j = pos then cs ! n else if pos < j \<and> j \<le> n then cs ! (j - 1) else cs ! j))"
  using assms
proof (induction n arbitrary: ks cs)
  case 0
  then show ?case by auto
next
  case (Suc n)
  show ?case
  proof (cases "pos = Suc n")
    case True
    with Suc.prems show ?thesis by auto
  next
    case False
    with Suc.prems(1) have p: "pos \<le> n" by simp
    let ?ks = "ks[Suc n := ks ! n]" and ?cs = "list_swap cs n (Suc n)"
    have f: "fold (\<lambda>i (ks, cs). (ks[Suc i := ks ! i], list_swap cs i (Suc i))) (rev [pos..<n]) (?ks, ?cs)
      = (ks', cs')"
      using Suc.prems(4) p by simp
    have "length ks' = length ?ks \<and> length cs' = length ?cs \<and>
      (\<forall>j<length ?ks. ks' ! j = (if pos < j \<and> j \<le> n then ?ks ! (j - 1) else ?ks ! j)) \<and>
      (\<forall>j<length ?cs. cs' ! j = (if j = pos then ?cs ! n else if pos < j \<and> j \<le> n then ?cs ! (j - 1) else ?cs ! j))"
      by (rule Suc.IH) (use Suc.prems p f in auto)
    with Suc.prems p show ?thesis
      by (auto simp: list_swap_def nth_list_update le_Suc_eq)
  qed
qed

lemma shift_left:
  assumes "pos \<le> m" "m < length ks" "length cs = length ks"
    and "fold (\<lambda>i (ks, cs). (ks[i := ks ! Suc i], list_swap cs i (Suc i))) [pos..<m] (ks, cs)
      = (ks', cs')"
  shows "length ks' = length ks \<and> length cs' = length cs \<and>
    (\<forall>j<length ks. ks' ! j = (if pos \<le> j \<and> j < m then ks ! Suc j else ks ! j)) \<and>
    (\<forall>j<length cs. cs' ! j = (if j = m then cs ! pos else if pos \<le> j \<and> j < m then cs ! Suc j else cs ! j))"
  using assms
proof (induction m arbitrary: ks' cs')
  case 0
  then show ?case by auto
next
  case (Suc m)
  show ?case
  proof (cases "pos = Suc m")
    case True
    with Suc.prems show ?thesis by auto
  next
    case False
    with Suc.prems(1) have p: "pos \<le> m" by simp
    obtain ks1 cs1 where f: "fold (\<lambda>i (ks, cs). (ks[i := ks ! Suc i], list_swap cs i (Suc i))) [pos..<m] (ks, cs)
      = (ks1, cs1)" by fastforce
    have 1: "length ks1 = length ks \<and> length cs1 = length cs \<and>
      (\<forall>j<length ks. ks1 ! j = (if pos \<le> j \<and> j < m then ks ! Suc j else ks ! j)) \<and>
      (\<forall>j<length cs. cs1 ! j = (if j = m then cs ! pos else if pos \<le> j \<and> j < m then cs ! Suc j else cs ! j))"
      by (rule Suc.IH) (use Suc.prems p f in auto)
    have 2: "ks' = ks1[m := ks1 ! Suc m]" "cs' = list_swap cs1 m (Suc m)"
      using Suc.prems(4) p f by auto
    from 1 Suc.prems p show ?thesis
      unfolding 2 by (auto simp: list_swap_def nth_list_update)
  qed
qed

lemma sorted_wrt_takeWhile_less:
  "sorted_wrt (<) (xs :: byte list) \<Longrightarrow> i < length xs \<Longrightarrow>
    xs ! i < b \<longleftrightarrow> i < length (takeWhile (\<lambda>k. k < b) xs)"
proof (induction xs arbitrary: i)
  case Nil
  then show ?case by simp
next
  case (Cons x xs)
  show ?case
  proof (cases i)
    case 0
    then show ?thesis by simp
  next
    case (Suc j)
    with Cons have j: "j < length xs" "x < xs ! j" by auto
    show ?thesis
    proof (cases "x < b")
      case True
      with Cons Suc j show ?thesis by auto
    next
      case False
      with j have "\<not> xs ! j < b" by (meson order.strict_trans)
      with False Suc show ?thesis by simp
    qed
  qed
qed

lemma small_add_ok:
  assumes ok: "small_ok cap n ks cs" and n: "n < cap" and b: "skid n ks cs b = Empty"
    and c: "c \<noteq> Empty"
  obtains ks' cs' where "small_add cap n ks cs b c = Some (Suc n, ks', cs')"
    "small_ok cap (Suc n) ks' cs'" "skid (Suc n) ks' cs' = (skid n ks cs)(b := c)"
    "set cs' \<subseteq> insert c (set cs)"
proof -
  define pos where "pos = length (takeWhile (\<lambda>k. k < b) (take n ks))"
  have len: "length ks = cap" "length cs = cap" using ok by (auto simp: small_ok_def)
  have pn: "pos \<le> n"
    using len n length_takeWhile_le[of "\<lambda>k. k < b" "take n ks"] by (simp add: pos_def)
  have less: "ks ! i < b \<longleftrightarrow> i < pos" if "i < n" for i
    using sorted_wrt_takeWhile_less[of "take n ks" i b] that ok len n
    by (simp add: pos_def small_ok_def)
  have nb: "ks ! i \<noteq> b" if "i < n" for i
    using b that skid_Empty_iff[OF ok] by blast
  obtain ks1 cs1 where f: "fold (\<lambda>i (ks, cs). (ks[Suc i := ks ! i], list_swap cs i (Suc i)))
      (rev [pos..<n]) (ks, cs) = (ks1, cs1)" by fastforce
  have sh: "length ks1 = cap" "length cs1 = cap"
    "\<And>j. j < cap \<Longrightarrow> ks1 ! j = (if pos < j \<and> j \<le> n then ks ! (j - 1) else ks ! j)"
    "\<And>j. j < cap \<Longrightarrow> cs1 ! j = (if j = pos then cs ! n else if pos < j \<and> j \<le> n then cs ! (j - 1) else cs ! j)"
    using shift_right[OF pn _ _ f] len n by auto
  define KS where "KS = ks1[pos := b]"
  define CS where "CS = cs1[pos := c]"
  have lKC: "length KS = cap" "length CS = cap" using sh by (simp_all add: KS_def CS_def)
  have ksn: "KS ! j = (if j = pos then b else if j < pos then ks ! j else ks ! (j - 1))"
    if "j \<le> n" for j
    using that sh(1,3) pn n by (auto simp: KS_def nth_list_update)
  have csn: "CS ! j = (if j = pos then c else if j < pos then cs ! j else if j \<le> n then cs ! (j - 1) else cs ! j)"
    if "j < cap" for j
    using that sh(2,4) pn n by (auto simp: CS_def nth_list_update)
  have add: "small_add cap n ks cs b c = Some (Suc n, KS, CS)"
    using n f by (simp add: small_add_def pos_def[symmetric] KS_def CS_def)
  have srt: "sorted_wrt (<) (take (Suc n) KS)"
  proof -
    have "KS ! i < KS ! j" if "i < j" "j < Suc n" for i j
    proof -
      have jn: "j \<le> n" "i \<le> n" using that by auto
      consider "j < pos" | "j = pos" | "i < pos" "pos < j" | "i = pos" "pos < j" | "pos < i"
        using that by linarith
      then show ?thesis
        unfolding ksn[OF jn(1)] ksn[OF jn(2)]
      proof cases
        case 4
        have "j - 1 < n" using jn 4 by linarith
        then have "\<not> ks ! (j - 1) < b" "ks ! (j - 1) \<noteq> b" using less[of "j - 1"] nb 4 by auto
        then show "(if i = pos then b else if i < pos then ks ! i else ks ! (i - 1))
            < (if j = pos then b else if j < pos then ks ! j else ks ! (j - 1))"
          using 4 by auto
      qed (use jn that pn small_sorted[OF ok, of i j] small_sorted[OF ok, of i "j - 1"]
            small_sorted[OF ok, of "i - 1" "j - 1"] less[of i] in auto)
    qed
    then show ?thesis using lKC n by (simp add: sorted_wrt_iff_nth_less)
  qed
  have ce: "cs ! i \<noteq> Empty \<longleftrightarrow> i < n" if "i < cap" for i
    using ok that by (auto simp: small_ok_def)
  have "CS ! i \<noteq> Empty \<longleftrightarrow> i < Suc n" if "i < cap" for i
    using that c pn n ce[of i] ce[of "i - 1"] by (auto simp: csn)
  then have ok': "small_ok cap (Suc n) KS CS"
    using lKC n srt by (simp add: small_ok_def)
  have sk: "skid (Suc n) KS CS = (skid n ks cs)(b := c)"
  proof (rule skid_eqI[OF ok'])
    fix i assume i: "i < Suc n"
    consider "i < pos" | "i = pos" | "pos < i" by linarith
    then show "((skid n ks cs)(b := c)) (KS ! i) = CS ! i"
    proof cases
      case 1
      then show ?thesis using i n pn nb[of i] skid_nth[OF ok, of i] by (simp add: ksn csn)
    next
      case 2
      then show ?thesis using i n by (simp add: ksn csn)
    next
      case 3
      then have "i - 1 < n" using i by linarith
      then show ?thesis using 3 i n nb[of "i - 1"] skid_nth[OF ok, of "i - 1"] by (simp add: ksn csn)
    qed
  next
    fix x assume x: "\<forall>i<Suc n. KS ! i \<noteq> x"
    have "x \<noteq> b" using x[rule_format, of pos] pn by (simp add: ksn)
    moreover have "ks ! i \<noteq> x" if "i < n" for i
      using x[rule_format, of i] x[rule_format, of "Suc i"] that by (auto simp: ksn split: if_splits)
    ultimately show "((skid n ks cs)(b := c)) x = Empty"
      by (simp add: skid_none)
  qed
  have sub: "set CS \<subseteq> insert c (set cs)"
  proof
    fix x assume "x \<in> set CS"
    then obtain j where j: "j < cap" "x = CS ! j" using lKC by (auto simp: in_set_conv_nth)
    then show "x \<in> insert c (set cs)"
      using csn[of j] len by (auto split: if_splits)
  qed
  show ?thesis by (rule that[OF add ok' sk sub])
qed

lemma small_put_ok:
  assumes ok: "small_ok cap n ks cs" and i: "i < n" and c: "c \<noteq> Empty"
  shows "small_ok cap n ks (cs[i := c])" "skid n ks (cs[i := c]) = (skid n ks cs)(ks ! i := c)"
proof -
  show ok': "small_ok cap n ks (cs[i := c])"
    using ok i c by (auto simp: small_ok_def nth_list_update)
  show "skid n ks (cs[i := c]) = (skid n ks cs)(ks ! i := c)"
    by (rule skid_eqI[OF ok'])
      (use ok i in \<open>auto simp: skid_nth[OF ok] small_distinct[OF ok] small_ok_def nth_list_update intro: skid_none\<close>)
qed

lemma small_del_ok:
  assumes ok: "small_ok cap n ks cs" and i: "i < n"
  obtains ks' cs' where "small_del n ks (cs[i := Empty]) (ks ! i) = (n - 1, ks', cs')"
    "small_ok cap (n - 1) ks' cs'" "skid (n - 1) ks' cs' = (skid n ks cs)(ks ! i := Empty)"
    "set cs' \<subseteq> insert Empty (set cs)"
proof -
  have len: "length ks = cap" "length cs = cap" and nc: "n \<le> cap"
    using ok by (auto simp: small_ok_def)
  have kp: "key_pos n ks (ks ! i) = Some i" using ok i by (simp add: key_pos_Some[OF ok])
  obtain ks1 cs1 where f: "fold (\<lambda>i (ks, cs). (ks[i := ks ! Suc i], list_swap cs i (Suc i)))
      [i..<n - 1] (ks, cs[i := Empty]) = (ks1, cs1)" by fastforce
  have sh: "length ks1 = cap" "length cs1 = cap"
    "\<And>j. j < cap \<Longrightarrow> ks1 ! j = (if i \<le> j \<and> j < n - 1 then ks ! Suc j else ks ! j)"
    "\<And>j. j < cap \<Longrightarrow> cs1 ! j = (if j = n - 1 then Empty else if i \<le> j \<and> j < n - 1
        then cs ! Suc j else cs ! j)"
    using shift_left[OF _ _ _ f] len i nc by (auto simp: nth_list_update)
  define CS where "CS = cs1[n - 1 := Empty]"
  have lC: "length CS = cap" using sh by (simp add: CS_def)
  have del: "small_del n ks (cs[i := Empty]) (ks ! i) = (n - 1, ks1, CS)"
    using f by (simp add: small_del_def kp CS_def)
  have csn: "CS ! j = (if j = n - 1 then Empty else if i \<le> j \<and> j < n - 1 then cs ! Suc j else cs ! j)"
    if "j < cap" for j
    using that sh(2,4) by (auto simp: CS_def nth_list_update)
  have ksn: "ks1 ! j = (if i \<le> j then ks ! Suc j else ks ! j)" if "j < n - 1" for j
    using that sh(3) nc by auto
  have srt: "sorted_wrt (<) (take (n - 1) ks1)"
  proof -
    have "ks1 ! x < ks1 ! y" if "x < y" "y < n - 1" for x y
      using that i small_sorted[OF ok, of x y] small_sorted[OF ok, of x "Suc y"]
        small_sorted[OF ok, of "Suc x" "Suc y"]
      by (auto simp: ksn)
    then show ?thesis using sh(1) nc by (simp add: sorted_wrt_iff_nth_less)
  qed
  have ce: "cs ! j \<noteq> Empty \<longleftrightarrow> j < n" if "j < cap" for j
    using ok that by (auto simp: small_ok_def)
  have "CS ! j \<noteq> Empty \<longleftrightarrow> j < n - 1" if "j < cap" for j
  proof (cases "j < n - 1")
    case True
    then have "Suc j < n" "Suc j < cap" using nc by linarith+
    then show ?thesis unfolding csn[OF that] using True that ce[of j] ce[of "Suc j"] by auto
  next
    case False
    then show ?thesis unfolding csn[OF that] using that i nc ce[of j] by auto
  qed
  then have ok': "small_ok cap (n - 1) ks1 CS"
    using sh lC nc srt by (simp add: small_ok_def)
  have sk: "skid (n - 1) ks1 CS = (skid n ks cs)(ks ! i := Empty)"
  proof (rule skid_eqI[OF ok'])
    fix j assume j: "j < n - 1"
    then have "j < n" "Suc j < n" "j < cap" using nc by auto
    then show "((skid n ks cs)(ks ! i := Empty)) (ks1 ! j) = CS ! j"
      using i j by (auto simp: ksn csn skid_nth[OF ok] small_distinct[OF ok])
  next
    fix x assume x: "\<forall>j<n - 1. ks1 ! j \<noteq> x"
    have "ks ! j \<noteq> x" if "j < n" "j \<noteq> i" for j
    proof (cases "j < i")
      case True
      then show ?thesis using x[rule_format, of j] that i by (auto simp: ksn split: if_splits)
    next
      case False
      with that(2) obtain m where m: "j = Suc m" "i \<le> m" by (cases j) auto
      with that(1) have "m < n - 1" by simp
      with x ksn[of m] m show ?thesis by auto
    qed
    then show "((skid n ks cs)(ks ! i := Empty)) x = Empty"
      by (metis fun_upd_apply skid_none)
  qed
  have sub: "set CS \<subseteq> insert Empty (set cs)"
  proof
    fix x assume "x \<in> set CS"
    then obtain j where j: "j < cap" "x = CS ! j" using lC by (auto simp: in_set_conv_nth)
    then show "x \<in> insert Empty (set cs)"
      using csn[of j] len nc by (auto split: if_splits)
  qed
  show ?thesis by (rule that[OF del ok' sk sub])
qed

end
