(* ===== verification/ArtWide.thy ===== *)
theory ArtWide
  imports ArtShape
begin

text \<open>
  The byte-indexed layouts \<open>N48\<close> and \<open>N256\<close> and the six layout conversions: each keeps the
  representation invariant and the children, with one exception that the source has too, the
  child at byte \<open>0xFF\<close> when an \<open>N48\<close> grows.
\<close>

subsection \<open>\<open>N48\<close>\<close>

definition k48 :: "bytes \<Rightarrow> node list \<Rightarrow> byte \<Rightarrow> node" where
  "k48 ix cs b = (if ix ! unat b = n48_nil then Empty else cs ! unat (ix ! unat b))"

definition used48 :: "bytes \<Rightarrow> nat set" where
  "used48 ix = {b. b < 256 \<and> ix ! b \<noteq> n48_nil}"

lemma finite_used48 [simp]: "finite (used48 ix)"
  by (simp add: used48_def)

lemma n48_okD:
  assumes "n48_ok n ix cs"
  shows "length ix = 256" "length cs = 48" "idx_in_range ix" "n = card (used48 ix)"
    and "\<And>b c. b < 256 \<Longrightarrow> c < 256 \<Longrightarrow> ix ! b = ix ! c \<Longrightarrow> ix ! b \<noteq> n48_nil \<Longrightarrow> b = c"
    and "\<And>i. i < 48 \<Longrightarrow> cs ! i \<noteq> Empty \<longleftrightarrow> (\<exists>b<256. ix ! b \<noteq> n48_nil \<and> unat (ix ! b) = i)"
    and "\<And>b. b < 256 \<Longrightarrow> ix ! b \<noteq> n48_nil \<Longrightarrow> unat (ix ! b) < 48"
    and "\<And>b. b < 256 \<Longrightarrow> ix ! b \<noteq> n48_nil \<Longrightarrow> cs ! unat (ix ! b) \<noteq> Empty"
proof -
  show r: "unat (ix ! b) < 48" if "b < 256" "ix ! b \<noteq> n48_nil" for b
    using assms that by (auto simp: n48_ok_def idx_in_range_def)
  show "cs ! unat (ix ! b) \<noteq> Empty" if "b < 256" "ix ! b \<noteq> n48_nil" for b
    using assms that r[OF that] by (auto simp: n48_ok_def)
qed (use assms in \<open>auto simp: n48_ok_def used48_def\<close>)

lemma n48_okI:
  assumes "length ix = 256" "length cs = 48" "idx_in_range ix" "n = card (used48 ix)"
    and "\<And>b c. b < 256 \<Longrightarrow> c < 256 \<Longrightarrow> ix ! b = ix ! c \<Longrightarrow> ix ! b \<noteq> n48_nil \<Longrightarrow> b = c"
    and "\<And>i. i < 48 \<Longrightarrow> cs ! i \<noteq> Empty \<longleftrightarrow> (\<exists>b<256. ix ! b \<noteq> n48_nil \<and> unat (ix ! b) = i)"
  shows "n48_ok n ix cs"
  using assms unfolding n48_ok_def used48_def by blast

lemma n48_slots_card:
  assumes "n48_ok n ix cs"
  shows "card {i. i < 48 \<and> cs ! i \<noteq> Empty} = n"
proof -
  have "i \<in> {i. i < 48 \<and> cs ! i \<noteq> Empty} \<longleftrightarrow> i \<in> (\<lambda>b. unat (ix ! b)) ` used48 ix" for i
  proof (cases "i < 48")
    case True
    then show ?thesis using n48_okD(6)[OF assms True] by (auto simp: used48_def)
  next
    case False
    then show ?thesis using n48_okD(7)[OF assms] by (auto simp: used48_def)
  qed
  then have "{i. i < 48 \<and> cs ! i \<noteq> Empty} = (\<lambda>b. unat (ix ! b)) ` used48 ix" by blast
  moreover have "inj_on (\<lambda>b. unat (ix ! b)) (used48 ix)"
    using n48_okD(5)[OF assms] by (auto simp: inj_on_def used48_def byte_eq_unat)
  ultimately show ?thesis using n48_okD(4)[OF assms] by (simp add: card_image)
qed

lemma k48_Empty_iff:
  "n48_ok n ix cs \<Longrightarrow> k48 ix cs b = Empty \<longleftrightarrow> ix ! unat b = n48_nil"
  using n48_okD(8)[of n ix cs "unat b"] by (auto simp: k48_def)

lemma slot_byte_neq_nil: "s < 48 \<Longrightarrow> (of_nat s :: byte) \<noteq> n48_nil"
  by (simp add: byte_eq_unat)

lemma n48_add_ok:
  assumes ok: "n48_ok n ix cs" and n: "n < 48" and b: "k48 ix cs b = Empty" and c: "c \<noteq> Empty"
  obtains ix' cs' where "n48_add n ix cs b c = Some (Suc n, ix', cs')"
    "n48_ok (Suc n) ix' cs'" "k48 ix' cs' = (k48 ix cs)(b := c)" "set cs' \<subseteq> insert c (set cs)"
proof -
  note D = n48_okD[OF ok]
  have "\<exists>i<48. cs ! i = Empty"
  proof (rule ccontr)
    assume "\<not> (\<exists>i<48. cs ! i = Empty)"
    then have "{i. i < 48 \<and> cs ! i \<noteq> Empty} = {..<48}" by auto
    then show False using n48_slots_card[OF ok] n by simp
  qed
  then obtain s where f: "List.find (\<lambda>i. cs ! i = Empty) [0..<48] = Some s"
    by (cases "List.find (\<lambda>i. cs ! i = Empty) [0..<48]") (auto simp: find_None_iff)
  then have s: "s < 48" "cs ! s = Empty" by (auto simp: find_Some_iff)
  let ?ix = "ix[unat b := of_nat s]" and ?cs = "cs[s := c]"
  have bn: "ix ! unat b = n48_nil" using b k48_Empty_iff[OF ok] by simp
  have free: "ix ! x = n48_nil \<or> unat (ix ! x) \<noteq> s" if "x < 256" for x
    using D(6)[of s] s that by auto
  have ixn: "?ix ! x = (if x = unat b then of_nat s else ix ! x)" if "x < 256" for x
    using D(1) that by (simp add: nth_list_update)
  have us: "unat (of_nat s :: byte) = s" using s by simp
  have add: "n48_add n ix cs b c = Some (Suc n, ?ix, ?cs)"
    by (simp add: n48_add_def f)
  have rng: "idx_in_range ?ix"
    using D(3) s by (auto simp: idx_in_range_def dest!: set_update_subset_insert[THEN subsetD])
  have inj: "x = y" if "x < 256" "y < 256" "?ix ! x = ?ix ! y" "?ix ! x \<noteq> n48_nil" for x y
    using that D(5)[of x y] free[of x] free[of y] us by (auto simp: ixn split: if_splits)
  have occ: "?cs ! i \<noteq> Empty \<longleftrightarrow> (\<exists>x<256. ?ix ! x \<noteq> n48_nil \<and> unat (?ix ! x) = i)"
    if "i < 48" for i
  proof (cases "i = s")
    case True
    then show ?thesis using c D(2) s slot_byte_neq_nil[OF s(1)] us
      by (auto intro!: exI[of _ "unat b"] simp: ixn)
  next
    case False
    then have "?cs ! i = cs ! i" by simp
    moreover have "?ix ! x \<noteq> n48_nil \<and> unat (?ix ! x) = i \<longleftrightarrow> ix ! x \<noteq> n48_nil \<and> unat (ix ! x) = i"
      if "x < 256" for x
      using False bn us ixn[OF that] by (cases "x = unat b") auto
    then have "(\<exists>x<256. ?ix ! x \<noteq> n48_nil \<and> unat (?ix ! x) = i) \<longleftrightarrow>
        (\<exists>x<256. ix ! x \<noteq> n48_nil \<and> unat (ix ! x) = i)" by blast
    ultimately show ?thesis using D(6)[OF that] by simp
  qed
  have "used48 ?ix = insert (unat b) (used48 ix)"
    using slot_byte_neq_nil[OF s(1)] by (auto simp: used48_def ixn split: if_splits)
  then have crd: "card (used48 ?ix) = Suc n"
    using D(4) bn by (simp add: used48_def)
  have ok': "n48_ok (Suc n) ?ix ?cs"
    by (rule n48_okI[OF _ _ rng crd[symmetric] inj occ]) (use D(1,2) in simp_all)
  have "k48 ?ix ?cs x = ((k48 ix cs)(b := c)) x" for x
    using s D(1,2) us slot_byte_neq_nil[OF s(1)] free[of "unat x"]
    by (auto simp: k48_def ixn byte_eq_unat[of x b])
  then have "k48 ?ix ?cs = (k48 ix cs)(b := c)" by auto
  then show ?thesis using that[OF add ok'] set_update_subset_insert[of cs s c] by blast
qed

lemma n48_put_ok:
  assumes ok: "n48_ok n ix cs" and b: "ix ! unat b \<noteq> n48_nil" and c: "c \<noteq> Empty"
  shows "n48_ok n ix (cs[unat (ix ! unat b) := c])"
    "k48 ix (cs[unat (ix ! unat b) := c]) = (k48 ix cs)(b := c)"
proof -
  note D = n48_okD[OF ok]
  have "cs[unat (ix ! unat b) := c] ! i \<noteq> Empty \<longleftrightarrow> cs ! i \<noteq> Empty" if "i < 48" for i
  proof (cases "i = unat (ix ! unat b)")
    case True
    then show ?thesis using that c D(2) D(8)[of "unat b"] b by simp
  next
    case False
    then show ?thesis by simp
  qed
  then show "n48_ok n ix (cs[unat (ix ! unat b) := c])"
    using ok unfolding n48_ok_def length_list_update by blast
  show "k48 ix (cs[unat (ix ! unat b) := c]) = (k48 ix cs)(b := c)"
  proof
    fix x
    show "k48 ix (cs[unat (ix ! unat b) := c]) x = ((k48 ix cs)(b := c)) x"
      using b D(2) D(7)[of "unat b"] D(5)[of "unat b" "unat x"]
      by (auto simp: k48_def nth_list_update byte_eq_unat)
  qed
qed

lemma n48_del_ok:
  assumes ok: "n48_ok n ix cs" and b: "ix ! unat b \<noteq> n48_nil"
  obtains ix' cs' where "n48_del n ix (cs[unat (ix ! unat b) := Empty]) b = (n - 1, ix', cs')"
    "n48_ok (n - 1) ix' cs'" "k48 ix' cs' = (k48 ix cs)(b := Empty)"
    "set cs' \<subseteq> insert Empty (set cs)"
proof -
  note D = n48_okD[OF ok]
  let ?s = "unat (ix ! unat b)" and ?ix = "ix[unat b := n48_nil]"
  let ?cs = "cs[unat (ix ! unat b) := Empty]"
  have s: "?s < 48" using D(7)[of "unat b"] b by simp
  have ixn: "?ix ! x = (if x = unat b then n48_nil else ix ! x)" if "x < 256" for x
    using D(1) that by (simp add: nth_list_update)
  have del: "n48_del n ix ?cs b = (n - 1, ?ix, ?cs)"
    using b by (simp add: n48_del_def Let_def)
  have rng: "idx_in_range ?ix"
    using D(3) by (auto simp: idx_in_range_def dest!: set_update_subset_insert[THEN subsetD])
  have inj: "x = y" if "x < 256" "y < 256" "?ix ! x = ?ix ! y" "?ix ! x \<noteq> n48_nil" for x y
    using that D(5)[of x y] by (auto simp: ixn split: if_splits)
  have occ: "?cs ! i \<noteq> Empty \<longleftrightarrow> (\<exists>x<256. ?ix ! x \<noteq> n48_nil \<and> unat (?ix ! x) = i)"
    if "i < 48" for i
  proof (cases "i = ?s")
    case True
    have "\<not> (?ix ! x \<noteq> n48_nil \<and> unat (?ix ! x) = i)" if "x < 256" for x
      using D(5)[of "unat b" x] b True that ixn[OF that] by (cases "x = unat b") (auto simp: byte_eq_unat)
    then have "\<not> (\<exists>x<256. ?ix ! x \<noteq> n48_nil \<and> unat (?ix ! x) = i)" by blast
    then show ?thesis using D(2) True s by simp
  next
    case False
    have "?ix ! x \<noteq> n48_nil \<and> unat (?ix ! x) = i \<longleftrightarrow> ix ! x \<noteq> n48_nil \<and> unat (ix ! x) = i"
      if "x < 256" for x
      using False ixn[OF that] by (cases "x = unat b") auto
    then have "(\<exists>x<256. ?ix ! x \<noteq> n48_nil \<and> unat (?ix ! x) = i) \<longleftrightarrow>
        (\<exists>x<256. ix ! x \<noteq> n48_nil \<and> unat (ix ! x) = i)" by blast
    then show ?thesis using D(6)[OF that] False by simp
  qed
  have "used48 ?ix = used48 ix - {unat b}"
    by (auto simp: used48_def ixn split: if_splits)
  then have crd: "card (used48 ?ix) = n - 1"
    using D(4) b by (simp add: used48_def)
  have ok': "n48_ok (n - 1) ?ix ?cs"
    by (rule n48_okI[OF _ _ rng crd[symmetric] inj occ]) (use D(1,2) in simp_all)
  have "k48 ?ix ?cs x = ((k48 ix cs)(b := Empty)) x" for x
    using s D(1,2) D(5)[of "unat b" "unat x"] b
    by (auto simp: k48_def ixn nth_list_update byte_eq_unat)
  then have "k48 ?ix ?cs = (k48 ix cs)(b := Empty)" by auto
  then show ?thesis
    using that[OF del ok'] set_update_subset_insert[of cs ?s Empty] by blast
qed

subsection \<open>\<open>N256\<close>\<close>

definition k256 :: "node list \<Rightarrow> byte \<Rightarrow> node" where
  "k256 cs b = cs ! unat b"

lemma n256_update_card:
  assumes "length cs = 256"
  shows "card {i. i < 256 \<and> cs[unat b := c] ! i \<noteq> Empty} =
    (if c \<noteq> Empty then card (insert (unat b) {i. i < 256 \<and> cs ! i \<noteq> Empty})
     else card ({i. i < 256 \<and> cs ! i \<noteq> Empty} - {unat (b::byte)}))"
proof -
  have "{i. i < 256 \<and> cs[unat b := c] ! i \<noteq> Empty} =
    (if c \<noteq> Empty then insert (unat b) {i. i < 256 \<and> cs ! i \<noteq> Empty}
     else {i. i < 256 \<and> cs ! i \<noteq> Empty} - {unat b})"
    using assms by (auto simp: nth_list_update)
  then show ?thesis by auto
qed

lemma k256_update: "length cs = 256 \<Longrightarrow> k256 (cs[unat b := c]) = (k256 cs)(b := c)"
  by (auto simp: k256_def nth_list_update byte_eq_unat)

lemma n256_add_ok:
  assumes ok: "n256_ok n cs" and "k256 cs b = Empty" "c \<noteq> Empty"
  shows "n256_ok (Suc n) (cs[unat b := c])" "k256 (cs[unat b := c]) = (k256 cs)(b := c)"
  using assms by (simp_all add: n256_ok_def n256_update_card k256_update card_insert_if)

lemma n256_put_ok:
  assumes "n256_ok n cs" "k256 cs b \<noteq> Empty"
  shows "n256_ok n (cs[unat b := c])" "k256 (cs[unat b := c]) = (k256 cs)(b := c)"
proof -
  show "n256_ok n (cs[unat b := c])"
    using assms card_Diff1_le[of "{i. i < 256 \<and> cs ! i \<noteq> Empty}" "unat b"]
    by (auto simp: n256_ok_def n256_update_card k256_def insert_absorb simp del: card_Diff1_le)
  show "k256 (cs[unat b := c]) = (k256 cs)(b := c)"
    using assms by (simp add: n256_ok_def k256_update)
qed

end
