(* ===== verification/ArtView.thy ===== *)
theory ArtView
  imports ArtWide
begin

text \<open>
  The six layout conversions and the dispatch helpers of the radix tree, stated over the abstract
  view of a node: prefix, \<open>has_end\<close> and the child function \<open>kid\<close>. The tree operations are
  verified over these lemmas alone.
\<close>

subsection \<open>\<open>kid\<close> of each layout\<close>

lemma kid_N4 [simp]: "small_ok 4 n ks cs \<Longrightarrow> kid (N4 p h n ks cs) = skid n ks cs"
  by (rule ext) (auto simp: kid_def node_child_def skid_def small_ok_def split: option.split
      dest: key_pos_SomeD)

lemma kid_N16 [simp]: "small_ok 16 n ks cs \<Longrightarrow> kid (N16 p h n ks cs) = skid n ks cs"
  by (rule ext) (auto simp: kid_def node_child_def skid_def small_ok_def split: option.split
      dest: key_pos_SomeD)

lemma kid_N48 [simp]: "n48_ok n ix cs \<Longrightarrow> kid (N48 p h n ix cs) = k48 ix cs"
  by (rule ext) (auto simp: kid_def node_child_def k48_def n48_okD split: option.split)

lemma kid_N256 [simp]: "n256_ok n cs \<Longrightarrow> kid (N256 p h n cs) = k256 cs"
  by (rule ext) (auto simp: kid_def node_child_def k256_def n256_ok_def split: option.split)

text \<open>Every child in the array is a \<open>kid\<close>, so properties of all children are about \<open>kid\<close>.\<close>

lemma children_kids:
  assumes "shape_ok nd" "is_inner nd"
  shows "insert Empty (set (node_children nd)) = insert Empty (range (kid nd))"
proof (cases nd)
  case (N4 p h n ks cs)
  with assms have ok: "small_ok 4 n ks cs" by simp
  have "x \<in> range (skid n ks cs)" if "x \<in> set cs" "x \<noteq> Empty" for x
  proof -
    from that ok obtain i where "i < n" "cs ! i = x" by (auto simp: in_set_conv_nth small_ok_def)
    then show ?thesis using skid_nth[OF ok, of i] by (metis rangeI)
  qed
  moreover have "skid n ks cs b \<in> insert Empty (set cs)" for b
    using ok by (auto simp: skid_def small_ok_def split: option.split dest: key_pos_SomeD)
  ultimately show ?thesis using N4 ok by auto
next
  case (N16 p h n ks cs)
  with assms have ok: "small_ok 16 n ks cs" by simp
  have "x \<in> range (skid n ks cs)" if "x \<in> set cs" "x \<noteq> Empty" for x
  proof -
    from that ok obtain i where "i < n" "cs ! i = x" by (auto simp: in_set_conv_nth small_ok_def)
    then show ?thesis using skid_nth[OF ok, of i] by (metis rangeI)
  qed
  moreover have "skid n ks cs b \<in> insert Empty (set cs)" for b
    using ok by (auto simp: skid_def small_ok_def split: option.split dest: key_pos_SomeD)
  ultimately show ?thesis using N16 ok by auto
next
  case (N48 p h n ix cs)
  with assms have ok: "n48_ok n ix cs" by simp
  have "x \<in> range (k48 ix cs)" if "x \<in> set cs" "x \<noteq> Empty" for x
  proof -
    from that ok obtain i where i: "i < 48" "cs ! i = x"
      by (auto simp: in_set_conv_nth n48_okD)
    with n48_okD(6)[OF ok i(1)] that obtain b where "b < 256" "ix ! b \<noteq> n48_nil" "unat (ix ! b) = i"
      by auto
    then have "k48 ix cs (of_nat b) = x" using i by (simp add: k48_def)
    then show ?thesis by auto
  qed
  moreover have "k48 ix cs b \<in> insert Empty (set cs)" for b
    using n48_okD[OF ok] by (auto simp: k48_def)
  ultimately show ?thesis using N48 ok by auto
next
  case (N256 p h n cs)
  with assms have ok: "n256_ok n cs" by simp
  have "x \<in> range (k256 cs)" if "x \<in> set cs" for x
  proof -
    from that ok obtain i where "i < 256" "cs ! i = x"
      by (auto simp: in_set_conv_nth n256_ok_def)
    then have "k256 cs (of_nat i) = x" by (simp add: k256_def)
    then show ?thesis by auto
  qed
  moreover have "k256 cs b \<in> set cs" for b
    using ok by (auto simp: k256_def n256_ok_def)
  ultimately show ?thesis using N256 ok by auto
qed (use assms in auto)

fun count_here :: "nat \<Rightarrow> nat \<Rightarrow> node \<Rightarrow> bool" where
  "count_here lo hi (N256 p h n cs) = (lo \<le> n \<and> n \<le> hi)"
| "count_here lo hi _ = True"

lemma wf_inner:
  assumes "is_inner nd"
  shows "wf_node nd \<longleftrightarrow> shape_ok nd \<and> (\<forall>b. wf_node (kid nd b))"
proof -
  have "wf_node nd \<longleftrightarrow> shape_ok nd \<and> (\<forall>c \<in> insert Empty (set (node_children nd)). wf_node c)"
    using assms by (cases nd) auto
  then show ?thesis
  proof (cases "shape_ok nd")
    case True
    have "(\<forall>c \<in> insert Empty (set (node_children nd)). wf_node c) \<longleftrightarrow>
        (\<forall>c \<in> insert Empty (range (kid nd)). wf_node c)"
      using children_kids[OF True assms] by simp
    with \<open>wf_node nd \<longleftrightarrow> _\<close> show ?thesis by simp
  qed simp
qed

lemma tame_inner:
  assumes "is_inner nd" "shape_ok nd"
  shows "tame lo hi nd \<longleftrightarrow> count_here lo hi nd \<and> 0xFF \<notin> set (node_prefix nd) \<and>
    kid nd 0xFF = Empty \<and> (\<forall>b. tame lo hi (kid nd b))"
proof -
  have "tame lo hi nd \<longleftrightarrow>
      count_here lo hi nd \<and> 0xFF \<notin> set (node_prefix nd) \<and> kid nd 0xFF = Empty \<and>
      (\<forall>c \<in> insert Empty (set (node_children nd)). tame lo hi c)"
    using assms by (cases nd) auto
  also have "\<dots> \<longleftrightarrow> count_here lo hi nd \<and> 0xFF \<notin> set (node_prefix nd) \<and>
      kid nd 0xFF = Empty \<and> (\<forall>c \<in> insert Empty (range (kid nd)). tame lo hi c)"
    using children_kids[OF assms(2,1)] by simp
  finally show ?thesis by simp
qed

text \<open>\<open>becomes nd f nd'\<close>: \<open>nd'\<close> is a well-shaped inner node like \<open>nd\<close> with children \<open>f\<close>.\<close>

definition becomes :: "node \<Rightarrow> (byte \<Rightarrow> node) \<Rightarrow> node \<Rightarrow> bool" where
  "becomes nd f nd' \<longleftrightarrow> is_inner nd' \<and> shape_ok nd' \<and> node_prefix nd' = node_prefix nd \<and>
     node_has_end nd' = node_has_end nd \<and> kid nd' = f"

subsection \<open>Children\<close>

lemma has_child_kid:
  assumes "shape_ok nd" "is_inner nd"
  shows "node_has_child nd b \<longleftrightarrow> kid nd b \<noteq> Empty"
    "node_has_child nd b \<Longrightarrow> node_child nd b = Some (kid nd b)"
proof -
  show 1: "node_has_child nd b \<longleftrightarrow> kid nd b \<noteq> Empty"
  proof (cases nd)
    case (N4 p h n ks cs)
    with assms show ?thesis
      by (auto simp: node_has_child_def skid_Empty_iff key_pos_None[symmetric])
  next
    case (N16 p h n ks cs)
    with assms show ?thesis
      by (auto simp: node_has_child_def skid_Empty_iff key_pos_None[symmetric])
  next
    case (N48 p h n ix cs)
    with assms show ?thesis by (auto simp: node_has_child_def k48_Empty_iff)
  next
    case (N256 p h n cs)
    with assms show ?thesis by (auto simp: node_has_child_def k256_def)
  qed (use assms in auto)
  show "node_has_child nd b \<Longrightarrow> node_child nd b = Some (kid nd b)"
    using 1 by (auto simp: kid_def split: option.splits)
qed

lemma put_child_ok:
  assumes ok: "shape_ok nd" "is_inner nd" and b: "node_has_child nd b" and c: "c \<noteq> Empty"
  shows "becomes nd ((kid nd)(b := c)) (node_put_child nd b c)"
    "count_here lo hi (node_put_child nd b c) = count_here lo hi nd"
proof -
  obtain i where i: "node_child_pos nd b = Some i" using b by (auto simp: node_has_child_def)
  show "becomes nd ((kid nd)(b := c)) (node_put_child nd b c)"
  proof (cases nd)
    case (N4 p h n ks cs)
    with i have "i < n" "ks ! i = b" by (auto dest: key_pos_SomeD)
    with small_put_ok[of 4 n ks cs i c] N4 ok c i show ?thesis
      by (simp add: node_put_child_def becomes_def)
  next
    case (N16 p h n ks cs)
    with i have "i < n" "ks ! i = b" by (auto dest: key_pos_SomeD)
    with small_put_ok[of 16 n ks cs i c] N16 ok c i show ?thesis
      by (simp add: node_put_child_def becomes_def)
  next
    case (N48 p h n ix cs)
    with i have "ix ! unat b \<noteq> n48_nil" "unat (ix ! unat b) = i" by (auto split: if_splits)
    with n48_put_ok[of n ix cs b c] N48 ok c i show ?thesis
      by (simp add: node_put_child_def becomes_def)
  next
    case (N256 p h n cs)
    with i have "k256 cs b \<noteq> Empty" "i = unat b" by (auto simp: k256_def split: if_splits)
    with n256_put_ok[of n cs b c] N256 ok i show ?thesis
      by (simp add: node_put_child_def becomes_def)
  qed (use ok in auto)
  show "count_here lo hi (node_put_child nd b c) = count_here lo hi nd"
    using i by (cases nd) (auto simp: node_put_child_def)
qed

lemma del_child_ok:
  assumes ok: "shape_ok nd" "is_inner nd" and b: "node_has_child nd b"
  shows "becomes nd ((kid nd)(b := Empty)) (node_del_child (node_put_child nd b Empty) b)"
    "count_here lo hi nd \<Longrightarrow> count_here lo hi (node_del_child (node_put_child nd b Empty) b)"
proof -
  obtain i where i: "node_child_pos nd b = Some i" using b by (auto simp: node_has_child_def)
  have "becomes nd ((kid nd)(b := Empty)) (node_del_child (node_put_child nd b Empty) b) \<and>
    (count_here lo hi nd \<longrightarrow> count_here lo hi (node_del_child (node_put_child nd b Empty) b))" for lo hi
  proof (cases nd)
    case (N4 p h n ks cs)
    with i have "i < n" "ks ! i = b" by (auto dest: key_pos_SomeD)
    moreover have "small_ok 4 n ks cs" using N4 ok by simp
    ultimately obtain ks' cs' where
      "small_del n ks (cs[i := Empty]) b = (n - 1, ks', cs')" "small_ok 4 (n - 1) ks' cs'"
      "skid (n - 1) ks' cs' = (skid n ks cs)(b := Empty)" by (metis small_del_ok)
    with N4 ok i show ?thesis by (simp add: node_put_child_def becomes_def)
  next
    case (N16 p h n ks cs)
    with i have "i < n" "ks ! i = b" by (auto dest: key_pos_SomeD)
    moreover have "small_ok 16 n ks cs" using N16 ok by simp
    ultimately obtain ks' cs' where
      "small_del n ks (cs[i := Empty]) b = (n - 1, ks', cs')" "small_ok 16 (n - 1) ks' cs'"
      "skid (n - 1) ks' cs' = (skid n ks cs)(b := Empty)" by (metis small_del_ok)
    with N16 ok i show ?thesis by (simp add: node_put_child_def becomes_def)
  next
    case (N48 p h n ix cs)
    with i have x: "ix ! unat b \<noteq> n48_nil" "unat (ix ! unat b) = i" by (auto split: if_splits)
    have "n48_ok n ix cs" using N48 ok by simp
    with x obtain ix' cs' where d:
      "n48_del n ix (cs[i := Empty]) b = (n - 1, ix', cs')" "n48_ok (n - 1) ix' cs'"
      "k48 ix' cs' = (k48 ix cs)(b := Empty)" by (metis n48_del_ok)
    with N48 ok i d show ?thesis by (simp add: node_put_child_def becomes_def)
  next
    case (N256 p h n cs)
    with i have "k256 cs b \<noteq> Empty" "i = unat b" by (auto simp: k256_def split: if_splits)
    with n256_put_ok[of n cs b Empty] N256 ok i show ?thesis
      by (simp add: node_put_child_def becomes_def n256_del_def n256_ok_def)
  qed (use ok in auto)
  then show "becomes nd ((kid nd)(b := Empty)) (node_del_child (node_put_child nd b Empty) b)"
    "count_here lo hi nd \<Longrightarrow> count_here lo hi (node_del_child (node_put_child nd b Empty) b)"
    by blast+
qed

lemma child_is_empty_put:
  assumes ok: "shape_ok nd" "is_inner nd" and b: "node_has_child nd b"
  shows "node_child_is_empty (node_put_child nd b c) b \<longleftrightarrow> c = Empty"
proof -
  obtain i where i: "node_child_pos nd b = Some i" using b by (auto simp: node_has_child_def)
  have "i < length (node_children nd)"
    using i has_child_kid(2)[OF ok b] by (simp add: node_child_def split: if_splits)
  with i ok show ?thesis
    by (cases nd) (auto simp: node_put_child_def node_child_is_empty_def n256_ok_def
        split: option.splits if_splits)
qed

end
