(* ===== verification/ArtConv.thy ===== *)
theory ArtConv
  imports ArtView
begin

text \<open>
  The layout conversions keep the children, and with them growing, adding and shrinking act on
  the abstract view as expected. Growing an \<open>N48\<close> keeps every child but the one at byte \<open>0xFF\<close>;
  shrinking an \<open>N256\<close> is only covered where its count is above 48, which excludes the shrink.
\<close>

subsection \<open>Conversions of sorted arrays\<close>

lemma n4_to_n16_ok:
  assumes ok: "small_ok 4 n ks cs"
  shows "becomes (N4 p h n ks cs) (kid (N4 p h n ks cs)) (n4_to_n16 p h n ks cs)"
proof -
  have len: "length ks = 4" "length cs = 4" "n \<le> 4" and ce: "\<And>i. i < 4 \<Longrightarrow> cs ! i \<noteq> Empty \<longleftrightarrow> i < n"
    using ok by (auto simp: small_ok_def)
  let ?ks = "take n ks @ replicate (16 - n) 0" and ?cs = "cs @ replicate (16 - length cs) Empty"
  have ok': "small_ok 16 n ?ks ?cs"
    using ok len by (auto simp: small_ok_def nth_append)
  have "skid n ?ks ?cs = skid n ks cs"
    by (rule skid_eqI[OF ok']) (use len skid_nth[OF ok] in \<open>auto simp: nth_append intro: skid_none\<close>)
  with ok ok' show ?thesis by (simp add: becomes_def n4_to_n16_def)
qed

lemma n16_to_n4_ok:
  assumes ok: "small_ok 16 n ks cs" and n: "n \<le> 4"
  shows "becomes (N16 p h n ks cs) (kid (N16 p h n ks cs)) (n16_to_n4 p h n ks cs)"
proof -
  have len: "length ks = 16" "length cs = 16"
    using ok by (auto simp: small_ok_def)
  let ?ks = "take n ks @ replicate (4 - n) 0" and ?cs = "take n cs @ replicate (4 - n) Empty"
  have ok': "small_ok 4 n ?ks ?cs"
    using ok len n by (auto simp: small_ok_def nth_append)
  have "skid n ?ks ?cs = skid n ks cs"
    by (rule skid_eqI[OF ok'])
      (use len n skid_nth[OF ok] in \<open>auto simp: nth_append intro: skid_none\<close>)
  with ok ok' show ?thesis by (simp add: becomes_def n16_to_n4_def)
qed

subsection \<open>From \<open>N16\<close> to \<open>N48\<close>\<close>

lemma n16_to_n48_arrays:
  assumes ok: "small_ok 16 n ks cs"
    and r: "n16_to_n48 p h n ks cs = N48 p h n idx C"
  shows "length idx = 256" "length C = 48"
    "\<And>i. i < n \<Longrightarrow> idx ! unat (ks ! i) = of_nat i"
    "\<And>x. x < 256 \<Longrightarrow> (\<forall>i<n. unat (ks ! i) \<noteq> x) \<Longrightarrow> idx ! x = n48_nil"
    "\<And>i. i < 48 \<Longrightarrow> C ! i = (if i < n then cs ! i else Empty)"
proof -
  have len: "length ks = 16" "length cs = 16" "n \<le> 16"
    using ok by (auto simp: small_ok_def)
  define zs where "zs = enumerate 0 (zip (take n ks) cs)"
  have lz: "length zs = n" using len by (simp add: zs_def)
  have zn: "zs ! i = (i, ks ! i, cs ! i)" if "i < n" for i
    using that len by (simp add: zs_def nth_enumerate_eq)
  have zset: "set zs = (\<lambda>i. (i, ks ! i, cs ! i)) ` {..<n}"
    using lz zn by (force simp: set_conv_nth)
  let ?T = "\<lambda>_::nat \<times> byte \<times> node. True"
  define I where "I = scatter ?T (\<lambda>(s, k, c). unat k) (\<lambda>(s, k, c). of_nat s) zs (replicate 256 n48_nil)"
  define D where "D = scatter ?T (\<lambda>(s, k, c). s) (\<lambda>(s, k, c). c) zs (replicate 48 Empty)"
  have "fold (\<lambda>(slot, key, c) (idx, cs). (idx[unat key := of_nat slot], cs[slot := c])) zs
      (replicate 256 n48_nil, replicate 48 Empty) = (I, D)"
    unfolding I_def D_def scatter_def fold_pair[symmetric]
    by (rule arg_cong[where f = "\<lambda>f. fold f _ _"]) (auto simp: fun_eq_iff)
  then have id: "idx = I" "C = D"
    using r by (simp_all add: n16_to_n48_def zs_def)
  have dk: "distinct (map (\<lambda>(s, k, c). unat k) (filter ?T zs))"
    using small_distinct[OF ok] by (simp add: distinct_conv_nth lz zn byte_eq_unat[symmetric])
  have ds: "distinct (map (\<lambda>(s, k, c). s) (filter ?T zs))"
    by (simp add: distinct_conv_nth lz zn)
  show "length idx = 256" "length C = 48" by (simp_all add: id I_def D_def)
  show "idx ! unat (ks ! i) = of_nat i" if "i < n" for i
    using scatter_at[OF dk, of "(i, ks ! i, cs ! i)" "replicate 256 n48_nil"
        "\<lambda>(s, k, c). of_nat s"] that
    by (simp add: id I_def zset)
  show "idx ! x = n48_nil" if "x < 256" "\<forall>i<n. unat (ks ! i) \<noteq> x" for x
    unfolding id I_def by (subst scatter_other) (use that in \<open>auto simp: zset\<close>)
  show "C ! i = (if i < n then cs ! i else Empty)" if "i < 48" for i
  proof (cases "i < n")
    case True
    then show ?thesis
      using scatter_at[OF ds, of "(i, ks ! i, cs ! i)" "replicate 48 Empty" "\<lambda>(s, k, c). c"] that
      by (simp add: id D_def zset)
  next
    case False
    have "D ! i = replicate 48 Empty ! i"
      unfolding D_def by (rule scatter_other) (use False in \<open>auto simp: zset\<close>)
    with False that show ?thesis by (simp add: id)
  qed
qed

lemma n16_to_n48_ok:
  assumes ok: "small_ok 16 n ks cs"
  shows "becomes (N16 p h n ks cs) (kid (N16 p h n ks cs)) (n16_to_n48 p h n ks cs)"
    "count_here lo hi (n16_to_n48 p h n ks cs)"
proof -
  obtain idx C where r: "n16_to_n48 p h n ks cs = N48 p h n idx C"
    by (cases "n16_to_n48 p h n ks cs") (auto simp: n16_to_n48_def split: prod.splits)
  note A = n16_to_n48_arrays[OF ok r]
  have n16: "n \<le> 16" and ce: "\<And>i. i < 16 \<Longrightarrow> cs ! i \<noteq> Empty \<longleftrightarrow> i < n"
    using ok by (auto simp: small_ok_def)
  have un: "unat (of_nat i :: byte) = i" "(of_nat i :: byte) \<noteq> n48_nil" if "i < n" for i
    using that n16 slot_byte_neq_nil[of i] by simp_all
  have used: "b < 256 \<and> idx ! b \<noteq> n48_nil \<longleftrightarrow> (\<exists>i<n. unat (ks ! i) = b)" for b
  proof
    assume "b < 256 \<and> idx ! b \<noteq> n48_nil"
    then show "\<exists>i<n. unat (ks ! i) = b" using A(4)[of b] by blast
  next
    assume "\<exists>i<n. unat (ks ! i) = b"
    then show "b < 256 \<and> idx ! b \<noteq> n48_nil" using A(3) un(2) by (metis unat_byte_lt)
  qed
  have at: "\<exists>i<n. unat (ks ! i) = b \<and> idx ! b = of_nat i" if "b < 256" "idx ! b \<noteq> n48_nil" for b
    using used[of b] that A(3) by blast
  have ok': "n48_ok n idx C"
  proof (rule n48_okI[OF A(1,2)])
    show "idx_in_range idx"
      unfolding idx_in_range_def
    proof
      fix s assume "s \<in> set idx"
      then obtain b where b: "b < 256" "s = idx ! b" using A(1) by (auto simp: in_set_conv_nth)
      show "s = n48_nil \<or> unat s < 48"
      proof (cases "s = n48_nil")
        case False
        then obtain i where "i < n" "s = of_nat i" using at[of b] b by auto
        then show ?thesis using un n16 by simp
      qed simp
    qed
    have "used48 idx = (\<lambda>i. unat (ks ! i)) ` {..<n}"
      using used by (auto simp: used48_def)
    moreover have "inj_on (\<lambda>i. unat (ks ! i)) {..<n}"
      using small_distinct[OF ok] by (simp add: inj_on_def byte_eq_unat[symmetric])
    ultimately show "n = card (used48 idx)" by (simp add: card_image)
    show "b = c" if "b < 256" "c < 256" "idx ! b = idx ! c" "idx ! b \<noteq> n48_nil" for b c
    proof -
      note h = that
      have "idx ! c \<noteq> n48_nil" using h by simp
      then obtain i j where "i < n" "unat (ks ! i) = b" "idx ! b = of_nat i"
          "j < n" "unat (ks ! j) = c" "idx ! c = of_nat j"
        using at[of b] at[of c] h by blast
      with h(3) show ?thesis using un(1) by metis
    qed
    show "C ! i \<noteq> Empty \<longleftrightarrow> (\<exists>b<256. idx ! b \<noteq> n48_nil \<and> unat (idx ! b) = i)" if "i < 48" for i
    proof
      assume "C ! i \<noteq> Empty"
      then have "i < n" using A(5)[OF that] by (auto split: if_splits)
      then show "\<exists>b<256. idx ! b \<noteq> n48_nil \<and> unat (idx ! b) = i"
        using A(3) un by (intro exI[of _ "unat (ks ! i)"]) simp
    next
      assume "\<exists>b<256. idx ! b \<noteq> n48_nil \<and> unat (idx ! b) = i"
      then obtain b where b: "b < 256" "idx ! b \<noteq> n48_nil" "unat (idx ! b) = i" by blast
      with at[of b] obtain j where "j < n" "idx ! b = of_nat j" by blast
      with b(3) un have "i < n" by simp
      then show "C ! i \<noteq> Empty" using A(5)[OF that] ce[of i] n16 by simp
    qed
  qed
  have "skid n ks cs b = k48 idx C b" for b
  proof (cases "\<exists>i<n. ks ! i = b")
    case True
    then obtain i where i: "i < n" "ks ! i = b" by blast
    then show ?thesis using A(3)[of i] A(5)[of i] un[of i] skid_nth[OF ok i(1)] n16
      by (auto simp: k48_def)
  next
    case False
    then have "idx ! unat b = n48_nil" using A(4)[of "unat b"] by (auto simp: byte_eq_unat[symmetric])
    with False show ?thesis by (simp add: k48_def skid_none)
  qed
  then have k: "k48 idx C = skid n ks cs" by auto
  with ok ok' r show "becomes (N16 p h n ks cs) (kid (N16 p h n ks cs)) (n16_to_n48 p h n ks cs)"
    by (simp add: becomes_def)
  show "count_here lo hi (n16_to_n48 p h n ks cs)"
    by (simp add: r)
qed

subsection \<open>From \<open>N48\<close> to \<open>N256\<close>\<close>

text \<open>
  The inverted index: the slot of an occupied byte holds that byte, every other slot the marker.
\<close>

lemma slot_bytes_at:
  assumes ok: "n48_ok n ix cs"
  shows "length (slot_bytes ix) = 48"
    "\<And>b. b < 256 \<Longrightarrow> ix ! b \<noteq> n48_nil \<Longrightarrow> slot_bytes ix ! unat (ix ! b) = of_nat b"
    "\<And>s. s < 48 \<Longrightarrow> cs ! s = Empty \<Longrightarrow> slot_bytes ix ! s = n48_nil"
proof -
  note D = n48_okD[OF ok]
  let ?P = "\<lambda>(b::nat, s). s \<noteq> n48_nil" and ?p = "\<lambda>(b::nat, s::byte). unat s"
    and ?v = "\<lambda>(b::nat, s::byte). of_nat b :: byte"
  have sb: "slot_bytes ix = scatter ?P ?p ?v (enumerate 0 ix) (replicate 48 n48_nil)"
    unfolding slot_bytes_def scatter_def
    by (rule arg_cong[where f = "\<lambda>f. fold f _ _"]) (auto simp: fun_eq_iff)
  have mem: "(b, s) \<in> set (enumerate 0 ix) \<longleftrightarrow> b < 256 \<and> s = ix ! b" for b s
    using D(1) by (auto simp: in_set_enumerate_eq)
  have "distinct (map ?p (filter ?P (enumerate 0 ix)))"
  proof (subst distinct_map, intro conjI)
    show "distinct (filter ?P (enumerate 0 ix))" by simp
    show "inj_on ?p (set (filter ?P (enumerate 0 ix)))"
      using D(5) by (auto simp: inj_on_def mem byte_eq_unat[symmetric])
  qed
  note at = scatter_at[OF this]
  show "length (slot_bytes ix) = 48" by (simp add: sb)
  show "slot_bytes ix ! unat (ix ! b) = of_nat b" if "b < 256" "ix ! b \<noteq> n48_nil" for b
    using at[of "(b, ix ! b)" "replicate 48 n48_nil" ?v] that D(7)[OF that] by (simp add: sb mem)
  show "slot_bytes ix ! s = n48_nil" if s: "s < 48" "cs ! s = Empty" for s
  proof -
    have "?p x \<noteq> s" if x: "x \<in> set (enumerate 0 ix)" "?P x" for x
    proof -
      obtain b t where "x = (b, t)" "b < 256" "t = ix ! b" using x mem by (cases x) auto
      with x D(6)[OF s(1)] s(2) show ?thesis by auto
    qed
    then have "slot_bytes ix ! s = replicate 48 n48_nil ! s"
      unfolding sb by (rule scatter_other)
    then show ?thesis using s by simp
  qed
qed

text \<open>
  Growing keeps every child below byte \<open>0xFF\<close> and drops the one at \<open>0xFF\<close>, whose byte is taken
  for the marker of an unused slot.
\<close>

lemma n48_to_n256_kids:
  assumes ok: "n48_ok n ix cs"
  obtains ds where "n48_to_n256 p h n ix cs = Some (N256 p h n ds)" "n256_ok n ds"
    "k256 ds = (k48 ix cs)(0xFF := Empty)"
proof -
  note D = n48_okD[OF ok] and S = slot_bytes_at[OF ok]
  let ?P = "\<lambda>(b, c). b \<noteq> n48_nil" and ?p = "\<lambda>(b::byte, c::node). unat b"
    and ?v = "\<lambda>(b::byte, c::node). c"
  define ds where "ds = scatter ?P ?p ?v (zip (slot_bytes ix) cs) (replicate 256 Empty)"
  have f: "fold (\<lambda>(byte, c) cs. if byte \<noteq> n48_nil then cs[unat byte := c] else cs)
      (zip (slot_bytes ix) cs) (replicate 256 Empty) = ds"
    unfolding ds_def scatter_def
    by (rule arg_cong[where f = "\<lambda>f. fold f _ _"]) (auto simp: fun_eq_iff)
  have zn: "zip (slot_bytes ix) cs ! s = (slot_bytes ix ! s, cs ! s)" if "s < 48" for s
    using that S(1) D(2) by simp
  have lz: "length (zip (slot_bytes ix) cs) = 48" using S(1) D(2) by simp
  have occ: "\<exists>b<256. ix ! b \<noteq> n48_nil \<and> unat (ix ! b) = s \<and> slot_bytes ix ! s = of_nat b"
    if "s < 48" "slot_bytes ix ! s \<noteq> n48_nil" for s
  proof -
    have "cs ! s \<noteq> Empty" using S(3)[of s] that by auto
    with D(6)[OF that(1)] S(2) show ?thesis by metis
  qed
  have inj: "s = t" if "s < 48" "t < 48" "slot_bytes ix ! s = slot_bytes ix ! t"
      "slot_bytes ix ! s \<noteq> n48_nil" for s t
  proof -
    note h = that
    obtain b where b: "b < 256" "unat (ix ! b) = s" "slot_bytes ix ! s = of_nat b"
      using occ[of s] h by blast
    have "slot_bytes ix ! t \<noteq> n48_nil" using h by simp
    then obtain c where c: "c < 256" "unat (ix ! c) = t" "slot_bytes ix ! t = of_nat c"
      using occ[of t] h by blast
    have "(of_nat b :: byte) = of_nat c" using b c h(3) by simp
    then have "b = c" using b(1) c(1) by (metis unat_of_nat_byte_small)
    with b c show ?thesis by simp
  qed
  have dist: "distinct (map ?p (filter ?P (zip (slot_bytes ix) cs)))"
  proof -
    have "distinct (map ?p (filter ?P (map ((!) (zip (slot_bytes ix) cs)) [0..<48])))"
      unfolding filter_map map_map
    proof (subst distinct_map, intro conjI)
      show "distinct (filter (?P \<circ> (!) (zip (slot_bytes ix) cs)) [0..<48])" by simp
      show "inj_on (?p \<circ> (!) (zip (slot_bytes ix) cs))
          (set (filter (?P \<circ> (!) (zip (slot_bytes ix) cs)) [0..<48]))"
        using inj by (auto simp: inj_on_def zn byte_eq_unat[symmetric])
    qed
    then show ?thesis using lz map_nth[of "zip (slot_bytes ix) cs"] by simp
  qed
  have k: "k256 ds = (k48 ix cs)(0xFF := Empty)"
  proof
    fix b :: byte
    show "k256 ds b = ((k48 ix cs)(0xFF := Empty)) b"
    proof (cases "b \<noteq> 0xFF \<and> ix ! unat b \<noteq> n48_nil")
      case True
      let ?s = "unat (ix ! unat b)"
      have s: "?s < 48" "slot_bytes ix ! ?s = b" using D(7)[of "unat b"] S(2)[of "unat b"] True by auto
      have "(b, cs ! ?s) \<in> set (zip (slot_bytes ix) cs)"
        using s lz zn[of ?s] by (metis nth_mem)
      from scatter_at[OF dist this, of "replicate 256 Empty" ?v] show ?thesis
        using True by (simp add: ds_def k256_def k48_def n48_nil_def)
    next
      case False
      have "?p x \<noteq> unat b" if x: "x \<in> set (zip (slot_bytes ix) cs)" "?P x" for x
      proof -
        obtain s where s: "s < 48" "x = (slot_bytes ix ! s, cs ! s)"
          using x(1) lz zn unfolding in_set_conv_nth by metis
        with x have nn: "slot_bytes ix ! s \<noteq> n48_nil" by auto
        from occ[OF s(1) this] obtain c where "c < 256" "ix ! c \<noteq> n48_nil"
          "slot_bytes ix ! s = of_nat c" by blast
        with False nn s show ?thesis by (auto simp: n48_nil_def byte_eq_unat[symmetric])
      qed
      then have "ds ! unat b = replicate 256 Empty ! unat b"
        unfolding ds_def by (rule scatter_other)
      with False show ?thesis by (auto simp: k256_def k48_def)
    qed
  qed
  have "card {b. b < 256 \<and> ds ! b \<noteq> Empty} \<le> card (used48 ix)"
  proof (rule card_mono[OF finite_used48], rule subsetI)
    fix b assume "b \<in> {b. b < 256 \<and> ds ! b \<noteq> Empty}"
    then have b: "b < 256" "k256 ds (of_nat b) \<noteq> Empty" by (auto simp: k256_def)
    then show "b \<in> used48 ix" unfolding k by (auto simp: used48_def k48_def split: if_splits)
  qed
  then have "n256_ok n ds" using D(4) by (simp add: n256_ok_def ds_def)
  then show thesis using that[of ds] f k D(3) by (simp add: n48_to_n256_def)
qed

subsection \<open>From \<open>N48\<close> to \<open>N16\<close>\<close>

lemma take_slots_distinct:
  "distinct ss \<Longrightarrow> take_slots ss cs = map (\<lambda>s. cs ! s) ss"
proof (induction ss arbitrary: cs)
  case (Cons s ss)
  then have "map (\<lambda>t. cs[s := Empty] ! t) ss = map (\<lambda>t. cs ! t) ss"
    by (intro map_cong[OF refl]) (metis distinct.simps(2) nth_list_update_neq)
  with Cons show ?case by simp
qed simp

lemma n48_to_n16_ok:
  assumes ok: "n48_ok n ix cs" and n: "n \<le> 16"
  obtains nd where "n48_to_n16 p h n ix cs = Some nd"
    "becomes (N48 p h n ix cs) (kid (N48 p h n ix cs)) nd" "count_here lo hi nd"
proof -
  note D = n48_okD[OF ok]
  define bs where "bs = filter (\<lambda>b. ix ! b \<noteq> n48_nil) [0..<256]"
  have sb: "set bs = used48 ix" "distinct bs" "sorted_wrt (<) bs"
    by (auto simp: bs_def used48_def sorted_wrt_filter)
  have lb: "length bs = n" using D(4) sb distinct_card[of bs] by simp
  have bi: "bs ! i < 256 \<and> ix ! (bs ! i) \<noteq> n48_nil" if "i < n" for i
    using that lb sb(1) nth_mem[of i bs] by (simp add: used48_def)
  define ks where "ks = map of_nat bs @ replicate (16 - n) (0 :: byte)"
  define ds where "ds = map (\<lambda>b. cs ! unat (ix ! b)) bs @ replicate (16 - n) Empty"
  have "distinct (map (\<lambda>b. unat (ix ! b)) bs)"
    using sb D(5) by (auto simp: distinct_map inj_on_def used48_def byte_eq_unat[symmetric])
  then have conv: "n48_to_n16 p h n ix cs = Some (N16 p h n ks ds)"
    using lb n D(3) by (simp add: n48_to_n16_def n48_pairs_def bs_def[symmetric] ks_def ds_def
        take_slots_distinct comp_def)
  have kn: "ks ! i = of_nat (bs ! i)" "ds ! i = cs ! unat (ix ! (bs ! i))" if "i < n" for i
    using that lb by (simp_all add: ks_def ds_def nth_append)
  have "sorted_wrt (<) (take n ks)"
  proof -
    have "take n ks ! i < take n ks ! j" if "i < j" "j < n" for i j
      using that kn[of i] kn[of j] bi[of i] bi[of j] sb(3) lb
      by (simp add: sorted_wrt_iff_nth_less word_less_nat_alt)
    then show ?thesis using lb by (simp add: sorted_wrt_iff_nth_less ks_def)
  qed
  moreover have "ds ! i \<noteq> Empty \<longleftrightarrow> i < n" if "i < 16" for i
    using that D(8)[of "bs ! i"] bi[of i] kn(2)[of i] lb by (cases "i < n") (auto simp: ds_def nth_append)
  ultimately have ok': "small_ok 16 n ks ds"
    using lb n by (simp add: small_ok_def) (simp add: ks_def ds_def)
  have "skid n ks ds = k48 ix cs"
  proof (rule skid_eqI[OF ok'])
    show "k48 ix cs (ks ! i) = ds ! i" if "i < n" for i
      using that bi[of i] by (simp add: kn k48_def)
    show "k48 ix cs b = Empty" if b: "\<forall>i<n. ks ! i \<noteq> b" for b
    proof (rule ccontr)
      assume "k48 ix cs b \<noteq> Empty"
      then have "unat b \<in> set bs" unfolding sb(1) by (auto simp: k48_def used48_def split: if_splits)
      then obtain i where "i < n" "bs ! i = unat b" using lb by (auto simp: in_set_conv_nth)
      with b kn(1)[of i] show False by auto
    qed
  qed
  with ok ok' that[OF conv] show thesis by (simp add: becomes_def)
qed

subsection \<open>Growing, adding and shrinking\<close>

fun room :: "node \<Rightarrow> bool" where
  "room (N4 p h n ks cs) = (n < 4)"
| "room (N16 p h n ks cs) = (n < 16)"
| "room (N48 p h n ix cs) = (n < 48)"
| "room (N256 p h n cs) = (n < 65535)"
| "room _ = False"

lemma add_child_ok:
  assumes ok: "shape_ok g" "is_inner g" "room g" and b: "kid g b = Empty" and c: "c \<noteq> Empty"
  obtains nd' where "node_add_child g b c = Some nd'" "becomes g ((kid g)(b := c)) nd'"
    "\<And>lo hi. count_here lo hi g \<Longrightarrow> count_here (Suc lo) (Suc hi) nd'"
proof (cases g)
  case (N4 p h n ks cs)
  with ok b have h: "small_ok 4 n ks cs" "n < 4" "skid n ks cs b = Empty" by auto
  obtain ks' cs' where "small_add 4 n ks cs b c = Some (Suc n, ks', cs')" "small_ok 4 (Suc n) ks' cs'"
    "skid (Suc n) ks' cs' = (skid n ks cs)(b := c)" using small_add_ok[OF h c] by blast
  with h N4 show thesis by (intro that[of "N4 p h (Suc n) ks' cs'"]) (simp_all add: becomes_def)
next
  case (N16 p h n ks cs)
  with ok b have h: "small_ok 16 n ks cs" "n < 16" "skid n ks cs b = Empty" by auto
  obtain ks' cs' where "small_add 16 n ks cs b c = Some (Suc n, ks', cs')" "small_ok 16 (Suc n) ks' cs'"
    "skid (Suc n) ks' cs' = (skid n ks cs)(b := c)" using small_add_ok[OF h c] by blast
  with h N16 show thesis by (intro that[of "N16 p h (Suc n) ks' cs'"]) (simp_all add: becomes_def)
next
  case (N48 p h n ix cs)
  with ok b have h: "n48_ok n ix cs" "n < 48" "k48 ix cs b = Empty" by auto
  obtain ix' cs' where r: "n48_add n ix cs b c = Some (Suc n, ix', cs')" "n48_ok (Suc n) ix' cs'"
    "k48 ix' cs' = (k48 ix cs)(b := c)" using n48_add_ok[OF h c] by blast
  with h r N48 show thesis by (intro that[of "N48 p h (Suc n) ix' cs'"]) (simp_all add: becomes_def)
next
  case (N256 p h n cs)
  with ok b have h: "n256_ok n cs" "n < 65535" "k256 cs b = Empty" by auto
  with n256_add_ok[OF h(1,3) c] N256 show thesis
    by (intro that[of "N256 p h (Suc n) (cs[unat b := c])"]) (auto simp: becomes_def n256_add_def)
qed (use ok in auto)

lemma grow_ok:
  assumes ok: "shape_ok nd" "is_inner nd" and t: "count_here lo hi nd" "lo \<le> 49" "48 \<le> hi" "hi < 65535"
    and no: "kid nd 0xFF = Empty"
  obtains g where "node_maybe_grow nd = Some g" "becomes nd (kid nd) g" "room g"
    "count_here (lo - 1) hi g"
proof (cases nd)
  case (N4 p h n ks cs)
  with ok have h: "small_ok 4 n ks cs" by simp
  then have "n \<le> 4" by (simp add: small_ok_def)
  with N4 h n4_to_n16_ok[OF h] show thesis
    by (cases "n = 4")
      (intro that[of "n4_to_n16 p h n ks cs"] that[of nd]; simp add: becomes_def n4_to_n16_def)+
next
  case (N16 p e n ks cs)
  with ok have h: "small_ok 16 n ks cs" by simp
  then have "n \<le> 16" by (simp add: small_ok_def)
  moreover obtain idx C where "n16_to_n48 p e n ks cs = N48 p e n idx C"
    by (cases "n16_to_n48 p e n ks cs") (auto simp: n16_to_n48_def split: prod.splits)
  ultimately show thesis
    using N16 h n16_to_n48_ok(1)[OF h, where p = p and h = e] no
    by (cases "n = 16")
      (intro that[of "n16_to_n48 p e n ks cs"] that[of nd]; simp add: becomes_def)+
next
  case (N48 p h n ix cs)
  with ok have h: "n48_ok n ix cs" by simp
  have "card {i. i < 48 \<and> cs ! i \<noteq> Empty} \<le> card {..<48::nat}" by (rule card_mono) auto
  then have n: "n \<le> 48" using n48_slots_card[OF h] by simp
  show thesis
  proof (cases "n = 48")
    case True
    obtain ds where "n48_to_n256 p h n ix cs = Some (N256 p h n ds)" "n256_ok n ds"
      "k256 ds = (k48 ix cs)(0xFF := Empty)" by (rule n48_to_n256_kids[OF h])
    moreover have "(k48 ix cs)(0xFF := Empty) = k48 ix cs" using no N48 h by (simp add: fun_upd_idem)
    ultimately show thesis
      using N48 h t True by (intro that[of "N256 p h n ds"]) (simp_all add: becomes_def)
  next
    case False
    with N48 h t n ok show thesis by (intro that[of nd]) (simp_all add: becomes_def)
  qed
next
  case (N256 p h n cs)
  with ok t show thesis by (intro that[of nd]) (auto simp: becomes_def)
qed (use ok in auto)

text \<open>The three outcomes of shrinking a node whose \<open>N256\<close> count is above 48.\<close>

lemma shrink_ok:
  assumes ok: "shape_ok nd" "is_inner nd" and t: "count_here 49 hi nd"
  obtains (gone) "node_maybe_shrink nd = Some Empty" "kid nd = (\<lambda>_. Empty)" "\<not> node_has_end nd"
    | (merged) b c where "node_maybe_shrink nd = Some (prepend_into (node_prefix nd) b c)"
        "c \<noteq> Empty" "kid nd = (\<lambda>_. Empty)(b := c)" "\<not> node_has_end nd"
    | (kept) nd' where "node_maybe_shrink nd = Some nd'" "becomes nd (kid nd) nd'"
        "count_here 49 hi nd'"
proof (cases nd)
  case (N4 p h n ks cs)
  with ok have s: "small_ok 4 n ks cs" by simp
  consider "n = 0" "\<not> h" | "n = 1" "\<not> h" | "h \<or> 1 < n" by linarith
  then show thesis
  proof cases
    case 1
    then show thesis using N4 s
      by (intro gone) (auto simp: node_maybe_shrink.simps fun_eq_iff intro: skid_none)
  next
    case 2
    have "skid n ks cs = (\<lambda>_. Empty)(ks ! 0 := cs ! 0)"
      by (rule skid_eqI[OF s]) (use 2 in auto)
    with 2 N4 s show thesis
      by (intro merged[of "ks ! 0" "cs ! 0"]) (auto simp: node_maybe_shrink.simps small_ok_def)
  next
    case 3
    then show thesis using N4 s
      by (intro kept[of nd]) (auto simp: node_maybe_shrink.simps becomes_def)
  qed
next
  case (N16 p h n ks cs)
  with ok have s: "small_ok 16 n ks cs" by simp
  consider "n = 0" "\<not> h" | "n \<le> 4" "n \<noteq> 0 \<or> h" | "4 < n" by linarith
  then show thesis
  proof cases
    case 1
    then show thesis using N16 s
      by (intro gone) (auto simp: node_maybe_shrink.simps fun_eq_iff intro: skid_none)
  next
    case 2
    then show thesis using N16 s n16_to_n4_ok[OF s 2(1), of p h]
      by (intro kept[of "n16_to_n4 p h n ks cs"]) (auto simp: node_maybe_shrink.simps n16_to_n4_def)
  next
    case 3
    then show thesis using N16 s
      by (intro kept[of nd]) (auto simp: node_maybe_shrink.simps becomes_def)
  qed
next
  case (N48 p h n ix cs)
  with ok have s: "n48_ok n ix cs" by simp
  consider "n = 0" "\<not> h" | "n \<le> 16" "n \<noteq> 0 \<or> h" | "16 < n" by linarith
  then show thesis
  proof cases
    case 1
    then have "used48 ix = {}" using n48_okD(4)[OF s] by simp
    then have "k48 ix cs = (\<lambda>_. Empty)" by (auto simp: used48_def k48_def fun_eq_iff)
    with 1 N48 s show thesis by (intro gone) (auto simp: node_maybe_shrink.simps)
  next
    case 2
    obtain nd' where "n48_to_n16 p h n ix cs = Some nd'"
      "becomes (N48 p h n ix cs) (kid (N48 p h n ix cs)) nd'" "count_here 49 hi nd'"
      by (rule n48_to_n16_ok[OF s 2(1)])
    with 2 N48 show thesis by (intro kept[of nd']) (auto simp: node_maybe_shrink.simps)
  next
    case 3
    then show thesis using N48 s t
      by (intro kept[of nd]) (auto simp: node_maybe_shrink.simps becomes_def)
  qed
next
  case (N256 p h n cs)
  with ok t show thesis
    by (intro kept[of nd]) (auto simp: node_maybe_shrink.simps becomes_def)
qed (use ok in auto)

end
