(* ===== verification/ArtTree.thy ===== *)
theory ArtTree
  imports ArtConv
begin

text \<open>
  The ordered set of byte strings of \<open>index_tree.rs\<close>: \<open>insert_node\<close>, \<open>remove_node\<close> and the
  depth-first collection, and the \<open>IndexTree\<close> that wraps them. The recursive operations take the
  part of the key that is not consumed yet (\<open>key[depth..]\<close> of the source); a \<open>None\<close> is a panic.

  The abstraction of a tree is its key set \<open>isin\<close>. Insertion and removal are correct for tame
  trees: no key contains the byte \<open>0xFF\<close> (which UTF-8 text never does), and for removal no
  \<open>N256\<close> has a count of 48 or less, which holds for a tree built in memory.
\<close>

subsection \<open>Operations\<close>

function insert_node :: "node \<Rightarrow> bytes \<Rightarrow> (node \<times> bool) option" where
  "insert_node nd key =
     (case nd of
        Empty \<Rightarrow> Some (Leaf key, True)
      | Leaf sfx \<Rightarrow>
          if sfx = key then Some (nd, False)
          else
            let common = common_prefix sfx key;
                n4 = n4_empty (take common sfx) False
            in Option.bind
                 (if common < length sfx
                  then node_add_child n4 (sfx ! common) (Leaf (drop (common + 1) sfx))
                  else Some (node_set_has_end n4 True))
                 (\<lambda>n4. if common < length key
                    then map_option (\<lambda>n4. (n4, True))
                      (node_add_child n4 (key ! common) (Leaf (drop (common + 1) key)))
                    else if node_has_end n4 then Some (nd, False)
                    else Some (node_set_has_end n4 True, True))
      | _ \<Rightarrow>
          let pfx = node_prefix nd; matched = common_prefix pfx key
          in if matched < length pfx then
               let existing = node_set_prefix nd (drop (matched + 1) pfx)
               in Option.bind (node_add_child (n4_empty (take matched pfx) False) (pfx ! matched) existing)
                    (\<lambda>n4. if matched < length key
                       then map_option (\<lambda>n4. (n4, True))
                         (node_add_child n4 (key ! matched) (Leaf (drop (matched + 1) key)))
                       else Some (node_set_has_end n4 True, True))
             else
               (case drop (length pfx) key of
                  [] \<Rightarrow> if node_has_end nd then Some (nd, False)
                        else Some (node_set_has_end nd True, True)
                | b # rest \<Rightarrow>
                    if node_has_child nd b then
                      (case node_child nd b of
                         None \<Rightarrow> None
                       | Some c \<Rightarrow> map_option (\<lambda>(c', r). (node_put_child nd b c', r)) (insert_node c rest))
                    else
                      Option.bind (node_maybe_grow nd)
                        (\<lambda>g. map_option (\<lambda>nd'. (nd', True)) (node_add_child g b (Leaf rest)))))"
  by pat_completeness auto
termination
  by (relation "measure (\<lambda>(nd, key). length key)")
    (auto dest!: arg_cong[where f = length and x = "drop _ _"])

function remove_node :: "node \<Rightarrow> bytes \<Rightarrow> (node \<times> bool) option" where
  "remove_node nd key =
     (case nd of
        Empty \<Rightarrow> Some (nd, False)
      | Leaf sfx \<Rightarrow> if sfx = key then Some (Empty, True) else Some (nd, False)
      | _ \<Rightarrow>
          let pfx = node_prefix nd
          in if common_prefix pfx key < length pfx then Some (nd, False)
             else
               (case drop (length pfx) key of
                  [] \<Rightarrow> if \<not> node_has_end nd then Some (nd, False)
                        else map_option (\<lambda>nd'. (nd', True)) (node_maybe_shrink (node_set_has_end nd False))
                | b # rest \<Rightarrow>
                    if \<not> node_has_child nd b then Some (nd, False)
                    else
                      (case node_child nd b of
                         None \<Rightarrow> None
                       | Some c \<Rightarrow>
                           Option.bind (remove_node c rest)
                             (\<lambda>(c', removed).
                                let nd' = node_put_child nd b c'
                                in if removed \<and> node_child_is_empty nd' b
                                   then map_option (\<lambda>x. (x, True)) (node_maybe_shrink (node_del_child nd' b))
                                   else Some (nd', removed)))))"
  by pat_completeness auto
termination
  by (relation "measure (\<lambda>(nd, key). length key)")
    (auto dest!: arg_cong[where f = length and x = "drop _ _"])

declare insert_node.simps [simp del] remove_node.simps [simp del]

text \<open>
  The children a depth-first walk visits, in its order; an index entry past the child array
  panics.
\<close>

fun node_entries :: "node \<Rightarrow> (byte \<times> node) list option" where
  "node_entries (N4 p h n ks cs) = Some (zip (take n ks) (take n cs))"
| "node_entries (N16 p h n ks cs) = Some (zip (take n ks) (take n cs))"
| "node_entries (N48 p h n ix cs) =
     (if \<forall>s \<in> set ix. s = n48_nil \<or> unat s < length cs
      then Some (map (\<lambda>(b, s). (of_nat b, cs ! unat s)) (filter (\<lambda>(b, s). s \<noteq> n48_nil) (enumerate 0 ix)))
      else None)"
| "node_entries (N256 p h n cs) = Some (map (\<lambda>(b, c). (of_nat b, c)) (enumerate 0 cs))"
| "node_entries nd = Some []"

lemma entries_children:
  assumes "node_entries nd = Some es" "(b, c) \<in> set es"
  shows "c \<in> set (node_children nd)"
proof (cases nd)
  case (N48 p h n ix cs)
  with assms obtain a where a: "a < length ix" "ix ! a \<noteq> n48_nil" "c = cs ! unat (ix ! a)"
    and r: "\<forall>s \<in> set ix. s = n48_nil \<or> unat s < length cs"
    by (auto split: if_splits simp: in_set_enumerate_eq)
  from r a have "unat (ix ! a) < length cs" by (meson nth_mem)
  with a N48 show ?thesis by simp
qed (use assms in \<open>auto dest!: set_zip_rightD in_set_takeD simp: in_set_enumerate_eq\<close>)

lemma size_children: "c \<in> set (node_children nd) \<Longrightarrow> size c < size nd"
  by (cases nd) (auto dest!: size_list_estimation'[where f = size and y = "size c" for c, OF _ order_refl])

lemma entries_size: "node_entries nd = Some es \<Longrightarrow> (b, c) \<in> set es \<Longrightarrow> size c < size nd"
  by (rule size_children[OF entries_children])

function collect_all :: "bytes \<Rightarrow> node \<Rightarrow> bytes list option" where
  "collect_all path nd =
     (case nd of
        Empty \<Rightarrow> Some []
      | Leaf sfx \<Rightarrow> Some [path @ sfx]
      | _ \<Rightarrow>
          (case node_entries nd of
             None \<Rightarrow> None
           | Some es \<Rightarrow>
               let path' = path @ node_prefix nd
               in map_option (\<lambda>kss. (if node_has_end nd then [path'] else []) @ concat kss)
                    (those (map (\<lambda>(b, c). collect_all (path' @ [b]) c) es))))"
  by pat_completeness auto
termination
  by (relation "measure (\<lambda>(path, nd). size nd)")
    (auto simp del: node_entries.simps dest!: entries_size)

declare collect_all.simps [simp del]

record index_tree =
  root :: node
  len :: nat

definition tree_new :: index_tree where
  "tree_new = \<lparr>root = Empty, len = 0\<rparr>"

definition tree_is_empty :: "index_tree \<Rightarrow> bool" where
  "tree_is_empty t \<longleftrightarrow> len t = 0"

definition tree_insert :: "index_tree \<Rightarrow> bytes \<Rightarrow> (index_tree \<times> bool) option" where
  "tree_insert t key =
     map_option (\<lambda>(nd, r). (if r then \<lparr>root = nd, len = len t + 1\<rparr> else t\<lparr>root := nd\<rparr>, r))
       (insert_node (root t) key)"

definition tree_remove :: "index_tree \<Rightarrow> bytes \<Rightarrow> (index_tree \<times> bool) option" where
  "tree_remove t key =
     map_option (\<lambda>(nd, r). (if r then \<lparr>root = nd, len = len t - 1\<rparr> else t\<lparr>root := nd\<rparr>, r))
       (remove_node (root t) key)"

definition tree_filtered :: "index_tree \<Rightarrow> (bytes \<Rightarrow> bool) \<Rightarrow> bytes list option" where
  "tree_filtered t pred = map_option (filter pred) (collect_all [] (root t))"

definition iter_gt :: "index_tree \<Rightarrow> bytes \<Rightarrow> bytes list option" where
  "iter_gt t lo = tree_filtered t (\<lambda>k. lo < k)"

definition iter_gte :: "index_tree \<Rightarrow> bytes \<Rightarrow> bytes list option" where
  "iter_gte t lo = tree_filtered t (\<lambda>k. lo \<le> k)"

definition iter_lt :: "index_tree \<Rightarrow> bytes \<Rightarrow> bytes list option" where
  "iter_lt t hi = tree_filtered t (\<lambda>k. k < hi)"

definition iter_lte :: "index_tree \<Rightarrow> bytes \<Rightarrow> bytes list option" where
  "iter_lte t hi = tree_filtered t (\<lambda>k. k \<le> hi)"

definition iter_prefix :: "index_tree \<Rightarrow> bytes \<Rightarrow> bytes list option" where
  "iter_prefix t pfx = tree_filtered t (\<lambda>k. take (length pfx) k = pfx)"

subsection \<open>The key set\<close>

function isin :: "node \<Rightarrow> bytes \<Rightarrow> bool" where
  "isin nd key =
     (case nd of
        Empty \<Rightarrow> False
      | Leaf sfx \<Rightarrow> sfx = key
      | _ \<Rightarrow>
          (case strip_prefix (node_prefix nd) key of
             None \<Rightarrow> False
           | Some [] \<Rightarrow> node_has_end nd
           | Some (b # rest) \<Rightarrow> isin (kid nd b) rest))"
  by pat_completeness auto
termination
  by (relation "measure (\<lambda>(nd, key). length key)") (auto simp: strip_prefix_Some)

declare isin.simps [simp del]

lemma isin_Empty [simp]: "\<not> isin Empty k"
  by (simp add: isin.simps)

lemma isin_Leaf [simp]: "isin (Leaf s) k \<longleftrightarrow> k = s"
  by (auto simp: isin.simps)

lemma isin_inner:
  assumes "is_inner nd"
  shows "isin nd k \<longleftrightarrow> (k = node_prefix nd \<and> node_has_end nd) \<or>
    (\<exists>b r. k = node_prefix nd @ b # r \<and> isin (kid nd b) r)"
proof -
  have "isin nd k = (case strip_prefix (node_prefix nd) k of None \<Rightarrow> False | Some [] \<Rightarrow> node_has_end nd
      | Some (b # rest) \<Rightarrow> isin (kid nd b) rest)"
    using assms by (subst isin.simps) (cases nd; simp)
  then show ?thesis
    by (auto simp: strip_prefix_Some[of _ _ "_ # _"] strip_prefix_Some[of _ _ "[]"]
        split: option.split list.split)
      (metis append_Nil2 option.distinct(1) strip_prefix_Some)+
qed

end
