(* ===== verification/ArtInsert.thy ===== *)
theory ArtInsert
  imports ArtTree
begin

text \<open>
  Insertion: on a well-formed tame tree and a key without \<open>0xFF\<close>, \<open>insert_node\<close> does not panic,
  adds exactly the key, reports whether it was new, and keeps the tree well-formed and tame.
\<close>

lemma common_prefix_le: "common_prefix p k \<le> length p"
  by (induction p k rule: common_prefix.induct) auto

lemma common_prefix_full: "\<not> common_prefix p k < length p \<longleftrightarrow> (\<exists>r. k = p @ r)"
  by (induction p k rule: common_prefix.induct) auto

lemma common_prefix_split:
  assumes "m = common_prefix p k" "m < length p"
  obtains q x xs where "p = q @ x # xs" "length q = m" "k = q"
    | q x xs y ys where "p = q @ x # xs" "length q = m" "k = q @ y # ys" "x \<noteq> y"
proof -
  have "(\<exists>q x xs. p = q @ x # xs \<and> length q = m \<and> k = q) \<or>
    (\<exists>q x xs y ys. p = q @ x # xs \<and> length q = m \<and> k = q @ y # ys \<and> x \<noteq> y)"
    using assms
  proof (induction p k arbitrary: m rule: common_prefix.induct)
    case (1 a as b bs)
    show ?case
    proof (cases "a = b")
      case True
      with "1.prems" have "common_prefix as bs < length as" by simp
      from "1.IH"[OF True refl this] show ?thesis
      proof (elim disjE exE conjE)
        fix q x xs assume "as = q @ x # xs" "length q = common_prefix as bs" "bs = q"
        with True "1.prems" have "a # as = (a # q) @ x # xs \<and> length (a # q) = m \<and> b # bs = a # q" by simp
        then show ?thesis by blast
      next
        fix q x xs y ys
        assume "as = q @ x # xs" "length q = common_prefix as bs" "bs = q @ y # ys" "x \<noteq> y"
        with True "1.prems"
        have "a # as = (a # q) @ x # xs \<and> length (a # q) = m \<and> b # bs = (a # q) @ y # ys \<and> x \<noteq> y" by simp
        then show ?thesis by blast
      qed
    next
      case False
      with "1.prems" have "a # as = [] @ a # as \<and> length [] = m \<and> b # bs = [] @ b # bs \<and> a \<noteq> b" by simp
      then show ?thesis by blast
    qed
  qed (auto simp: neq_Nil_conv)
  then show thesis using that by blast
qed

lemma common_prefix_simps [simp]:
  "common_prefix q q = length q" "common_prefix q (q @ ys) = length q" "common_prefix (q @ xs) q = length q"
  "x \<noteq> y \<Longrightarrow> common_prefix (q @ x # xs) (q @ y # ys) = length q"
proof -
  show "common_prefix q q = length q" by (induction q) auto
  show "common_prefix q (q @ ys) = length q" by (induction q) auto
  show "common_prefix (q @ xs) q = length q" by (induction q) (cases xs; auto)+
  show "x \<noteq> y \<Longrightarrow> common_prefix (q @ x # xs) (q @ y # ys) = length q" by (induction q) auto
qed

text \<open>The three ways a leaf splits.\<close>

lemma insert_leaf_simps:
  "insert_node (Leaf (q @ x # xs)) q =
     Option.bind (node_add_child (n4_empty q False) x (Leaf xs))
       (\<lambda>n4. if node_has_end n4 then Some (Leaf (q @ x # xs), False)
             else Some (node_set_has_end n4 True, True))"
  "x \<noteq> y \<Longrightarrow> insert_node (Leaf (q @ x # xs)) (q @ y # ys) =
     Option.bind (node_add_child (n4_empty q False) x (Leaf xs))
       (\<lambda>n4. map_option (\<lambda>n4. (n4, True)) (node_add_child n4 y (Leaf ys)))"
  "insert_node (Leaf q) (q @ y # ys) =
     map_option (\<lambda>n4. (n4, True)) (node_add_child (n4_empty q True) y (Leaf ys))"
  by (simp_all add: insert_node.simps Let_def nth_append n4_empty_def cong: if_cong)

subsection \<open>Small steps on nodes\<close>

lemma n4_empty_ok:
  "is_inner (n4_empty q e)" "shape_ok (n4_empty q e)" "node_prefix (n4_empty q e) = q"
  "node_has_end (n4_empty q e) = e" "kid (n4_empty q e) = (\<lambda>_. Empty)" "room (n4_empty q e)"
  "count_here lo hi (n4_empty q e)"
proof -
  have ok: "small_ok 4 0 (replicate 4 0) (replicate 4 Empty)"
    by (simp add: small_ok_def)
  then show "kid (n4_empty q e) = (\<lambda>_. Empty)"
    by (auto simp: n4_empty_def skid_none)
  show "shape_ok (n4_empty q e)" using ok by (simp add: n4_empty_def)
qed (simp_all add: n4_empty_def)

text \<open>Adding to an \<open>N4\<close> leaves an \<open>N4\<close> with one child more.\<close>

definition n4_with :: "nat \<Rightarrow> bytes \<Rightarrow> (byte \<Rightarrow> node) \<Rightarrow> node \<Rightarrow> bool" where
  "n4_with m q f nd \<longleftrightarrow> (\<exists>ks cs. nd = N4 q False m ks cs) \<and> shape_ok nd \<and> kid nd = f"

lemma n4_with_empty: "n4_with 0 q (\<lambda>_. Empty) (n4_empty q False)"
  using n4_empty_ok[where q = q and e = False] by (simp add: n4_with_def) (simp add: n4_empty_def)

lemma n4_with_add:
  assumes "n4_with m q f nd" "m < 4" "f b = Empty" "c \<noteq> Empty"
  obtains nd' where "node_add_child nd b c = Some nd'" "n4_with (Suc m) q (f(b := c)) nd'"
proof -
  from assms(1) obtain ks cs where nd: "nd = N4 q False m ks cs" and ok: "shape_ok nd" "kid nd = f"
    by (auto simp: n4_with_def)
  have in1: "is_inner nd" "room nd" using nd assms(2) by auto
  have f: "kid nd b = Empty" using ok assms(3) by simp
  obtain nd' where r: "node_add_child nd b c = Some nd'" "becomes nd ((kid nd)(b := c)) nd'"
    using add_child_ok[OF ok(1) in1 f assms(4)] by blast
  from r(1) nd obtain ks' cs' where "nd' = N4 q False (Suc m) ks' cs'"
    by (auto simp: small_add_def Let_def split: if_splits prod.splits)
  with r ok that show thesis by (auto simp: n4_with_def becomes_def)
qed

lemma n4_withD:
  assumes "n4_with m q f nd"
  shows "is_inner nd" "shape_ok nd" "node_prefix nd = q" "\<not> node_has_end nd" "kid nd = f"
    "count_here lo hi nd"
  using assms by (auto simp: n4_with_def)

lemma set_has_end_ok:
  assumes "is_inner nd" "shape_ok nd"
  shows "is_inner (node_set_has_end nd e)" "shape_ok (node_set_has_end nd e)"
    "node_prefix (node_set_has_end nd e) = node_prefix nd" "node_has_end (node_set_has_end nd e) = e"
    "kid (node_set_has_end nd e) = kid nd" "count_here lo hi (node_set_has_end nd e) = count_here lo hi nd"
  using assms by (cases nd; simp)+

lemma set_prefix_ok:
  assumes "is_inner nd" "shape_ok nd"
  shows "is_inner (node_set_prefix nd q)" "shape_ok (node_set_prefix nd q)"
    "node_prefix (node_set_prefix nd q) = q" "node_has_end (node_set_prefix nd q) = node_has_end nd"
    "kid (node_set_prefix nd q) = kid nd" "count_here lo hi (node_set_prefix nd q) = count_here lo hi nd"
  using assms by (cases nd; simp)+

lemma inner_not_Empty: "is_inner nd \<Longrightarrow> nd \<noteq> Empty"
  by auto

text \<open>Membership, well-formedness and tameness of a node with given view.\<close>

lemma wf_innerI: "is_inner nd \<Longrightarrow> shape_ok nd \<Longrightarrow> (\<And>b. wf_node (kid nd b)) \<Longrightarrow> wf_node nd"
  by (simp add: wf_inner)

lemma wf_innerD:
  assumes "wf_node nd" "is_inner nd"
  shows "shape_ok nd" "wf_node (kid nd b)"
  using assms by (simp_all add: wf_inner)

lemma tame_innerD:
  assumes "tame lo hi nd" "wf_node nd" "is_inner nd"
  shows "count_here lo hi nd" "0xFF \<notin> set (node_prefix nd)" "kid nd 0xFF = Empty" "tame lo hi (kid nd b)"
  using assms tame_inner[of nd lo hi] wf_innerD(1)[of nd] by simp_all

lemma tame_mono: "tame lo hi nd \<Longrightarrow> lo' \<le> lo \<Longrightarrow> hi \<le> hi' \<Longrightarrow> tame lo' hi' nd"
  by (induction nd) auto

lemma count_mono: "count_here lo hi nd \<Longrightarrow> lo' \<le> lo \<Longrightarrow> hi \<le> hi' \<Longrightarrow> count_here lo' hi' nd"
  by (cases nd) auto

subsection \<open>Correctness\<close>

definition ins_ok :: "nat \<Rightarrow> nat \<Rightarrow> node \<Rightarrow> bytes \<Rightarrow> bool" where
  "ins_ok lo hi nd key \<longleftrightarrow> (\<exists>nd'. insert_node nd key = Some (nd', \<not> isin nd key) \<and>
     nd' \<noteq> Empty \<and> wf_node nd' \<and> tame lo (Suc hi) nd' \<and> (\<forall>k. isin nd' k \<longleftrightarrow> k = key \<or> isin nd k))"

lemma insert_leaf_ok:
  assumes ff: "0xFF \<notin> set s" "0xFF \<notin> set key"
  shows "ins_ok lo hi (Leaf s) key"
proof (cases "s = key")
  case True
  then show ?thesis using ff by (auto simp: ins_ok_def insert_node.simps)
next
  case False
  define m where "m = common_prefix s key"
  have "\<exists>nd'. insert_node (Leaf s) key = Some (nd', True) \<and> is_inner nd' \<and> shape_ok nd' \<and>
     (\<forall>b. kid nd' b = Empty \<or> (\<exists>r. kid nd' b = Leaf r \<and> 0xFF \<notin> set r \<and> b \<noteq> 0xFF)) \<and>
     0xFF \<notin> set (node_prefix nd') \<and> count_here lo (Suc hi) nd' \<and>
     (\<forall>k. isin nd' k \<longleftrightarrow> k = key \<or> k = s)"
  proof (cases "m < length s")
    case True
    then show ?thesis using m_def
    proof (cases rule: common_prefix_split[OF m_def True, case_names pre split])
      case (pre q x xs)
      obtain n4 where n4: "node_add_child (n4_empty q False) x (Leaf xs) = Some n4"
        "n4_with 1 q ((\<lambda>_. Empty)(x := Leaf xs)) n4"
        using n4_with_add[OF n4_with_empty, where q = q and b = x and c = "Leaf xs"] by auto
      note N = n4_withD[OF n4(2)] and E = set_has_end_ok[OF N(1,2), where e = True]
      have "insert_node (Leaf s) key = Some (node_set_has_end n4 True, True)"
        using n4 N by (simp add: pre insert_leaf_simps)
      then show ?thesis
        using ff pre by (auto simp: E N isin_inner intro!: count_mono split: if_splits)
    next
      case (split q x xs y ys)
      obtain n4 where n4: "node_add_child (n4_empty q False) x (Leaf xs) = Some n4"
        "n4_with 1 q ((\<lambda>_. Empty)(x := Leaf xs)) n4"
        using n4_with_add[OF n4_with_empty, where q = q and b = x and c = "Leaf xs"] by auto
      obtain n4' where n4': "node_add_child n4 y (Leaf ys) = Some n4'"
        "n4_with 2 q ((\<lambda>_. Empty)(x := Leaf xs, y := Leaf ys)) n4'"
        using n4_with_add[OF n4(2), where b = y and c = "Leaf ys"] split(4) by (auto simp: numeral_2_eq_2)
      note N = n4_withD[OF n4'(2)]
      have "insert_node (Leaf s) key = Some (n4', True)"
        using split(4) n4 n4' by (simp add: split(1,3) insert_leaf_simps)
      then show ?thesis
        using ff split by (auto simp: N isin_inner split: if_splits)
    qed
  next
    case F: False
    then obtain r where r: "key = s @ r" unfolding m_def common_prefix_full by blast
    with \<open>s \<noteq> key\<close> obtain y ys where key: "key = s @ y # ys" by (cases r) auto
    note N = n4_empty_ok[where q = s and e = True]
    obtain n4 where n4: "node_add_child (n4_empty s True) y (Leaf ys) = Some n4"
      "becomes (n4_empty s True) ((\<lambda>_. Empty)(y := Leaf ys)) n4"
      "\<And>lo hi. count_here lo hi (n4_empty s True) \<Longrightarrow> count_here (Suc lo) (Suc hi) n4"
      using add_child_ok[OF N(2,1,6), where b = y and c = "Leaf ys"] N(5) by auto
    have "insert_node (Leaf s) key = Some (n4, True)"
      using n4 by (simp add: key insert_leaf_simps)
    then show ?thesis
      using ff key n4(2) count_mono[OF n4(3)[OF N(7), of lo hi], of lo "Suc hi"]
      by (auto simp: becomes_def N isin_inner split: if_splits)
  qed
  then obtain nd' where R: "insert_node (Leaf s) key = Some (nd', True)" "is_inner nd'" "shape_ok nd'"
     "\<forall>b. kid nd' b = Empty \<or> (\<exists>r. kid nd' b = Leaf r \<and> 0xFF \<notin> set r \<and> b \<noteq> 0xFF)"
     "0xFF \<notin> set (node_prefix nd')" "count_here lo (Suc hi) nd'"
     "\<forall>k. isin nd' k \<longleftrightarrow> k = key \<or> k = s" by blast
  have "wf_node (kid nd' b)" "tame lo (Suc hi) (kid nd' b)" for b
    using R(4)[rule_format, of b] by auto
  moreover have "kid nd' 0xFF = Empty" using R(4) by blast
  ultimately have "wf_node nd'" "tame lo (Suc hi) nd'"
    using R by (simp_all add: wf_inner tame_inner)
  with R False show ?thesis by (auto simp: ins_ok_def)
qed

text \<open>An inner node whose prefix the key leaves: the node is split under a new \<open>N4\<close>.\<close>

lemma insert_node_inner:
  "is_inner nd \<Longrightarrow> insert_node nd key =
     (let pfx = node_prefix nd; matched = common_prefix pfx key
      in if matched < length pfx then
           let existing = node_set_prefix nd (drop (matched + 1) pfx)
           in Option.bind (node_add_child (n4_empty (take matched pfx) False) (pfx ! matched) existing)
                (\<lambda>n4. if matched < length key
                   then map_option (\<lambda>n4. (n4, True))
                     (node_add_child n4 (key ! matched) (Leaf (drop (matched + 1) key)))
                   else Some (node_set_has_end n4 True, True))
         else
           (case drop (length pfx) key of
              [] \<Rightarrow> if node_has_end nd then Some (nd, False)
                    else Some (node_set_has_end nd True, True)
            | b # rest \<Rightarrow>
                if node_has_child nd b then
                  (case node_child nd b of
                     None \<Rightarrow> None
                   | Some c \<Rightarrow> map_option (\<lambda>(c', r). (node_put_child nd b c', r)) (insert_node c rest))
                else
                  Option.bind (node_maybe_grow nd)
                    (\<lambda>g. map_option (\<lambda>nd'. (nd', True)) (node_add_child g b (Leaf rest)))))"
  by (cases nd) (simp_all only: is_inner.simps insert_node.simps[of "N4 _ _ _ _ _"]
      insert_node.simps[of "N16 _ _ _ _ _"] insert_node.simps[of "N48 _ _ _ _ _"]
      insert_node.simps[of "N256 _ _ _ _"] node.case)

lemma insert_inner_split_simps:
  assumes nd: "is_inner nd" "node_prefix nd = q @ x # xs"
  shows "insert_node nd q =
     Option.bind (node_add_child (n4_empty q False) x (node_set_prefix nd xs))
       (\<lambda>n4. Some (node_set_has_end n4 True, True))"
    "x \<noteq> y \<Longrightarrow> insert_node nd (q @ y # ys) =
     Option.bind (node_add_child (n4_empty q False) x (node_set_prefix nd xs))
       (\<lambda>n4. map_option (\<lambda>n4. (n4, True)) (node_add_child n4 y (Leaf ys)))"
  by (simp_all add: insert_node_inner[OF nd(1)] nd(2) Let_def nth_append cong: if_cong)

lemma isin_set_prefix:
  assumes "is_inner nd" "shape_ok nd" "node_prefix nd = q @ x # xs"
  shows "isin nd k \<longleftrightarrow> (\<exists>r. k = q @ x # r \<and> isin (node_set_prefix nd xs) r)"
proof -
  note P = set_prefix_ok[OF assms(1,2), where q = xs]
  show ?thesis
    using assms by (auto simp: isin_inner P)
qed

lemma insert_split_ok:
  assumes nd: "is_inner nd" "wf_node nd" "tame lo hi nd"
    and m: "common_prefix (node_prefix nd) key < length (node_prefix nd)" and ff: "0xFF \<notin> set key"
  shows "ins_ok lo hi nd key"
proof -
  have sh: "shape_ok nd" using nd by (simp add: wf_inner)
  note T = tame_innerD[OF nd(3,2,1)]
  have "\<exists>q x xs nd' f. node_prefix nd = q @ x # xs \<and> insert_node nd key = Some (nd', True) \<and>
     is_inner nd' \<and> shape_ok nd' \<and> node_prefix nd' = q \<and> count_here lo (Suc hi) nd' \<and>
     kid nd' = f(x := node_set_prefix nd xs) \<and>
     (\<forall>b. f b = Empty \<or> (\<exists>r. f b = Leaf r \<and> 0xFF \<notin> set r \<and> b \<noteq> 0xFF)) \<and>
     (\<forall>k. isin nd' k \<longleftrightarrow> k = key \<or> isin nd k) \<and> \<not> isin nd key"
    using refl m
  proof (cases rule: common_prefix_split[case_names pre split])
    case (pre q x xs)
    note P = set_prefix_ok[OF nd(1) sh, where q = xs]
    obtain n4 where n4: "node_add_child (n4_empty q False) x (node_set_prefix nd xs) = Some n4"
      "n4_with 1 q ((\<lambda>_. Empty)(x := node_set_prefix nd xs)) n4"
      using n4_with_add[OF n4_with_empty, where q = q and b = x and c = "node_set_prefix nd xs"]
        inner_not_Empty[OF P(1)] by auto
    note N = n4_withD[OF n4(2)]
    note E = set_has_end_ok[OF N(1,2), where e = True]
    have r: "insert_node nd key = Some (node_set_has_end n4 True, True)"
      using n4 by (simp add: pre(3) insert_inner_split_simps[OF nd(1) pre(1)])
    have "isin (node_set_has_end n4 True) k \<longleftrightarrow> k = key \<or> isin nd k" for k
      unfolding isin_set_prefix[OF nd(1) sh pre(1)] isin_inner[OF E(1)] using pre(3)
      by (auto simp: E N split: if_splits)
    moreover have "\<not> isin nd key"
      unfolding isin_set_prefix[OF nd(1) sh pre(1)] using pre(3) by simp
    ultimately show ?thesis
      using pre r E N by (intro exI[of _ q] exI[of _ x] exI[of _ xs] exI[of _ "node_set_has_end n4 True"]
          exI[of _ "\<lambda>_. Empty"]) simp
  next
    case (split q x xs y ys)
    note P = set_prefix_ok[OF nd(1) sh, where q = xs]
    obtain n4 where n4: "node_add_child (n4_empty q False) x (node_set_prefix nd xs) = Some n4"
      "n4_with 1 q ((\<lambda>_. Empty)(x := node_set_prefix nd xs)) n4"
      using n4_with_add[OF n4_with_empty, where q = q and b = x and c = "node_set_prefix nd xs"]
        inner_not_Empty[OF P(1)] by auto
    obtain n4' where n4': "node_add_child n4 y (Leaf ys) = Some n4'"
      "n4_with 2 q ((\<lambda>_. Empty)(x := node_set_prefix nd xs, y := Leaf ys)) n4'"
      using n4_with_add[OF n4(2), where b = y and c = "Leaf ys"] split(4) by (auto simp: numeral_2_eq_2)
    note N = n4_withD[OF n4'(2)]
    have r: "insert_node nd key = Some (n4', True)"
      using n4 n4' split(4) by (simp add: split(3) insert_inner_split_simps[OF nd(1) split(1)])
    have "isin n4' k \<longleftrightarrow> k = key \<or> isin nd k" for k
      unfolding isin_set_prefix[OF nd(1) sh split(1)] isin_inner[OF N(1)] using split(3,4)
      by (auto simp: N split: if_splits)
    moreover have "\<not> isin nd key"
      unfolding isin_set_prefix[OF nd(1) sh split(1)] using split(3,4) by simp
    ultimately show ?thesis
      using split r N ff by (intro exI[of _ q] exI[of _ x] exI[of _ xs] exI[of _ n4']
          exI[of _ "(\<lambda>_. Empty)(y := Leaf ys)"]) (auto simp: fun_upd_twist)
  qed
  then obtain q x xs nd' f where R: "node_prefix nd = q @ x # xs" "insert_node nd key = Some (nd', True)"
    "is_inner nd'" "shape_ok nd'" "node_prefix nd' = q" "count_here lo (Suc hi) nd'"
    "kid nd' = f(x := node_set_prefix nd xs)"
    "\<forall>b. f b = Empty \<or> (\<exists>r. f b = Leaf r \<and> 0xFF \<notin> set r \<and> b \<noteq> 0xFF)"
    "\<forall>k. isin nd' k \<longleftrightarrow> k = key \<or> isin nd k" "\<not> isin nd key" by blast
  note P = set_prefix_ok[OF nd(1) sh, where q = xs]
  have xs: "0xFF \<notin> set xs" "x \<noteq> 0xFF" "0xFF \<notin> set q" using T(2) R(1) by auto
  have P': "wf_node (node_set_prefix nd xs)" "tame lo hi (node_set_prefix nd xs)"
    using nd sh xs T by (simp_all add: wf_inner tame_inner P)
  have "wf_node (kid nd' b)" "tame lo (Suc hi) (kid nd' b)" for b
    using R(8)[rule_format, of b] P' tame_mono[OF P'(2), of lo "Suc hi"] by (auto simp: R(7))
  moreover have "kid nd' 0xFF = Empty" using R(8)[rule_format, of "0xFF"] xs by (auto simp: R(7))
  ultimately have "wf_node nd'" "tame lo (Suc hi) nd'"
    using R xs by (simp_all add: wf_inner tame_inner)
  with R show ?thesis by (auto simp: ins_ok_def)
qed

text \<open>A node with the children of another but at \<open>b\<close>.\<close>

lemma upd_ok:
  assumes nd: "is_inner nd" "wf_node nd" "tame lo hi nd"
    and b: "becomes nd ((kid nd)(b := c)) nd'" "count_here lo hi' nd'" "hi \<le> hi'"
    and c: "wf_node c" "tame lo hi' c" "b \<noteq> 0xFF"
  shows "wf_node nd'" "tame lo hi' nd'"
proof -
  note T = tame_innerD[OF nd(3,2,1)]
  have B: "is_inner nd'" "shape_ok nd'" "node_prefix nd' = node_prefix nd"
    "kid nd' = (kid nd)(b := c)" using b(1) by (auto simp: becomes_def)
  show "wf_node nd'"
    using wf_innerD(2)[OF nd(2,1)] B c by (simp add: wf_inner)
  show "tame lo hi' nd'"
    using B c b T tame_mono[OF T(4), of lo hi'] by (simp add: tame_inner)
qed

lemma isin_upd:
  assumes nd: "is_inner nd" and b: "becomes nd ((kid nd)(b := c)) nd'"
    and c: "\<And>r. isin c r \<longleftrightarrow> P r"
  shows "isin nd' k \<longleftrightarrow> (if \<exists>r. k = node_prefix nd @ b # r
     then P (drop (length (node_prefix nd) + 1) k) else isin nd k)"
proof -
  have B: "is_inner nd'" "node_prefix nd' = node_prefix nd" "node_has_end nd' = node_has_end nd"
    "kid nd' = (kid nd)(b := c)" using b(1) by (auto simp: becomes_def)
  show ?thesis
    unfolding isin_inner[OF nd] isin_inner[OF B(1)] B using c by auto
qed

text \<open>The recursive case and the case of a new child.\<close>

lemma insert_inner_simps:
  assumes nd: "is_inner nd"
  shows "insert_node nd (node_prefix nd) =
      (if node_has_end nd then Some (nd, False) else Some (node_set_has_end nd True, True))"
    "insert_node nd (node_prefix nd @ b # rest) =
      (if node_has_child nd b then
         (case node_child nd b of
            None \<Rightarrow> None
          | Some c \<Rightarrow> map_option (\<lambda>(c', r). (node_put_child nd b c', r)) (insert_node c rest))
       else Option.bind (node_maybe_grow nd)
              (\<lambda>g. map_option (\<lambda>nd'. (nd', True)) (node_add_child g b (Leaf rest))))"
  unfolding insert_node_inner[OF nd, of "node_prefix nd"]
    insert_node_inner[OF nd, of "node_prefix nd @ b # rest"]
  by (simp_all add: Let_def cong: option.case_cong)

theorem insert_node_ok:
  assumes "wf_node nd" "tame lo hi nd" "lo \<le> 49" "48 \<le> hi" "hi < 65535" "0xFF \<notin> set key"
  shows "ins_ok lo hi nd key"
  using assms
proof (induction key arbitrary: nd rule: length_induct)
  case (1 key)
  note prems = "1.prems"
  consider "nd = Empty" | s where "nd = Leaf s" | "is_inner nd" by (cases nd) auto
  then show ?case
  proof cases
    case 1
    then show ?thesis using prems by (simp add: ins_ok_def insert_node.simps)
  next
    case 2
    then show ?thesis using prems insert_leaf_ok by simp
  next
    case inner: 3
    have sh: "shape_ok nd" using inner prems(1) by (simp add: wf_inner)
    note T = tame_innerD[OF prems(2,1) inner]
    consider "common_prefix (node_prefix nd) key < length (node_prefix nd)" | "key = node_prefix nd"
      | b rest where "key = node_prefix nd @ b # rest"
      unfolding common_prefix_full[symmetric] by (metis append_Nil2 common_prefix_full neq_Nil_conv)
    then show ?thesis
    proof cases
      case 1
      then show ?thesis using insert_split_ok[OF inner prems(1,2)] prems by blast
    next
      case 2
      note E = set_has_end_ok[OF inner sh, where e = True]
      have "wf_node (node_set_has_end nd True)" "tame lo hi (node_set_has_end nd True)"
        using wf_innerD(2)[OF prems(1) inner] T E by (simp_all add: wf_inner tame_inner)
      then show ?thesis
        using 2 prems inner E tame_mono[of lo hi _ lo "Suc hi"]
        by (auto simp: ins_ok_def insert_inner_simps isin_inner inner_not_Empty)
    next
      case (3 b rest)
      have br: "b \<noteq> 0xFF" "0xFF \<notin> set rest" "length rest < length key" using 3 prems by auto
      have ik: "isin nd key \<longleftrightarrow> isin (kid nd b) rest" using 3 by (simp add: isin_inner[OF inner])
      show ?thesis
      proof (cases "node_has_child nd b")
        case True
        note K = has_child_kid[OF sh inner]
        have "ins_ok lo hi (kid nd b) rest"
          using "1.IH" br prems wf_innerD(2)[OF prems(1) inner] T(4) by blast
        then obtain c where c: "insert_node (kid nd b) rest = Some (c, \<not> isin (kid nd b) rest)"
          "c \<noteq> Empty" "wf_node c" "tame lo (Suc hi) c" "\<And>k. isin c k \<longleftrightarrow> k = rest \<or> isin (kid nd b) k"
          by (auto simp: ins_ok_def)
        note U = put_child_ok[OF sh inner True c(2)]
        have ct: "count_here lo (Suc hi) (node_put_child nd b c)"
          using U(2) count_mono[OF T(1)] by simp
        have "isin (node_put_child nd b c) k \<longleftrightarrow> k = key \<or> isin nd k" for k
          unfolding isin_upd[OF inner U(1) c(5)] by (auto simp: 3 isin_inner[OF inner])
        moreover have "insert_node nd key = Some (node_put_child nd b c, \<not> isin nd key)"
          using c(1) K(2)[OF True] True by (simp add: 3 insert_inner_simps(2)[OF inner] ik[unfolded 3])
        ultimately show ?thesis
          using upd_ok[OF inner prems(1,2) U(1) ct _ c(3,4) br(1)] U(1)
          by (auto simp: ins_ok_def becomes_def)
      next
        case False
        then have kb: "kid nd b = Empty" using has_child_kid(1)[OF sh inner] by blast
        obtain g where g: "node_maybe_grow nd = Some g" "becomes nd (kid nd) g" "room g"
          "count_here (lo - 1) hi g"
          by (rule grow_ok[OF sh inner T(1) prems(3,4,5) T(3)])
        have G: "shape_ok g" "is_inner g" "kid g b = Empty" using g(2) kb by (auto simp: becomes_def)
        obtain nd' where r: "node_add_child g b (Leaf rest) = Some nd'"
          "becomes g ((kid g)(b := Leaf rest)) nd'"
          "\<And>lo hi. count_here lo hi g \<Longrightarrow> count_here (Suc lo) (Suc hi) nd'"
          using add_child_ok[OF G(1,2) g(3) G(3), of "Leaf rest"] by auto
        have U: "becomes nd ((kid nd)(b := Leaf rest)) nd'" using g(2) r(2) by (simp add: becomes_def)
        have ct: "count_here lo (Suc hi) nd'" using count_mono[OF r(3)[OF g(4)], of lo "Suc hi"] by simp
        have "isin nd' k \<longleftrightarrow> k = key \<or> isin nd k" for k
          unfolding isin_upd[OF inner U isin_Leaf] using kb by (auto simp: 3 isin_inner[OF inner])
        moreover have "insert_node nd key = Some (nd', True)"
          using False g(1) r(1) by (simp add: 3 insert_inner_simps(2)[OF inner])
        ultimately show ?thesis
          using upd_ok[OF inner prems(1,2) U ct _ _ _ br(1)] U ik kb br
          by (auto simp: ins_ok_def becomes_def)
      qed
    qed
  qed
qed

end
