(* ===== verification/ArtRemove.thy ===== *)
theory ArtRemove
  imports ArtInsert
begin

text \<open>
  Removal: on a well-formed tree that is tame from 49 up, \<open>remove_node\<close> does not panic, removes
  exactly the key, reports whether it was there, and keeps the tree well-formed and tame.
\<close>

definition rem_ok :: "nat \<Rightarrow> node \<Rightarrow> bytes \<Rightarrow> bool" where
  "rem_ok hi nd key \<longleftrightarrow> (\<exists>nd'. remove_node nd key = Some (nd', isin nd key) \<and>
     wf_node nd' \<and> tame 49 hi nd' \<and> (\<forall>k. isin nd' k \<longleftrightarrow> k \<noteq> key \<and> isin nd k) \<and>
     (\<not> isin nd key \<longrightarrow> nd' = nd))"

lemma remove_node_inner:
  "is_inner nd \<Longrightarrow> remove_node nd key =
     (let pfx = node_prefix nd
      in if common_prefix pfx key < length pfx then Some (nd, False)
         else
           (case drop (length pfx) key of
              [] \<Rightarrow> if \<not> node_has_end nd then Some (nd, False)
                    else map_option (\<lambda>nd'. (nd', True)) (node_maybe_shrink (node_set_has_end nd False))
            | b # rest \<Rightarrow>
                if \<not> node_has_child nd b then Some (nd, False)
                else
                  (case node_child nd b of
                     None \<Rightarrow> None
                   | Some c \<Rightarrow>
                       Option.bind (remove_node c rest)
                         (\<lambda>(c', removed).
                            let nd' = node_put_child nd b c'
                            in if removed \<and> node_child_is_empty nd' b
                               then map_option (\<lambda>x. (x, True)) (node_maybe_shrink (node_del_child nd' b))
                               else Some (nd', removed)))))"
  by (cases nd) (simp_all only: is_inner.simps remove_node.simps[of "N4 _ _ _ _ _"]
      remove_node.simps[of "N16 _ _ _ _ _"] remove_node.simps[of "N48 _ _ _ _ _"]
      remove_node.simps[of "N256 _ _ _ _"] node.case)

lemma remove_inner_simps:
  assumes nd: "is_inner nd"
  shows "remove_node nd (node_prefix nd) =
      (if \<not> node_has_end nd then Some (nd, False)
       else map_option (\<lambda>nd'. (nd', True)) (node_maybe_shrink (node_set_has_end nd False)))"
    "remove_node nd (node_prefix nd @ b # rest) =
      (if \<not> node_has_child nd b then Some (nd, False)
       else case node_child nd b of
           None \<Rightarrow> None
         | Some c \<Rightarrow> Option.bind (remove_node c rest)
             (\<lambda>(c', removed). if removed \<and> node_child_is_empty (node_put_child nd b c') b
                 then map_option (\<lambda>x. (x, True))
                   (node_maybe_shrink (node_del_child (node_put_child nd b c') b))
                 else Some (node_put_child nd b c', removed)))"
    "common_prefix (node_prefix nd) key < length (node_prefix nd) \<Longrightarrow>
      remove_node nd key = Some (nd, False)"
  unfolding remove_node_inner[OF nd, of "node_prefix nd"]
    remove_node_inner[OF nd, of "node_prefix nd @ b # rest"] remove_node_inner[OF nd, of key]
  by (simp_all add: Let_def del: node_maybe_shrink.simps cong: option.case_cong)

lemma prepend_into_ok:
  assumes "wf_node c" "tame lo hi c" "0xFF \<notin> set p" "b \<noteq> 0xFF"
  shows "wf_node (prepend_into p b c)" "tame lo hi (prepend_into p b c)"
    "isin (prepend_into p b c) k \<longleftrightarrow> (\<exists>r. k = p @ b # r \<and> isin c r)"
proof -
  consider "c = Empty" | s where "c = Leaf s" | "is_inner c" by (cases c) auto
  then have "wf_node (prepend_into p b c) \<and> tame lo hi (prepend_into p b c) \<and>
    (isin (prepend_into p b c) k \<longleftrightarrow> (\<exists>r. k = p @ b # r \<and> isin c r))"
  proof cases
    case 3
    then have e: "prepend_into p b c = node_set_prefix c (p @ b # node_prefix c)" by (cases c) auto
    have sh: "shape_ok c" using 3 assms by (simp add: wf_inner)
    note P = set_prefix_ok[OF 3 sh, where q = "p @ b # node_prefix c"]
    show ?thesis
      using 3 sh assms by (auto simp: e wf_inner tame_inner P isin_inner)
  qed (use assms in auto)
  then show "wf_node (prepend_into p b c)" "tame lo hi (prepend_into p b c)"
    "isin (prepend_into p b c) k \<longleftrightarrow> (\<exists>r. k = p @ b # r \<and> isin c r)" by blast+
qed

text \<open>Shrinking keeps the key set.\<close>

lemma shrink_keeps:
  assumes nd: "is_inner nd" "wf_node nd" "tame 49 hi nd"
  obtains nd' where "node_maybe_shrink nd = Some nd'" "wf_node nd'" "tame 49 hi nd'"
    "\<forall>k. isin nd' k \<longleftrightarrow> isin nd k"
proof -
  have sh: "shape_ok nd" using nd by (simp add: wf_inner)
  note T = tame_innerD[OF nd(3,2,1)]
  show thesis
  proof (cases rule: shrink_ok[OF sh nd(1) T(1), case_names gone merged kept])
    case gone
    with that[of Empty] show thesis by (auto simp: isin_inner[OF nd(1)])
  next
    case (merged b c)
    then have c: "c = kid nd b" by simp
    have "b \<noteq> 0xFF" using T(3) merged(2,3) by auto
    note P = prepend_into_ok[OF _ _ T(2) this, of c]
    show thesis
      by (rule that[OF merged(1) P(1,2)])
        (use T(4)[of b] wf_innerD(2)[OF nd(2,1), of b] P(3)[of 49 hi] merged(3,4)
          in \<open>auto simp: isin_inner[OF nd(1)] split: if_splits\<close>)
  next
    case (kept nd')
    then have B: "is_inner nd'" "shape_ok nd'" "node_prefix nd' = node_prefix nd"
      "node_has_end nd' = node_has_end nd" "kid nd' = kid nd" by (auto simp: becomes_def)
    show thesis
      by (rule that[OF kept(1)])
        (use B kept T wf_innerD(2)[OF nd(2,1)] in
          \<open>auto simp: wf_inner tame_inner isin_inner[OF nd(1)] isin_inner[OF B(1)]\<close>)
  qed
qed

theorem remove_node_ok:
  assumes "wf_node nd" "tame 49 hi nd"
  shows "rem_ok hi nd key"
  using assms
proof (induction key arbitrary: nd rule: length_induct)
  case (1 key)
  note prems = "1.prems"
  consider "nd = Empty" | s where "nd = Leaf s" | "is_inner nd" by (cases nd) auto
  then show ?case
  proof cases
    case 1
    then show ?thesis by (simp add: rem_ok_def remove_node.simps)
  next
    case 2
    then show ?thesis using prems by (auto simp: rem_ok_def remove_node.simps)
  next
    case inner: 3
    have sh: "shape_ok nd" using inner prems(1) by (simp add: wf_inner)
    note T = tame_innerD[OF prems(2,1) inner]
    consider "common_prefix (node_prefix nd) key < length (node_prefix nd)" | "key = node_prefix nd"
      | b rest where "key = node_prefix nd @ b # rest"
      unfolding common_prefix_full[symmetric] by (metis append_Nil2 common_prefix_full neq_Nil_conv)
    then show ?thesis
    proof cases
      case 1
      then have "\<not> isin nd key" by (auto simp: isin_inner[OF inner])
      with 1 show ?thesis using prems by (auto simp: rem_ok_def remove_inner_simps(3)[OF inner])
    next
      case 2
      show ?thesis
      proof (cases "node_has_end nd")
        case True
        note E = set_has_end_ok[OF inner sh, where e = False]
        have w: "wf_node (node_set_has_end nd False)" "tame 49 hi (node_set_has_end nd False)"
          using wf_innerD(2)[OF prems(1) inner] T E by (simp_all add: wf_inner tame_inner)
        obtain nd' where "node_maybe_shrink (node_set_has_end nd False) = Some nd'" "wf_node nd'"
          "tame 49 hi nd'" "\<forall>k. isin nd' k \<longleftrightarrow> isin (node_set_has_end nd False) k"
          by (rule shrink_keeps[OF E(1) w])
        then show ?thesis
          using 2 True by (auto simp: rem_ok_def remove_inner_simps(1)[OF inner] isin_inner[OF inner]
              isin_inner[OF E(1)] E)
      next
        case False
        with 2 prems show ?thesis
          by (auto simp: rem_ok_def remove_inner_simps(1)[OF inner] isin_inner[OF inner])
      qed
    next
      case (3 b rest)
      have ik: "isin nd key \<longleftrightarrow> isin (kid nd b) rest" using 3 by (simp add: isin_inner[OF inner])
      note K = has_child_kid[OF sh inner]
      show ?thesis
      proof (cases "node_has_child nd b")
        case False
        then have "\<not> isin nd key" using ik K(1)[of b] by simp
        with False prems show ?thesis
          by (auto simp: rem_ok_def 3 remove_inner_simps(2)[OF inner])
      next
        case True
        have ne: "kid nd b \<noteq> Empty" using K(1) True by blast
        then have bff: "b \<noteq> 0xFF" using T(3) by auto
        have "length rest < length key" using 3 by simp
        then have "rem_ok hi (kid nd b) rest"
          using "1.IH" wf_innerD(2)[OF prems(1) inner] T(4) by blast
        then obtain c where c: "remove_node (kid nd b) rest = Some (c, isin nd key)"
          "wf_node c" "tame 49 hi c" "\<And>k. isin c k \<longleftrightarrow> k \<noteq> rest \<and> isin (kid nd b) k"
          "\<not> isin nd key \<Longrightarrow> c = kid nd b"
          by (auto simp: rem_ok_def ik)
        have step: "remove_node nd key =
            (if isin nd key \<and> c = Empty then map_option (\<lambda>x. (x, True))
                   (node_maybe_shrink (node_del_child (node_put_child nd b Empty) b))
             else Some (node_put_child nd b c, isin nd key))"
          using c(1) K(2)[OF True] True child_is_empty_put[OF sh inner True]
          by (simp add: 3 remove_inner_simps(2)[OF inner])
        have upd: "(if \<exists>r. k = node_prefix nd @ b # r
            then (\<lambda>r. r \<noteq> rest \<and> isin (kid nd b) r) (drop (length (node_prefix nd) + 1) k)
            else isin nd k) \<longleftrightarrow> k \<noteq> key \<and> isin nd k" for k
          by (auto simp: 3 isin_inner[OF inner])
        show ?thesis
        proof (cases "c = Empty")
          case True': True
          then have isk: "isin nd key" using c(5) ne by metis
          note U = del_child_ok[OF sh inner True] and ct = del_child_ok(2)[OF sh inner True T(1)]
          let ?d = "node_del_child (node_put_child nd b Empty) b"
          have inn: "is_inner ?d" using U(1) by (simp add: becomes_def)
          have W: "wf_node ?d" "tame 49 hi ?d"
            using upd_ok[OF inner prems(1,2) U(1) ct order_refl _ _ bff] by simp_all
          obtain nd' where "node_maybe_shrink ?d = Some nd'" "wf_node nd'"
            "tame 49 hi nd'" "\<forall>k. isin nd' k \<longleftrightarrow> isin ?d k"
            by (rule shrink_keeps[OF inn W])
          moreover have "isin ?d k \<longleftrightarrow> k \<noteq> key \<and> isin nd k" for k
            unfolding isin_upd[OF inner U(1) c(4)[unfolded True']] by (rule upd)
          ultimately show ?thesis
            using True' isk step by (auto simp: rem_ok_def)
        next
          case False
          note U = put_child_ok[OF sh inner True False]
          have ct: "count_here 49 hi (node_put_child nd b c)" using U(2) T(1) by simp
          have W: "wf_node (node_put_child nd b c)" "tame 49 hi (node_put_child nd b c)"
            using upd_ok[OF inner prems(1,2) U(1) ct order_refl c(2,3) bff] .
          have i: "isin (node_put_child nd b c) k \<longleftrightarrow> k \<noteq> key \<and> isin nd k" for k
            unfolding isin_upd[OF inner U(1) c(4)] by (rule upd)
          have "node_put_child nd b c = nd" if "\<not> isin nd key"
          proof -
            obtain j where j: "node_child_pos nd b = Some j" using True by (auto simp: node_has_child_def)
            have "c = kid nd b" using c(5) that by blast
            with j K(2)[OF True] have "node_children nd ! j = c" "j < length (node_children nd)"
              by (auto simp: node_child_def split: if_splits)
            with j inner show ?thesis by (cases nd) (auto simp: node_put_child_def)
          qed
          with W i False step show ?thesis by (auto simp: rem_ok_def)
        qed
      qed
    qed
  qed
qed

end
