(* ===== verification/ArtIter.thy ===== *)
theory ArtIter
  imports ArtRemove
begin

text \<open>
  The depth-first collection: on a well-formed tree it does not panic and lists the key set in
  strictly ascending lexicographic order.
\<close>

lemma sorted_enumerate: "sorted_wrt (\<lambda>x y. fst x < fst y) (enumerate m xs)"
  by (induction xs arbitrary: m) (auto simp: in_set_enumerate_eq)

lemma sorted_bytes:
  assumes "sorted_wrt (\<lambda>x y. fst x < fst y) es" "\<And>x. x \<in> set es \<Longrightarrow> fst x < (256::nat)"
  shows "sorted_wrt (\<lambda>x y. fst x < fst y) (map (\<lambda>x. (of_nat (fst x) :: byte, f x)) es)"
  unfolding sorted_wrt_map
  by (rule sorted_wrt_mono_rel[OF _ assms(1)])
    (simp add: word_less_nat_alt unat_of_nat_byte_small[OF assms(2)])

definition entries_ok :: "node \<Rightarrow> (byte \<times> node) list \<Rightarrow> bool" where
  "entries_ok nd es \<longleftrightarrow> node_entries nd = Some es \<and> sorted_wrt (\<lambda>x y. fst x < fst y) es \<and>
     (\<forall>b c. (b, c) \<in> set es \<longrightarrow> kid nd b = c) \<and>
     (\<forall>b. kid nd b \<noteq> Empty \<longrightarrow> (b, kid nd b) \<in> set es)"

lemma small_entries:
  assumes ok: "small_ok cap n ks cs"
  shows "sorted_wrt (\<lambda>x y. fst x < fst y) (zip (take n ks) (take n cs))"
    "(b, c) \<in> set (zip (take n ks) (take n cs)) \<Longrightarrow> skid n ks cs b = c"
    "skid n ks cs b \<noteq> Empty \<Longrightarrow> (b, skid n ks cs b) \<in> set (zip (take n ks) (take n cs))"
proof -
  have len: "length ks = cap" "length cs = cap" "n \<le> cap" using ok by (auto simp: small_ok_def)
  show "sorted_wrt (\<lambda>x y. fst x < fst y) (zip (take n ks) (take n cs))"
    using small_sorted[OF ok] len by (simp add: sorted_wrt_iff_nth_less)
  show "skid n ks cs b = c" if "(b, c) \<in> set (zip (take n ks) (take n cs))"
    using that len skid_nth[OF ok] by (auto simp: in_set_zip)
  show "(b, skid n ks cs b) \<in> set (zip (take n ks) (take n cs))" if ne: "skid n ks cs b \<noteq> Empty"
  proof -
    obtain i where "i < n" "ks ! i = b" using ne skid_Empty_iff[OF ok] by blast
    then show ?thesis using len skid_nth[OF ok, of i] by (auto simp: in_set_zip intro!: exI[of _ i])
  qed
qed

lemma n48_entries:
  assumes ok: "n48_ok n ix cs"
  defines "es \<equiv> map (\<lambda>(b, s). (of_nat b :: byte, cs ! unat s)) (filter (\<lambda>(b, s). s \<noteq> n48_nil) (enumerate 0 ix))"
  shows "sorted_wrt (\<lambda>x y. fst x < fst y) es" "(b, c) \<in> set es \<Longrightarrow> k48 ix cs b = c"
    "k48 ix cs b \<noteq> Empty \<Longrightarrow> (b, k48 ix cs b) \<in> set es"
proof -
  note D = n48_okD[OF ok]
  let ?xs = "filter (\<lambda>(b, s). s \<noteq> n48_nil) (enumerate 0 ix)"
  have e: "es = map (\<lambda>x. (of_nat (fst x) :: byte, cs ! unat (snd x))) ?xs"
    by (simp add: es_def case_prod_beta')
  show "sorted_wrt (\<lambda>x y. fst x < fst y) es"
    unfolding e by (rule sorted_bytes)
      (auto intro: sorted_wrt_filter sorted_enumerate simp: in_set_enumerate_eq D(1))
  show "k48 ix cs b = c" if "(b, c) \<in> set es"
    using that D(1) by (auto simp: e k48_def in_set_enumerate_eq)
  show "(b, k48 ix cs b) \<in> set es" if "k48 ix cs b \<noteq> Empty"
    using that D(1) by (auto simp: e k48_def in_set_enumerate_eq image_iff split: if_splits
        intro!: exI[of _ "unat b"] bexI[of _ "(unat b, ix ! unat b)"])
qed

lemma n256_entries:
  assumes ok: "length cs = 256"
  defines "es \<equiv> map (\<lambda>(b, c). (of_nat b :: byte, c)) (enumerate 0 cs)"
  shows "sorted_wrt (\<lambda>x y. fst x < fst y) es" "(b, c) \<in> set es \<Longrightarrow> k256 cs b = c"
    "(b, k256 cs b) \<in> set es"
proof -
  have e: "es = map (\<lambda>x. (of_nat (fst x) :: byte, snd x)) (enumerate 0 cs)"
    by (simp add: es_def case_prod_beta')
  show "sorted_wrt (\<lambda>x y. fst x < fst y) es"
    unfolding e by (rule sorted_bytes) (auto intro: sorted_enumerate simp: in_set_enumerate_eq ok)
  show "k256 cs b = c" if "(b, c) \<in> set es"
    using that ok by (auto simp: e k256_def in_set_enumerate_eq)
  show "(b, k256 cs b) \<in> set es"
    using ok by (auto simp: e k256_def in_set_enumerate_eq image_iff
        intro!: bexI[of _ "(unat b, cs ! unat b)"])
qed

lemma entries_exist:
  assumes ok: "shape_ok nd" "is_inner nd"
  obtains es where "entries_ok nd es"
proof (cases nd)
  case (N4 p h n ks cs)
  with ok have s: "small_ok 4 n ks cs" by simp
  show thesis by (rule that[of "zip (take n ks) (take n cs)"])
      (use N4 s small_entries[OF s] in \<open>simp add: entries_ok_def\<close>)
next
  case (N16 p h n ks cs)
  with ok have s: "small_ok 16 n ks cs" by simp
  show thesis by (rule that[of "zip (take n ks) (take n cs)"])
      (use N16 s small_entries[OF s] in \<open>simp add: entries_ok_def\<close>)
next
  case (N48 p h n ix cs)
  with ok have s: "n48_ok n ix cs" by simp
  have "\<forall>s \<in> set ix. s = n48_nil \<or> unat s < length cs"
    using n48_okD(2,3)[OF s] by (simp add: idx_in_range_def)
  then show thesis
    by (intro that[of "map (\<lambda>(b, s). (of_nat b, cs ! unat s)) (filter (\<lambda>(b, s). s \<noteq> n48_nil) (enumerate 0 ix))"])
      (use N48 s n48_entries[OF s] in \<open>simp add: entries_ok_def\<close>)
next
  case (N256 p h n cs)
  with ok have s: "n256_ok n cs" "length cs = 256" by (simp_all add: n256_ok_def)
  show thesis by (rule that[of "map (\<lambda>(b, c). (of_nat b, c)) (enumerate 0 cs)"])
      (use N256 s n256_entries[OF s(2)] in \<open>simp add: entries_ok_def\<close>)
qed (use ok in auto)

lemma those_map_Some: "(\<And>x. x \<in> set xs \<Longrightarrow> f x = Some (g x)) \<Longrightarrow> those (map f xs) = Some (map g xs)"
  by (induction xs) auto

lemma collect_inner:
  assumes "is_inner nd"
  shows "collect_all path nd =
    (case node_entries nd of
       None \<Rightarrow> None
     | Some es \<Rightarrow>
         map_option (\<lambda>kss. (if node_has_end nd then [path @ node_prefix nd] else []) @ concat kss)
           (those (map (\<lambda>(b, c). collect_all ((path @ node_prefix nd) @ [b]) c) es)))"
  using assms by (cases nd) (simp_all only: is_inner.simps collect_all.simps[of _ "N4 _ _ _ _ _"]
      collect_all.simps[of _ "N16 _ _ _ _ _"] collect_all.simps[of _ "N48 _ _ _ _ _"]
      collect_all.simps[of _ "N256 _ _ _ _"] node.case Let_def)

lemma less_append_Cons: "(xs :: byte list) < xs @ y # ys"
  by (induction xs) auto

text \<open>The keys of the children, in order, form an ascending list.\<close>

lemma sorted_children:
  assumes "sorted_wrt (\<lambda>x y. fst x < fst y) (es :: (byte \<times> node) list)"
    and "\<And>b c. (b, c) \<in> set es \<Longrightarrow> sorted_wrt (<) (K c)"
  shows "sorted_wrt (<) (concat (map (\<lambda>(b, c). map (\<lambda>k. p @ b # k) (K c)) es))"
  using assms
proof (induction es)
  case Nil
  then show ?case by simp
next
  case (Cons e es)
  obtain b c where e: "e = (b, c)" by (cases e)
  have "sorted_wrt (<) (map (\<lambda>k. p @ b # k) (K c))"
    using Cons.prems(2)[of b c] e by (auto simp: sorted_wrt_map elim!: sorted_wrt_mono_rel[rotated])
  moreover have "x < y" if "x \<in> set (map (\<lambda>k. p @ b # k) (K c))"
    "y \<in> set (concat (map (\<lambda>(b, c). map (\<lambda>k. p @ b # k) (K c)) es))" for x y
    using that Cons.prems(1) e by auto
  moreover have "sorted_wrt (<) (concat (map (\<lambda>(b, c). map (\<lambda>k. p @ b # k) (K c)) es))"
    by (rule Cons.IH) (use Cons.prems in auto)
  ultimately show ?case
    unfolding e list.map concat.simps prod.case sorted_wrt_append by blast
qed

theorem collect_all_ok:
  assumes "wf_node nd"
  shows "\<exists>ks. (\<forall>path. collect_all path nd = Some (map ((@) path) ks)) \<and> sorted_wrt (<) ks \<and>
    set ks = {k. isin nd k}"
  using assms
proof (induction nd rule: measure_induct_rule[of size])
  case (less nd)
  consider "nd = Empty" | s where "nd = Leaf s" | "is_inner nd" by (cases nd) auto
  then show ?case
  proof cases
    case 1
    then show ?thesis by (auto simp: collect_all.simps)
  next
    case 2
    then show ?thesis by (auto simp: collect_all.simps intro!: exI[of _ "[s]" for s])
  next
    case inner: 3
    have sh: "shape_ok nd" using inner less.prems by (simp add: wf_inner)
    obtain es where es: "entries_ok nd es" by (rule entries_exist[OF sh inner])
    then have E: "node_entries nd = Some es" "sorted_wrt (\<lambda>x y. fst x < fst y) es"
      "\<And>b c. (b, c) \<in> set es \<Longrightarrow> kid nd b = c" "\<And>b. kid nd b \<noteq> Empty \<Longrightarrow> (b, kid nd b) \<in> set es"
      by (auto simp: entries_ok_def)
    have "\<forall>c \<in> snd ` set es. \<exists>ks. (\<forall>path. collect_all path c = Some (map ((@) path) ks)) \<and>
        sorted_wrt (<) ks \<and> set ks = {k. isin c k}"
    proof
      fix c assume "c \<in> snd ` set es"
      then obtain b where b: "(b, c) \<in> set es" by auto
      have "wf_node c" using wf_innerD(2)[OF less.prems inner, of b] E(3)[OF b] by simp
      then show "\<exists>ks. (\<forall>path. collect_all path c = Some (map ((@) path) ks)) \<and>
          sorted_wrt (<) ks \<and> set ks = {k. isin c k}"
        using less.IH entries_size[OF E(1) b] by blast
    qed
    from bchoice[OF this] obtain K where K: "\<And>b c path. (b, c) \<in> set es \<Longrightarrow>
        collect_all path c = Some (map ((@) path) (K c))"
      "\<And>b c. (b, c) \<in> set es \<Longrightarrow> sorted_wrt (<) (K c)"
      "\<And>b c. (b, c) \<in> set es \<Longrightarrow> set (K c) = {k. isin c k}"
      by (force simp: image_iff)
    define p where "p = node_prefix nd"
    define ks where "ks = (if node_has_end nd then [p] else []) @
        concat (map (\<lambda>(b, c). map (\<lambda>k. p @ b # k) (K c)) es)"
    have "collect_all path nd = Some (map ((@) path) ks)" for path
    proof -
      have "those (map (\<lambda>(b, c). collect_all ((path @ node_prefix nd) @ [b]) c) es) =
          Some (map (\<lambda>(b, c). map (\<lambda>k. path @ p @ b # k) (K c)) es)"
        by (rule those_map_Some) (auto simp: K(1) p_def)
      then show ?thesis
        by (simp add: collect_inner[OF inner] E(1) ks_def p_def[symmetric] map_concat comp_def case_prod_beta')
    qed
    moreover have "sorted_wrt (<) ks"
      using sorted_children[OF E(2), of K p] K(2) less_append_Cons[of p]
      by (auto simp: ks_def sorted_wrt_append)
    moreover have "k \<in> set ks \<longleftrightarrow> isin nd k" for k
    proof -
      have "k \<in> set ks \<longleftrightarrow> (k = p \<and> node_has_end nd) \<or>
          (\<exists>b c. (b, c) \<in> set es \<and> (\<exists>r. k = p @ b # r \<and> isin c r))"
        using K(3) by (force simp: ks_def)
      also have "\<dots> \<longleftrightarrow> isin nd k"
        unfolding isin_inner[OF inner] p_def[symmetric] using E(3,4) by (metis isin_Empty)
      finally show ?thesis .
    qed
    ultimately show ?thesis by (intro exI[of _ ks]) auto
  qed
qed

end
