(* ===== verification/IndexSet.thy ===== *)
theory IndexSet
  imports ArtIter
begin

text \<open>
  The contract of \<open>IndexTree\<close> as an ordered set of byte strings, as a locale the tree is an
  interpretation of, and what follows from the contract for whole histories of insertions and
  removals and for the range scans.
\<close>

subsection \<open>The contract\<close>

datatype set_op = Ins bytes | Del bytes

fun apply_op :: "set_op \<Rightarrow> bytes set \<Rightarrow> bytes set" where
  "apply_op (Ins k) S = insert k S"
| "apply_op (Del k) S = S - {k}"

fun op_key :: "set_op \<Rightarrow> bytes" where
  "op_key (Ins k) = k"
| "op_key (Del k) = k"

fun run_ops :: "('s \<Rightarrow> bytes \<Rightarrow> ('s \<times> bool) option) \<Rightarrow> ('s \<Rightarrow> bytes \<Rightarrow> ('s \<times> bool) option) \<Rightarrow>
    set_op list \<Rightarrow> 's \<Rightarrow> 's option" where
  "run_ops ins del [] s = Some s"
| "run_ops ins del (Ins k # ops) s = Option.bind (ins s k) (\<lambda>(s', _). run_ops ins del ops s')"
| "run_ops ins del (Del k # ops) s = Option.bind (del s k) (\<lambda>(s', _). run_ops ins del ops s')"

locale key_set =
  fixes empty :: "'s"
    and ins :: "'s \<Rightarrow> bytes \<Rightarrow> ('s \<times> bool) option"
    and del :: "'s \<Rightarrow> bytes \<Rightarrow> ('s \<times> bool) option"
    and members :: "'s \<Rightarrow> bytes list option"
    and size_of :: "'s \<Rightarrow> nat"
    and keys :: "'s \<Rightarrow> bytes set"
    and inv :: "nat \<Rightarrow> 's \<Rightarrow> bool"
    and okay :: "bytes \<Rightarrow> bool"
    and limit :: nat
  assumes empty_inv: "inv 0 empty" and empty_keys: "keys empty = {}"
    and ins_spec: "inv n s \<Longrightarrow> n < limit \<Longrightarrow> okay k \<Longrightarrow>
      \<exists>s'. ins s k = Some (s', k \<notin> keys s) \<and> inv (Suc n) s' \<and> keys s' = insert k (keys s)"
    and del_spec: "inv n s \<Longrightarrow> n < limit \<Longrightarrow>
      \<exists>s'. del s k = Some (s', k \<in> keys s) \<and> inv (Suc n) s' \<and> keys s' = keys s - {k}"
    and members_spec: "inv n s \<Longrightarrow> members s = Some (sorted_list_of_set (keys s))"
    and size_spec: "inv n s \<Longrightarrow> size_of s = card (keys s)"
begin

lemma run_spec:
  assumes "inv n s" "n + length ops \<le> limit" "\<And>k. Ins k \<in> set ops \<Longrightarrow> okay k"
  shows "\<exists>s'. run_ops ins del ops s = Some s' \<and> inv (n + length ops) s' \<and>
    keys s' = fold apply_op ops (keys s)"
  using assms
proof (induction ops arbitrary: n s)
  case Nil
  then show ?case by simp
next
  case (Cons x ops)
  show ?case
  proof (cases x)
    case (Ins k)
    with Cons.prems obtain s' where s': "ins s k = Some (s', k \<notin> keys s)" "inv (Suc n) s'"
      "keys s' = insert k (keys s)" using ins_spec[of n s k] by auto
    obtain s'' where "run_ops ins del ops s' = Some s''" "inv (Suc n + length ops) s''"
      "keys s'' = fold apply_op ops (keys s')"
      using Cons.IH[OF s'(2)] Cons.prems by auto
    with Ins s' show ?thesis by auto
  next
    case (Del k)
    with Cons.prems obtain s' where s': "del s k = Some (s', k \<in> keys s)" "inv (Suc n) s'"
      "keys s' = keys s - {k}" using del_spec[of n s k] by auto
    obtain s'' where "run_ops ins del ops s' = Some s''" "inv (Suc n + length ops) s''"
      "keys s'' = fold apply_op ops (keys s')"
      using Cons.IH[OF s'(2)] Cons.prems by auto
    with Del s' show ?thesis by auto
  qed
qed

lemma run_members:
  assumes "length ops \<le> limit" "\<And>k. Ins k \<in> set ops \<Longrightarrow> okay k"
  shows "\<exists>s. run_ops ins del ops empty = Some s \<and>
    members s = Some (sorted_list_of_set (fold apply_op ops {})) \<and>
    size_of s = card (fold apply_op ops {})"
  using run_spec[OF empty_inv, of ops] assms members_spec size_spec empty_keys by auto

end

subsection \<open>The tree provides it\<close>

definition keys_of :: "index_tree \<Rightarrow> bytes set" where
  "keys_of t = {k. isin (root t) k}"

definition tree_inv :: "nat \<Rightarrow> index_tree \<Rightarrow> bool" where
  "tree_inv n t \<longleftrightarrow> wf_node (root t) \<and> tame 49 (49 + n) (root t) \<and> len t = card (keys_of t)"

definition ff_free :: "bytes \<Rightarrow> bool" where
  "ff_free k \<longleftrightarrow> 0xFF \<notin> set k"

lemma collect_members:
  assumes "wf_node (root t)"
  shows "finite (keys_of t)" "collect_all [] (root t) = Some (sorted_list_of_set (keys_of t))"
proof -
  obtain ks where ks: "collect_all [] (root t) = Some ks" "sorted_wrt (<) ks" "set ks = keys_of t"
    using collect_all_ok[OF assms] by (auto simp: keys_of_def map_idI)
  then show "finite (keys_of t)" by (metis List.finite_set)
  have "sorted_list_of_set (set ks) = ks"
    using ks(2) by (metis strict_sorted_equal sorted_list_of_set(1) strict_sorted_list_of_set
        List.finite_set)
  with ks show "collect_all [] (root t) = Some (sorted_list_of_set (keys_of t))" by simp
qed

lemma tree_insert_ok:
  assumes t: "wf_node (root t)" "tame lo hi (root t)" "len t = card (keys_of t)"
    and b: "lo \<le> 49" "48 \<le> hi" "hi < 65535" "ff_free k"
  obtains t' where "tree_insert t k = Some (t', k \<notin> keys_of t)" "wf_node (root t')"
    "tame lo (Suc hi) (root t')" "len t' = card (keys_of t')" "keys_of t' = insert k (keys_of t)"
proof -
  have "ins_ok lo hi (root t) k" using insert_node_ok t b by (simp add: ff_free_def)
  then obtain nd' where nd': "insert_node (root t) k = Some (nd', \<not> isin (root t) k)" "wf_node nd'"
    "tame lo (Suc hi) nd'" "\<forall>j. isin nd' j \<longleftrightarrow> j = k \<or> isin (root t) j"
    by (auto simp: ins_ok_def)
  define t' where "t' = (if isin (root t) k then t\<lparr>root := nd'\<rparr> else \<lparr>root = nd', len = len t + 1\<rparr>)"
  have e: "tree_insert t k = Some (t', k \<notin> keys_of t)"
    using nd'(1) by (simp add: tree_insert_def t'_def keys_of_def)
  have r: "root t' = nd'" by (simp add: t'_def)
  have k: "keys_of t' = insert k (keys_of t)" using nd'(4) by (auto simp: keys_of_def r)
  have "len t' = card (keys_of t')"
    unfolding k using t(3) collect_members(1)[OF t(1)]
    by (auto simp: t'_def keys_of_def insert_absorb)
  with that e r k nd' show thesis by blast
qed

lemma tree_remove_ok:
  assumes t: "wf_node (root t)" "tame 49 hi (root t)" "len t = card (keys_of t)"
  obtains t' where "tree_remove t k = Some (t', k \<in> keys_of t)" "wf_node (root t')"
    "tame 49 hi (root t')" "len t' = card (keys_of t')" "keys_of t' = keys_of t - {k}"
proof -
  have "rem_ok hi (root t) k" using remove_node_ok t by simp
  then obtain nd' where nd': "remove_node (root t) k = Some (nd', isin (root t) k)" "wf_node nd'"
    "tame 49 hi nd'" "\<forall>j. isin nd' j \<longleftrightarrow> j \<noteq> k \<and> isin (root t) j"
    by (auto simp: rem_ok_def)
  define t' where "t' = (if isin (root t) k then \<lparr>root = nd', len = len t - 1\<rparr> else t\<lparr>root := nd'\<rparr>)"
  have e: "tree_remove t k = Some (t', k \<in> keys_of t)"
    using nd'(1) by (simp add: tree_remove_def t'_def keys_of_def)
  have r: "root t' = nd'" by (simp add: t'_def)
  have k: "keys_of t' = keys_of t - {k}" using nd'(4) by (auto simp: keys_of_def r)
  have "len t' = card (keys_of t')"
    unfolding k using t(3) collect_members(1)[OF t(1)]
    by (auto simp: t'_def keys_of_def card_Diff_singleton_if)
  with that e r k nd' show thesis by blast
qed

lemma tame_next: "tame 49 (49 + n) nd \<Longrightarrow> tame 49 (50 + n) nd"
  by (erule tame_mono) simp_all

interpretation tree: key_set tree_new tree_insert tree_remove "\<lambda>t. collect_all [] (root t)" len
  keys_of tree_inv ff_free 65000
proof unfold_locales
  show "tree_inv 0 tree_new" "keys_of tree_new = {}"
    by (simp_all add: tree_inv_def tree_new_def keys_of_def)
  show "\<exists>s'. tree_insert s k = Some (s', k \<notin> keys_of s) \<and> tree_inv (Suc n) s' \<and>
      keys_of s' = insert k (keys_of s)"
    if "tree_inv n s" "n < 65000" "ff_free k" for n s k
    using that by (auto simp: tree_inv_def elim!: tree_insert_ok[of s 49 "49 + n" k])
  show "\<exists>s'. tree_remove s k = Some (s', k \<in> keys_of s) \<and> tree_inv (Suc n) s' \<and>
      keys_of s' = keys_of s - {k}"
    if "tree_inv n s" "n < 65000" for n s k
    using that by (auto simp: tree_inv_def intro: tame_next
        elim!: tree_remove_ok[of s "49 + n" k])
  show "collect_all [] (root s) = Some (sorted_list_of_set (keys_of s))" if "tree_inv n s" for n s
    using that collect_members(2) by (simp add: tree_inv_def)
  show "len s = card (keys_of s)" if "tree_inv n s" for n s
    using that by (simp add: tree_inv_def)
qed

lemma tree_filtered_Some:
  "collect_all [] (root t) = Some ks \<Longrightarrow> tree_filtered t P = Some (filter P ks)"
  by (simp add: tree_filtered_def)

subsection \<open>Histories of a tree\<close>



end
