(* ===== verification/ArtSer.thy ===== *)
theory ArtSer
  imports IndexSet
begin

text \<open>
  The byte encoding of the index tree: \<open>ser_node\<close>/\<open>to_bytes\<close> and \<open>de_node\<close>/\<open>from_bytes\<close>. A
  decoder takes the bytes from the current position on and returns the rest, so a position of
  the source is the number of bytes already dropped. A \<open>None\<close> of the encoder is the failing
  assertion on the prefix length, or a count past the child array.
\<close>

subsection \<open>Encoding\<close>

definition ser_pfx :: "bytes \<Rightarrow> bool \<Rightarrow> bytes option" where
  "ser_pfx pfx has_end =
     (if length pfx \<le> 255
      then Some (of_nat (length pfx) # pfx @ [if has_end then 1 else 0]) else None)"

definition u16_len :: "bytes \<Rightarrow> bytes" where
  "u16_len sfx = be_bytes 2 (length sfx mod 2 ^ 16)"

definition ser_keyed :: "byte \<Rightarrow> bytes \<Rightarrow> bool \<Rightarrow> nat \<Rightarrow> bytes \<Rightarrow> bytes option list \<Rightarrow> bytes option" where
  "ser_keyed tag p h n ks xs =
     Option.bind (ser_pfx p h) (\<lambda>hdr. Option.bind (those (take n xs)) (\<lambda>ys.
       if n \<le> length xs
       then Some (tag # hdr @ of_nat n # concat (map (\<lambda>(k, y). k # y) (zip (take n ks) ys)))
       else None))"

fun ser_node :: "node \<Rightarrow> bytes option" where
  "ser_node Empty = Some [0x00]"
| "ser_node (Leaf sfx) = Some (0x01 # u16_len sfx @ sfx)"
| "ser_node (N4 p h n ks cs) = ser_keyed 0x02 p h n ks (map ser_node cs)"
| "ser_node (N16 p h n ks cs) = ser_keyed 0x03 p h n ks (map ser_node cs)"
| "ser_node (N48 p h n ix cs) =
     Option.bind (ser_pfx p h) (\<lambda>hdr. Option.bind (those (take n (map ser_node cs))) (\<lambda>ys.
       if n \<le> length cs then Some (0x04 # hdr @ of_nat n # ix @ concat ys) else None))"
| "ser_node (N256 p h n cs) =
     Option.bind (ser_pfx p h) (\<lambda>hdr. Option.bind (those (map ser_node cs)) (\<lambda>ys.
       Some (0x05 # hdr @ concat ys)))"

definition to_bytes :: "index_tree \<Rightarrow> bytes option" where
  "to_bytes t = map_option (\<lambda>b. be_bytes 4 (len t mod 2 ^ 32) @ b) (ser_node (root t))"

subsection \<open>Decoding\<close>

datatype index_error =
    TooShort nat
  | TruncatedTag
  | TruncatedAt string
  | TruncatedLeaf
  | TruncatedPrefix
  | TruncatedIndex
  | TooManyChildren byte nat
  | UnknownTag byte
  | TrailingBytes nat

definition u8_at :: "string \<Rightarrow> bytes \<Rightarrow> index_error + byte \<times> bytes" where
  "u8_at ctx bs = (case bs of [] \<Rightarrow> Inl (TruncatedAt ctx) | b # r \<Rightarrow> Inr (b, r))"

definition u16_at :: "string \<Rightarrow> bytes \<Rightarrow> index_error + nat \<times> bytes" where
  "u16_at ctx bs = (if length bs < 2 then Inl (TruncatedAt ctx) else Inr (be_val (take 2 bs), drop 2 bs))"

definition de_pfx :: "bytes \<Rightarrow> index_error + (bytes \<times> bool) \<times> bytes" where
  "de_pfx bs =
     (case u8_at ''pfx_len'' bs of
        Inl e \<Rightarrow> Inl e
      | Inr (pl, r) \<Rightarrow>
          let n = unat pl
          in if length r < n + 1 then Inl TruncatedPrefix
             else Inr ((take n r, r ! n \<noteq> 0), drop (n + 1) r))"

lemma de_pfx_length: "de_pfx bs = Inr (x, r) \<Longrightarrow> length r < length bs"
  by (auto simp: de_pfx_def u8_at_def Let_def split: list.splits if_splits)

function (sequential) de_node :: "bytes \<Rightarrow> index_error + node \<times> bytes"
  and de_kids :: "bool \<Rightarrow> nat \<Rightarrow> bytes \<Rightarrow> index_error + (byte \<times> node) list \<times> bytes" where
  "de_node [] = Inl TruncatedTag"
| "de_node (tag # bs) =
     (if tag = 0x00 then Inr (Empty, bs)
      else if tag = 0x01 then
        (case u16_at ''Leaf len'' bs of
           Inl e \<Rightarrow> Inl e
         | Inr (n, r) \<Rightarrow> if length r < n then Inl TruncatedLeaf else Inr (Leaf (take n r), drop n r))
      else if tag = 0x02 \<or> tag = 0x03 then
        (case de_pfx bs of
           Inl e \<Rightarrow> Inl e
         | Inr ((p, h), r) \<Rightarrow>
             (case u8_at ''n'' r of
                Inl e \<Rightarrow> Inl e
              | Inr (nb, r') \<Rightarrow>
                  let n = unat nb; limit = (if tag = 0x02 then 4 else 16)
                  in if n > limit then Inl (TooManyChildren tag n)
                     else
                       (case de_kids True n r' of
                          Inl e \<Rightarrow> Inl e
                        | Inr (kids, r'') \<Rightarrow>
                            let ks = map fst kids @ replicate (limit - n) 0;
                                cs = map snd kids @ replicate (limit - n) Empty
                            in Inr (if tag = 0x02 then N4 p h n ks cs else N16 p h n ks cs, r''))))
      else if tag = 0x04 then
        (case de_pfx bs of
           Inl e \<Rightarrow> Inl e
         | Inr ((p, h), r) \<Rightarrow>
             (case u8_at ''N48 n'' r of
                Inl e \<Rightarrow> Inl e
              | Inr (nb, r') \<Rightarrow>
                  if length r' < 256 then Inl TruncatedIndex
                  else
                    let m = min (unat nb) 48
                    in (case de_kids False m (drop 256 r') of
                          Inl e \<Rightarrow> Inl e
                        | Inr (kids, r'') \<Rightarrow>
                            Inr (N48 p h (unat nb) (take 256 r')
                                   (map snd kids @ replicate (48 - m) Empty), r''))))
      else if tag = 0x05 then
        (case de_pfx bs of
           Inl e \<Rightarrow> Inl e
         | Inr ((p, h), r) \<Rightarrow>
             (case de_kids False 256 r of
                Inl e \<Rightarrow> Inl e
              | Inr (kids, r') \<Rightarrow>
                  Inr (N256 p h (length (filter (\<lambda>c. c \<noteq> Empty) (map snd kids))) (map snd kids), r')))
      else Inl (UnknownTag tag))"
| "de_kids keyed 0 bs = Inr ([], bs)"
| "de_kids keyed (Suc n) bs =
     (case (if keyed then u8_at ''key'' bs else Inr (0, bs)) of
        Inl e \<Rightarrow> Inl e
      | Inr (k, r) \<Rightarrow>
          (case de_node r of
             Inl e \<Rightarrow> Inl e
           | Inr (nd, r') \<Rightarrow>
               (case de_kids keyed n r' of
                  Inl e \<Rightarrow> Inl e
                | Inr (kids, r'') \<Rightarrow> Inr ((k, nd) # kids, r''))))"
  by pat_completeness auto

lemma de_length:
  "de_node_de_kids_dom (Inl bs) \<Longrightarrow> (\<And>nd r. de_node bs = Inr (nd, r) \<Longrightarrow> length r < length bs)"
  "de_node_de_kids_dom (Inr (keyed, n, bs')) \<Longrightarrow>
    (\<And>ks r. de_kids keyed n bs' = Inr (ks, r) \<Longrightarrow> length r \<le> length bs')"
proof (induction bs and keyed n bs' rule: de_node_de_kids.pinduct)
  case 1
  then show ?case by (simp add: de_node.psimps)
next
  case (2 tag bs)
  show ?case
    using 2(2-) de_pfx_length[of bs]
    by (auto simp: de_node.psimps(2)[OF 2(1)] u16_at_def u8_at_def Let_def
        split: sum.splits list.splits if_splits) fastforce+
next
  case (3 keyed bs)
  then show ?case by (simp add: de_kids.psimps)
next
  case (4 keyed n bs)
  show ?case
    using 4(2-) by (auto simp: de_kids.psimps(2)[OF 4(1)] u8_at_def
        split: sum.splits list.splits if_splits) fastforce+
qed

termination de_node
proof (relation "inv_image (less_than <*lex*> less_than)
    (\<lambda>x. case x of Inl bs \<Rightarrow> (length bs, 0) | Inr (keyed, n, bs) \<Rightarrow> (length bs, Suc n))", goal_cases)
  case 1
  show ?case by (intro wf_inv_image wf_lex_prod wf_less_than)
qed (auto simp: u8_at_def dest!: de_pfx_length de_length(1) split: list.splits if_splits)

declare de_node.simps(2) [simp del]

definition from_bytes :: "bytes \<Rightarrow> index_error + index_tree" where
  "from_bytes data =
     (if length data < 4 then Inl (TooShort (length data))
      else
        (case de_node (drop 4 data) of
           Inl e \<Rightarrow> Inl e
         | Inr (nd, rest) \<Rightarrow>
             if rest \<noteq> [] then Inl (TrailingBytes (length rest))
             else Inr \<lparr>root = nd, len = be_val (take 4 data)\<rparr>))"

subsection \<open>Decoding an encoding\<close>

text \<open>
  \<open>storable\<close>: the lengths fit their fields. \<open>stored\<close>: what a round trip makes of a node; unused
  keys are cleared, an \<open>N48\<close> keeps only the first \<open>n\<close> slots, an \<open>N256\<close> gets its count afresh.
\<close>

fun storable :: "node \<Rightarrow> bool" where
  "storable Empty = True"
| "storable (Leaf s) = (length s < 2 ^ 16)"
| "storable (N4 p h n ks cs) = (length p \<le> 255 \<and> n \<le> 4 \<and> length ks = 4 \<and> length cs = 4 \<and>
     (\<forall>c \<in> set cs. storable c))"
| "storable (N16 p h n ks cs) = (length p \<le> 255 \<and> n \<le> 16 \<and> length ks = 16 \<and> length cs = 16 \<and>
     (\<forall>c \<in> set cs. storable c))"
| "storable (N48 p h n ix cs) = (length p \<le> 255 \<and> n \<le> 48 \<and> length ix = 256 \<and> length cs = 48 \<and>
     (\<forall>c \<in> set cs. storable c))"
| "storable (N256 p h n cs) = (length p \<le> 255 \<and> length cs = 256 \<and> (\<forall>c \<in> set cs. storable c))"

fun stored :: "node \<Rightarrow> node" where
  "stored (N4 p h n ks cs) =
     N4 p h n (take n ks @ replicate (4 - n) 0) (take n (map stored cs) @ replicate (4 - n) Empty)"
| "stored (N16 p h n ks cs) =
     N16 p h n (take n ks @ replicate (16 - n) 0) (take n (map stored cs) @ replicate (16 - n) Empty)"
| "stored (N48 p h n ix cs) = N48 p h n ix (take n (map stored cs) @ replicate (48 - n) Empty)"
| "stored (N256 p h n cs) =
     N256 p h (length (filter (\<lambda>c. c \<noteq> Empty) (map stored cs))) (map stored cs)"
| "stored nd = nd"

lemma stored_Empty [simp]: "stored nd = Empty \<longleftrightarrow> nd = Empty"
  by (cases nd) auto

lemma Empty_stored [simp]: "Empty = stored nd \<longleftrightarrow> nd = Empty"
  by (metis stored_Empty)

definition codec_ok :: "node \<Rightarrow> bool" where
  "codec_ok nd \<longleftrightarrow> (\<exists>bs. ser_node nd = Some bs \<and> (\<forall>rest. de_node (bs @ rest) = Inr (stored nd, rest)))"

lemma codec_kids:
  assumes "\<forall>c \<in> set cs. codec_ok c"
  obtains ys where "those (map ser_node cs) = Some ys" "length ys = length cs"
    "\<And>ks rest. length ks = length cs \<Longrightarrow>
      de_kids True (length cs) (concat (map (\<lambda>(k, y). k # y) (zip ks ys)) @ rest) =
        Inr (zip ks (map stored cs), rest)"
    "\<And>rest. de_kids False (length cs) (concat ys @ rest) =
        Inr (zip (replicate (length cs) 0) (map stored cs), rest)"
proof -
  have "\<exists>ys. those (map ser_node cs) = Some ys \<and> length ys = length cs \<and>
    (\<forall>ks rest. length ks = length cs \<longrightarrow>
      de_kids True (length cs) (concat (map (\<lambda>(k, y). k # y) (zip ks ys)) @ rest) =
        Inr (zip ks (map stored cs), rest)) \<and>
    (\<forall>rest. de_kids False (length cs) (concat ys @ rest) =
        Inr (zip (replicate (length cs) 0) (map stored cs), rest))"
    using assms
  proof (induction cs)
    case Nil
    then show ?case by simp
  next
    case (Cons c cs)
    then obtain ys where ys: "those (map ser_node cs) = Some ys" "length ys = length cs"
      "\<And>ks rest. length ks = length cs \<Longrightarrow>
        de_kids True (length cs) (concat (map (\<lambda>(k, y). k # y) (zip ks ys)) @ rest) =
          Inr (zip ks (map stored cs), rest)"
      "\<And>rest. de_kids False (length cs) (concat ys @ rest) =
          Inr (zip (replicate (length cs) 0) (map stored cs), rest)" by auto
    obtain b where b: "ser_node c = Some b" "\<And>rest. de_node (b @ rest) = Inr (stored c, rest)"
      using Cons.prems by (auto simp: codec_ok_def)
    have "de_kids True (length (c # cs)) (concat (map (\<lambda>(k, y). k # y) (zip ks (b # ys))) @ rest) =
          Inr (zip ks (map stored (c # cs)), rest)" if "length ks = length (c # cs)" for ks rest
      using that ys(3) by (cases ks) (simp_all add: u8_at_def b)
    with ys b show ?case by (intro exI[of _ "b # ys"]) simp
  qed
  then show thesis using that by blast
qed

lemma de_pfx_ser:
  "ser_pfx p h = Some hdr \<Longrightarrow> de_pfx (hdr @ rest) = Inr ((p, h), rest)"
  by (auto simp: ser_pfx_def de_pfx_def u8_at_def nth_append split: if_splits)

lemma codec_keyed:
  assumes kids: "\<forall>c \<in> set cs. codec_ok c" and n: "n \<le> cap" "length ks = cap" "length cs = cap" "cap \<le> 16"
    and p: "length p \<le> 255"
  obtains hdr bs where "ser_pfx p h = Some hdr"
    "ser_keyed tag p h n ks (map ser_node cs) = Some (tag # hdr @ of_nat n # bs)"
    "\<And>rest. de_kids True n (bs @ rest) = Inr (zip (take n ks) (take n (map stored cs)), rest)"
proof -
  obtain ys where ys: "those (map ser_node (take n cs)) = Some ys"
    "\<And>ks rest. length ks = length (take n cs) \<Longrightarrow>
      de_kids True (length (take n cs)) (concat (map (\<lambda>(k, y). k # y) (zip ks ys)) @ rest) =
        Inr (zip ks (map stored (take n cs)), rest)"
    using codec_kids[of "take n cs"] kids by (metis in_set_takeD)
  have l: "length (take n ks) = length (take n cs)" and ln: "length (take n cs) = n" using n by simp_all
  obtain hdr where hdr: "ser_pfx p h = Some hdr" using p by (simp add: ser_pfx_def)
  show thesis
    by (rule that[OF hdr _ ys(2)[OF l, unfolded ln, folded take_map]])
      (use ys(1) n hdr in \<open>simp add: ser_keyed_def take_map\<close>)
qed

theorem codec:
  assumes "storable nd"
  shows "codec_ok nd"
  using assms
proof (induction nd)
  case Empty
  then show ?case by (simp add: codec_ok_def de_node.simps(2))
next
  case (Leaf s)
  then have "be_val (u16_len s) = length s" "length (u16_len s) = 2"
    by (simp_all add: u16_len_def be_simps)
  then show ?case by (auto simp: codec_ok_def de_node.simps(2) u16_at_def)
next
  case (N4 p h n ks cs)
  then obtain hdr bs where "ser_pfx p h = Some hdr"
    "ser_keyed 0x02 p h n ks (map ser_node cs) = Some (0x02 # hdr @ of_nat n # bs)"
    "\<And>rest. de_kids True n (bs @ rest) = Inr (zip (take n ks) (take n (map stored cs)), rest)"
    using codec_keyed[of cs n 4 ks p h "0x02"] by auto
  moreover have "n \<le> 4" "length ks = 4" "length cs = 4" using N4.prems by auto
  ultimately show ?case
    by (auto simp: codec_ok_def de_node.simps(2) de_pfx_ser u8_at_def min_def)
next
  case (N16 p h n ks cs)
  then obtain hdr bs where "ser_pfx p h = Some hdr"
    "ser_keyed 0x03 p h n ks (map ser_node cs) = Some (0x03 # hdr @ of_nat n # bs)"
    "\<And>rest. de_kids True n (bs @ rest) = Inr (zip (take n ks) (take n (map stored cs)), rest)"
    using codec_keyed[of cs n 16 ks p h "0x03"] by auto
  moreover have "n \<le> 16" "length ks = 16" "length cs = 16" using N16.prems by auto
  ultimately show ?case
    by (auto simp: codec_ok_def de_node.simps(2) de_pfx_ser u8_at_def min_def)
next
  case (N48 p h n ix cs)
  then have n: "n \<le> 48" "length ix = 256" "length cs = 48" "length p \<le> 255" by auto
  obtain ys where ys: "those (map ser_node (take n cs)) = Some ys" "\<And>rest. de_kids False (length (take n cs)) (concat ys @ rest) =
        Inr (zip (replicate (length (take n cs)) 0) (map stored (take n cs)), rest)"
  proof -
    have "\<forall>c \<in> set (take n cs). codec_ok c" using N48 by (auto dest: in_set_takeD)
    then show ?thesis using that by (rule codec_kids)
  qed
  obtain hdr where hdr: "ser_pfx p h = Some hdr" using n by (simp add: ser_pfx_def)
  have "length (take n cs) = n" using n by simp
  with ys hdr n show ?case
    by (simp add: codec_ok_def de_node.simps(2) de_pfx_ser u8_at_def take_map min_def)
next
  case (N256 p h n cs)
  then have n: "length cs = 256" "length p \<le> 255" by auto
  obtain ys where ys: "those (map ser_node cs) = Some ys" "\<And>rest. de_kids False (length cs) (concat ys @ rest) =
        Inr (zip (replicate (length cs) 0) (map stored cs), rest)"
  proof -
    have "\<forall>c \<in> set cs. codec_ok c" using N256 by auto
    then show ?thesis using that by (rule codec_kids)
  qed
  obtain hdr where hdr: "ser_pfx p h = Some hdr" using n by (simp add: ser_pfx_def)
  have "map snd (zip (replicate 256 (0 :: byte)) (map stored cs)) = map stored cs"
    using n by simp
  with ys hdr n show ?case
    by (simp add: codec_ok_def de_node.simps(2) de_pfx_ser del: length_filter_map map_snd_zip)
qed

end
