(* ===== verification/IndexStore.thy ===== *)
theory IndexStore
  imports ArtSer
begin

text \<open>
  The stored form of the index tree: which trees survive \<open>to_bytes\<close> and \<open>from_bytes\<close>, and the
  four situations in which the tree does not behave as a set. A tree is \<open>packed\<close> when every
  \<open>N48\<close> has its children in its first \<open>n\<close> slots.
\<close>

fun packed :: "node \<Rightarrow> bool" where
  "packed (N4 p h n ks cs) = (\<forall>c \<in> set cs. packed c)"
| "packed (N16 p h n ks cs) = (\<forall>c \<in> set cs. packed c)"
| "packed (N48 p h n ix cs) =
     ((\<forall>i<48. cs ! i \<noteq> Empty \<longrightarrow> i < n) \<and> (\<forall>c \<in> set cs. packed c))"
| "packed (N256 p h n cs) = (\<forall>c \<in> set cs. packed c)"
| "packed nd = True"

subsection \<open>A packed tree survives a round trip\<close>

lemma packed_kid:
  assumes "packed nd" "shape_ok nd" "is_inner nd"
  shows "packed (kid nd b)"
proof -
  have "kid nd b \<in> insert Empty (set (node_children nd))"
    using children_kids[OF assms(2,3)] by blast
  with assms show ?thesis by (cases nd) auto
qed

lemma stored_small:
  assumes ok: "small_ok cap n ks cs"
  defines "ks' \<equiv> take n ks @ replicate (cap - n) 0"
    and "cs' \<equiv> take n (map stored cs) @ replicate (cap - n) Empty"
  shows "small_ok cap n ks' cs'" "skid n ks' cs' = stored \<circ> skid n ks cs"
proof -
  have len: "length ks = cap" "length cs = cap" "n \<le> cap" using ok by (auto simp: small_ok_def)
  show ok': "small_ok cap n ks' cs'"
    using ok len by (auto simp: small_ok_def ks'_def cs'_def nth_append)
  show "skid n ks' cs' = stored \<circ> skid n ks cs"
    by (rule skid_eqI[OF ok'])
      (use len skid_nth[OF ok] in \<open>auto simp: ks'_def cs'_def nth_append skid_none\<close>)
qed

lemma stored_n48:
  assumes ok: "n48_ok n ix cs" and pk: "\<forall>i<48. cs ! i \<noteq> Empty \<longrightarrow> i < n"
  defines "cs' \<equiv> take n (map stored cs) @ replicate (48 - n) Empty"
  shows "n48_ok n ix cs'" "k48 ix cs' = stored \<circ> k48 ix cs"
proof -
  note D = n48_okD[OF ok]
  have "card {i. i < 48 \<and> cs ! i \<noteq> Empty} \<le> card {..<48::nat}" by (rule card_mono) auto
  then have n: "n \<le> 48" using n48_slots_card[OF ok] by simp
  have c: "cs' ! i = stored (cs ! i)" if "i < 48" for i
    using that pk[rule_format, OF that] D(2) n by (cases "i < n") (auto simp: cs'_def nth_append)
  show "n48_ok n ix cs'"
  proof (rule n48_okI)
    show "length cs' = 48" using n D(2) by (simp add: cs'_def)
    show "b = c" if "b < 256" "c < 256" "ix ! b = ix ! c" "ix ! b \<noteq> n48_nil" for b c
      using D(5) that .
    show "cs' ! i \<noteq> Empty \<longleftrightarrow> (\<exists>b<256. ix ! b \<noteq> n48_nil \<and> unat (ix ! b) = i)" if "i < 48" for i
      using c[OF that] D(6)[OF that] by simp
  qed (use D in auto)
  show "k48 ix cs' = stored \<circ> k48 ix cs"
    using c D(7) by (auto simp: fun_eq_iff k48_def)
qed

lemma stored_n256:
  assumes "length cs = 256"
  shows "n256_ok (length (filter (\<lambda>c. c \<noteq> Empty) (map stored cs))) (map stored cs)"
    "k256 (map stored cs) = stored \<circ> k256 cs"
    "length (filter (\<lambda>c. c \<noteq> Empty) (map stored cs)) \<le> 256"
proof -
  have "length (filter (\<lambda>c. c \<noteq> Empty) (map stored cs)) =
      card {i. i < 256 \<and> map stored cs ! i \<noteq> Empty}"
    using assms by (simp add: length_filter_conv_card del: length_filter_map filter_map)
  then show "n256_ok (length (filter (\<lambda>c. c \<noteq> Empty) (map stored cs))) (map stored cs)"
    using assms by (simp add: n256_ok_def del: length_filter_map)
  show "k256 (map stored cs) = stored \<circ> k256 cs"
    using assms by (auto simp: fun_eq_iff k256_def)
  show "length (filter (\<lambda>c. c \<noteq> Empty) (map stored cs)) \<le> 256"
    using assms length_filter_le[of _ "map stored cs"] by (metis length_map)
qed

lemma stored_inner:
  assumes nd: "is_inner nd" "shape_ok nd" "packed nd"
  shows "is_inner (stored nd)" "shape_ok (stored nd)" "node_prefix (stored nd) = node_prefix nd"
    "node_has_end (stored nd) = node_has_end nd" "kid (stored nd) b = stored (kid nd b)"
    "count_here 0 256 (stored nd)"
proof -
  have "is_inner (stored nd) \<and> shape_ok (stored nd) \<and> node_prefix (stored nd) = node_prefix nd \<and>
    node_has_end (stored nd) = node_has_end nd \<and> kid (stored nd) b = stored (kid nd b) \<and>
    count_here 0 256 (stored nd)"
  proof (cases nd)
    case (N4 p h n ks cs)
    with nd have s: "small_ok 4 n ks cs" by simp
    show ?thesis using N4 s stored_small[OF s] by simp
  next
    case (N16 p h n ks cs)
    with nd have s: "small_ok 16 n ks cs" by simp
    show ?thesis using N16 s stored_small[OF s] by simp
  next
    case (N48 p h n ix cs)
    with nd have s: "n48_ok n ix cs" "\<forall>i<48. cs ! i \<noteq> Empty \<longrightarrow> i < n" by auto
    show ?thesis using N48 s(1) stored_n48[OF s] by simp
  next
    case (N256 p h n cs)
    with nd have s: "n256_ok n cs" "length cs = 256" by (simp_all add: n256_ok_def)
    show ?thesis using N256 s(1) stored_n256[OF s(2)] by (simp del: length_filter_map)
  qed (use nd in auto)
  then show "is_inner (stored nd)" "shape_ok (stored nd)" "node_prefix (stored nd) = node_prefix nd"
    "node_has_end (stored nd) = node_has_end nd" "kid (stored nd) b = stored (kid nd b)"
    "count_here 0 256 (stored nd)" by blast+
qed

lemma size_kid: "is_inner nd \<Longrightarrow> shape_ok nd \<Longrightarrow> kid nd b \<noteq> Empty \<Longrightarrow> size (kid nd b) < size nd"
  using children_kids[of nd] by (intro size_children) (metis insertE insert_iff rangeI)

lemma stored_ok:
  assumes "wf_node nd" "packed nd"
  shows "wf_node (stored nd) \<and> (\<forall>k. isin (stored nd) k \<longleftrightarrow> isin nd k) \<and>
    (tame lo hi nd \<longrightarrow> tame 0 256 (stored nd))"
  using assms
proof (induction nd rule: measure_induct_rule[of size])
  case (less nd)
  show ?case
  proof (cases "is_inner nd")
    case False
    then show ?thesis by (cases nd) auto
  next
    case True
    have sh: "shape_ok nd" using less.prems True by (simp add: wf_inner)
    note S = stored_inner[OF True sh less.prems(2)]
    have IH: "wf_node (stored (kid nd b)) \<and> (\<forall>k. isin (stored (kid nd b)) k \<longleftrightarrow> isin (kid nd b) k) \<and>
      (tame lo hi (kid nd b) \<longrightarrow> tame 0 256 (stored (kid nd b)))" for b
    proof (cases "kid nd b = Empty")
      case False
      then show ?thesis
        using less.IH size_kid[OF True sh False] wf_innerD(2)[OF less.prems(1) True]
          packed_kid[OF less.prems(2) sh True] by blast
    qed simp
    have "isin (stored nd) k \<longleftrightarrow> isin nd k" for k
      unfolding isin_inner[OF S(1)] isin_inner[OF True] S using IH by blast
    moreover have "wf_node (stored nd)" using S IH by (simp add: wf_inner)
    moreover have "tame 0 256 (stored nd)" if "tame lo hi nd"
      using S IH tame_innerD[OF that less.prems(1) True] by (simp add: tame_inner)
    ultimately show ?thesis by blast
  qed
qed

text \<open>
  C18. Storing and loading: a well-formed, packed tree whose lengths fit their fields encodes
  without a panic, the encoding decodes to a tree with the same \<open>len\<close> and the same keys in the
  same order, and the encoding followed by any further bytes is rejected.
\<close>

theorem index_tree_roundtrip:
  assumes "wf_node (root t)" "packed (root t)" "storable (root t)" "len t < 2 ^ 32"
  shows "\<exists>bs t'. to_bytes t = Some bs \<and> from_bytes bs = Inr t' \<and> len t' = len t \<and>
    collect_all [] (root t') = collect_all [] (root t) \<and>
    (\<forall>x xs. from_bytes (bs @ x # xs) = Inl (TrailingBytes (Suc (length xs))))"
proof -
  obtain b where b: "ser_node (root t) = Some b" "\<And>rest. de_node (b @ rest) = Inr (stored (root t), rest)"
    using codec[OF assms(3)] by (auto simp: codec_ok_def)
  let ?t = "\<lparr>root = stored (root t), len = len t\<rparr>"
  have w: "wf_node (root ?t)" and k: "keys_of ?t = keys_of t"
    using stored_ok[OF assms(1,2)] by (auto simp: keys_of_def)
  have e: "to_bytes t = Some (be_bytes 4 (len t) @ b)"
    using b(1) assms(4) by (simp add: to_bytes_def)
  have l: "be_val (be_bytes 4 (len t)) = len t" using assms(4) by (simp add: be_simps)
  have "from_bytes (be_bytes 4 (len t) @ b) = Inr ?t"
    using b(2)[of "[]"] l by (simp add: from_bytes_def)
  moreover have "from_bytes ((be_bytes 4 (len t) @ b) @ x # xs) = Inl (TrailingBytes (Suc (length xs)))" for x xs
    using b(2)[of "x # xs"] by (simp add: from_bytes_def)
  moreover have "collect_all [] (root ?t) = collect_all [] (root t)"
    using collect_members(2)[OF w] collect_members(2)[OF assms(1)] k by simp
  ultimately show ?thesis
    using e by (intro exI[of _ "be_bytes 4 (len t) @ b"] exI[of _ ?t]) simp
qed

lemma index_tree_roundtrip_witness:
  "\<exists>bs t'. to_bytes \<lparr>root = N4 [97] True 1 [98, 0, 0, 0] [Leaf [99], Empty, Empty, Empty], len = 2\<rparr> = Some bs \<and>
    from_bytes bs = Inr t' \<and> len t' = 2"
proof -
  let ?t = "\<lparr>root = N4 [97] True 1 [98, 0, 0, 0] [Leaf [99], Empty, Empty, Empty], len = 2\<rparr>"
  have "small_ok 4 1 [98, 0, 0, 0] [Leaf [99], Empty, Empty, Empty]"
    by (auto simp: small_ok_def less_Suc_eq numeral_eq_Suc)
  then show ?thesis using index_tree_roundtrip[of ?t] by auto
qed

end
