(* ===== verification/IndexLimits.thy ===== *)
theory IndexLimits
  imports IndexStore
begin

text \<open>
  Where the index tree does not behave as a set: the child at byte \<open>0xFF\<close> when an \<open>N48\<close> grows, the
  count of an \<open>N256\<close> after a removal, the encoding of an \<open>N48\<close> with a free slot, and the
  dependence of the encoding on the history.
\<close>

text \<open>
  C35. Growing a full \<open>N48\<close> loses a key: if the node holds a key whose branch byte is \<open>0xFF\<close>, then
  inserting a key with a new branch byte succeeds and the key at \<open>0xFF\<close> is gone.
\<close>

theorem n48_grow_drops_ff:
  assumes ok: "n48_ok 48 ix cs" and f: "k48 ix cs 0xFF = Leaf s" and b: "k48 ix cs b = Empty"
  shows "\<exists>nd'. insert_node (N48 p h 48 ix cs) (p @ b # r) = Some (nd', True) \<and>
    isin (N48 p h 48 ix cs) (p @ 0xFF # s) \<and> \<not> isin nd' (p @ 0xFF # s)"
proof -
  let ?nd = "N48 p h 48 ix cs"
  have nd: "is_inner ?nd" "shape_ok ?nd" "kid ?nd = k48 ix cs" using ok by simp_all
  have bf: "b \<noteq> 0xFF" using f b by auto
  obtain ds where g: "n48_to_n256 p h 48 ix cs = Some (N256 p h 48 ds)" "n256_ok 48 ds"
    "k256 ds = (k48 ix cs)(0xFF := Empty)" by (rule n48_to_n256_kids[OF ok])
  let ?nd' = "N256 p h 49 (ds[unat b := Leaf r])"
  have k: "kid ?nd' = (k48 ix cs)(0xFF := Empty, b := Leaf r)"
    using n256_add_ok[OF g(2), of b "Leaf r"] g(3) b bf by simp
  have "\<not> node_has_child ?nd b" using has_child_kid(1)[OF nd(2,1)] nd(3) b by simp
  then have "insert_node ?nd (p @ b # r) = Some (?nd', True)"
    using insert_inner_simps(2)[OF nd(1), of b r] g(1) by (simp add: n256_add_def)
  moreover have "isin ?nd (p @ 0xFF # s)" by (simp add: isin_inner nd(3) f)
  moreover have "\<not> isin ?nd' (p @ 0xFF # s)" using bf by (simp add: isin_inner k del: kid_N256)
  ultimately show ?thesis by blast
qed

text \<open>A full \<open>N48\<close> with the bytes 0 to 46 and 255.\<close>

definition full48 :: bytes where
  "full48 = map (\<lambda>i. if i < 47 then of_nat i else if i = 255 then 47 else n48_nil) [0..<256]"

lemma full48_nth:
  "i < 256 \<Longrightarrow> full48 ! i = (if i < 47 then of_nat i else if i = 255 then 47 else n48_nil)"
  by (simp add: full48_def)

lemma full48_ok: "n48_ok 48 full48 (replicate 48 (Leaf []))"
proof (rule n48_okI)
  have small: "i < 47 \<Longrightarrow> (of_nat i :: byte) \<noteq> n48_nil" for i by (rule slot_byte_neq_nil) simp
  have n47: "(47 :: byte) \<noteq> n48_nil" by (simp add: n48_nil_def)
  have nn: "full48 ! i \<noteq> n48_nil \<longleftrightarrow> i < 47 \<or> i = 255" if "i < 256" for i
    using that small n47 by (auto simp: full48_nth)
  have un: "unat (full48 ! i) = (if i < 47 then i else 47)" if "i < 47 \<or> i = 255" for i
    using that by (auto simp: full48_nth)
  show "length full48 = 256" by (simp add: full48_def)
  show "idx_in_range full48"
    using un nn by (force simp: idx_in_range_def in_set_conv_nth full48_def[THEN arg_cong[where f = length], simplified])
  have "x \<in> used48 full48 \<longleftrightarrow> x \<in> insert 255 {..<47}" for x
    using nn[of x] by (cases "x < 256") (auto simp: used48_def)
  then have "used48 full48 = insert 255 {..<47}" by blast
  then show "48 = card (used48 full48)" by simp
  show "b = c" if "b < 256" "c < 256" "full48 ! b = full48 ! c" "full48 ! b \<noteq> n48_nil" for b c
  proof -
    have "unat (full48 ! b) = unat (full48 ! c)" using that(3) by simp
    moreover have "b < 47 \<or> b = 255" "c < 47 \<or> c = 255" using that nn[of b] nn[of c] by auto
    ultimately show ?thesis using un[of b] un[of c] by (auto split: if_splits)
  qed
  show "replicate 48 (Leaf []) ! i \<noteq> Empty \<longleftrightarrow>
      (\<exists>b<256. full48 ! b \<noteq> n48_nil \<and> unat (full48 ! b) = i)" if "i < 48" for i
  proof -
    have "\<exists>b<256. full48 ! b \<noteq> n48_nil \<and> unat (full48 ! b) = i"
    proof (cases "i < 47")
      case True
      then show ?thesis using nn[of i] un[of i] by (intro exI[of _ i]) auto
    next
      case False
      with that have "i = 47" by simp
      then show ?thesis using nn[of 255] un[of 255] by (intro exI[of _ 255]) auto
    qed
    then show ?thesis using that by simp
  qed
qed simp

lemma n48_grow_drops_ff_witness:
  "\<exists>nd'. insert_node (N48 [] False 48 full48 (replicate 48 (Leaf []))) [100] = Some (nd', True) \<and>
    isin (N48 [] False 48 full48 (replicate 48 (Leaf []))) [0xFF] \<and> \<not> isin nd' [0xFF]"
proof -
  have "k48 full48 (replicate 48 (Leaf [])) 0xFF = Leaf []"
    "k48 full48 (replicate 48 (Leaf [])) 100 = Empty"
    by (simp_all add: k48_def full48_nth n48_nil_def)
  from n48_grow_drops_ff[OF full48_ok this, of "[]" False "[]"] show ?thesis by simp
qed

text \<open>The index an \<open>N48\<close> gets from an \<open>N256\<close> has an entry for each child.\<close>

lemma n256_to_n48_used:
  assumes len: "length cs = 256" and c: "card {b. b < 256 \<and> cs ! b \<noteq> Empty} = m" "m \<le> 48"
  obtains ix ds where "n256_to_n48 p h n cs = Some (N48 p h (n mod 256) ix ds)"
    "{x. x < 256 \<and> ix ! x \<noteq> n48_nil} = {b. b < 256 \<and> cs ! b \<noteq> Empty}"
proof -
  define occ where "occ = filter (\<lambda>(b, c). c \<noteq> Empty) (enumerate 0 cs)"
  have in_occ: "x \<in> set occ \<longleftrightarrow> fst x < 256 \<and> snd x = cs ! fst x \<and> cs ! fst x \<noteq> Empty" for x
    using len by (cases x) (auto simp: occ_def in_set_enumerate_eq)
  have "sorted_wrt (\<lambda>x y. fst x < fst y) occ"
    unfolding occ_def by (intro sorted_wrt_filter sorted_enumerate)
  then have dist: "distinct (map fst occ)" by (induction occ) auto
  have fs: "fst ` set occ = {b. b < 256 \<and> cs ! b \<noteq> Empty}"
  proof (intro set_eqI iffI)
    fix x assume "x \<in> {b. b < 256 \<and> cs ! b \<noteq> Empty}"
    then have "(x, cs ! x) \<in> set occ" using in_occ[of "(x, cs ! x)"] by simp
    then show "x \<in> fst ` set occ" by force
  qed (auto simp: in_occ)
  have lo: "length occ = m" using dist distinct_card[of "map fst occ"] c fs by simp
  let ?T = "\<lambda>_ :: nat \<times> nat \<times> node. True"
  define ix where "ix = scatter ?T (\<lambda>(s, b, c). b) (\<lambda>(s, b, c). of_nat s) (enumerate 0 occ)
    (replicate 256 n48_nil)"
  have ixf: "fold (\<lambda>(slot, byte, c) idx. idx[byte := of_nat slot]) (enumerate 0 occ)
      (replicate 256 n48_nil) = ix"
    unfolding ix_def scatter_def
    by (rule arg_cong[where f = "\<lambda>f. fold f _ _"]) (auto simp: fun_eq_iff)
  have dk: "distinct (map (\<lambda>(s, b, c). b) (filter ?T (enumerate 0 occ)))"
    using dist by (simp add: distinct_conv_nth nth_enumerate_eq case_prod_beta')
  have other: "ix ! x = replicate 256 n48_nil ! x" if no: "x \<notin> fst ` set occ" for x
    unfolding ix_def
  proof (rule scatter_other)
    fix y assume "y \<in> set (enumerate 0 occ)"
    then have "snd y \<in> set occ" unfolding in_set_enumerate_eq by (metis diff_zero add_0_right nth_mem)
    then have "fst (snd y) \<noteq> x" using no by auto
    then show "(case y of (s, b, c) \<Rightarrow> b) \<noteq> x" by (cases y) auto
  qed
  have at: "ix ! x \<noteq> n48_nil" if x: "x \<in> fst ` set occ" for x
  proof -
    obtain c where xc: "(x, c) \<in> set occ" using x by force
    then obtain i where i: "i < length occ" "occ ! i = (x, c)" by (auto simp: in_set_conv_nth)
    then have m: "(i, x, c) \<in> set (enumerate 0 occ)" by (simp add: in_set_enumerate_eq)
    have "ix ! x = of_nat i"
      using scatter_at[OF dk m, of "replicate 256 n48_nil" "\<lambda>(s, b, c). of_nat s"] xc in_occ
      by (auto simp: ix_def)
    then show ?thesis using i(1) lo c(2) assms(3) slot_byte_neq_nil[of i] by simp
  qed
  have "x < 256 \<and> ix ! x \<noteq> n48_nil \<longleftrightarrow> x \<in> fst ` set occ" for x
    using other[of x] at[of x] fs by (cases "x \<in> fst ` set occ") auto
  then have "{x. x < 256 \<and> ix ! x \<noteq> n48_nil} = {b. b < 256 \<and> cs ! b \<noteq> Empty}" unfolding fs[symmetric] by blast
  moreover have "n256_to_n48 p h n cs = Some (N48 p h (n mod 256) ix (map snd occ @ replicate (48 - length occ) Empty))"
    unfolding n256_to_n48_def Let_def occ_def[symmetric] ixf using lo c(2) assms(3) by simp
  ultimately show thesis using that by blast
qed

text \<open>
  C36. The count of an \<open>N256\<close> does not follow removals: from a node with exactly 48 children (which
  loading a stored tree can give), removing a leaf child yields an \<open>N48\<close> whose count is still 48
  while only 47 of its index entries are in use.
\<close>

theorem n256_shrink_keeps_count:
  assumes len: "length cs = 256" and n: "card {b. b < 256 \<and> cs ! b \<noteq> Empty} = 48"
    and b: "cs ! unat b = Leaf r"
  shows "\<exists>ix ds. remove_node (N256 p h 48 cs) (p @ b # r) = Some (N48 p h 48 ix ds, True) \<and>
    card {x. x < 256 \<and> ix ! x \<noteq> n48_nil} = 47"
proof -
  let ?cs = "cs[unat b := Empty]" and ?nd = "N256 p h 48 cs"
  have "x \<in> {x. x < 256 \<and> ?cs ! x \<noteq> Empty} \<longleftrightarrow> x \<in> {x. x < 256 \<and> cs ! x \<noteq> Empty} - {unat b}" for x
    using len by (auto simp: nth_list_update split: if_splits)
  then have "{x. x < 256 \<and> ?cs ! x \<noteq> Empty} = {x. x < 256 \<and> cs ! x \<noteq> Empty} - {unat b}" by blast
  moreover have "unat b \<in> {x. x < 256 \<and> cs ! x \<noteq> Empty}" using b by simp
  ultimately have c47: "card {x. x < 256 \<and> ?cs ! x \<noteq> Empty} = 47"
    using n by (simp add: card_Diff_singleton)
  obtain ix ds where s: "n256_to_n48 p h 48 ?cs = Some (N48 p h (48 mod 256) ix ds)"
    "{x. x < 256 \<and> ix ! x \<noteq> n48_nil} = {b. b < 256 \<and> ?cs ! b \<noteq> Empty}"
    by (rule n256_to_n48_used[of ?cs 47 p h 48]) (use len c47 in simp_all)
  have "node_child_pos ?nd b = Some (unat b)" using b by simp
  then have h: "node_has_child ?nd b" "node_child ?nd b = Some (Leaf r)"
    "node_put_child ?nd b Empty = N256 p h 48 ?cs"
    using b len by (simp_all add: node_has_child_def node_child_def node_put_child_def)
  have d: "node_child_is_empty (N256 p h 48 ?cs) b" "node_del_child (N256 p h 48 ?cs) b = N256 p h 48 ?cs"
    using len by (simp_all add: node_child_is_empty_def n256_del_def)
  have "node_maybe_shrink (N256 p h 48 ?cs) = Some (N48 p h 48 ix ds)"
    using s(1) by (simp add: node_maybe_shrink.simps)
  then have "remove_node ?nd (p @ b # r) = Some (N48 p h 48 ix ds, True)"
    using h d remove_inner_simps(2)[of ?nd b r] by (simp add: remove_node.simps[of "Leaf r"])
  with c47 s(2) show ?thesis by auto
qed

lemma n256_shrink_keeps_count_witness:
  "\<exists>ix ds. remove_node (N256 [] False 48 (replicate 48 (Leaf []) @ replicate 208 Empty)) [3] =
      Some (N48 [] False 48 ix ds, True) \<and> card {x. x < 256 \<and> ix ! x \<noteq> n48_nil} = 47"
proof -
  let ?cs = "replicate 48 (Leaf []) @ replicate 208 Empty"
  have "{b. b < 256 \<and> ?cs ! b \<noteq> Empty} = {..<48}"
    by (auto simp: nth_append split: if_splits)
  then have "card {b. b < 256 \<and> ?cs ! b \<noteq> Empty} = 48" by simp
  from n256_shrink_keeps_count[OF _ this, of 3 "[]" "[]" False] show ?thesis
    by (simp add: nth_append)
qed

text \<open>
  C37. A removal can make the stored form lose another key: in an \<open>N48\<close> with more than 17 children in
  its first slots, removing a leaf child leaves a free slot; the key in the last slot is still in
  the tree, and after encoding and decoding it is not.
\<close>

theorem n48_hole_loses_key:
  assumes ok: "n48_ok (Suc m) ix cs" and pk: "\<forall>i<48. cs ! i \<noteq> Empty \<longrightarrow> i < Suc m" and m: "17 \<le> m"
    and b1: "k48 ix cs b1 = Leaf r1" and b2: "k48 ix cs b2 = Leaf r2" "unat (ix ! unat b2) = m"
    and ne: "b1 \<noteq> b2" and st: "\<forall>c \<in> set cs. storable c" "length p \<le> 255"
  shows "\<exists>nd' bs nd''. remove_node (N48 p h (Suc m) ix cs) (p @ b1 # r1) = Some (nd', True) \<and>
    isin nd' (p @ b2 # r2) \<and> ser_node nd' = Some bs \<and> de_node bs = Inr (nd'', []) \<and>
    \<not> isin nd'' (p @ b2 # r2)"
proof -
  note D = n48_okD[OF ok]
  let ?nd = "N48 p h (Suc m) ix cs"
  let ?cs = "cs[unat (ix ! unat b1) := Empty]" and ?ix = "ix[unat b1 := n48_nil]"
  let ?nd' = "N48 p h m ?ix ?cs"
  have i1: "ix ! unat b1 \<noteq> n48_nil" and i2: "ix ! unat b2 \<noteq> n48_nil" using b1 b2 by (auto simp: k48_def)
  have "m < 48" using D(7)[of "unat b2"] i2 b2 by simp
  obtain ix' cs' where d: "n48_del (Suc m) ix ?cs b1 = (m, ix', cs')" "n48_ok m ix' cs'"
    "k48 ix' cs' = (k48 ix cs)(b1 := Empty)"
    using n48_del_ok[OF ok i1] by (metis diff_Suc_1)
  have d': "ix' = ?ix" "cs' = ?cs" using d(1) i1 by (simp_all add: n48_del_def Let_def)
  have s1: "unat (ix ! unat b1) < 48" using D(7)[of "unat b1"] i1 by simp
  have inn: "is_inner ?nd" "shape_ok ?nd" using ok by simp_all
  have h1: "node_has_child ?nd b1" "node_child ?nd b1 = Some (Leaf r1)"
    "node_put_child ?nd b1 Empty = N48 p h (Suc m) ix ?cs"
    using i1 s1 D(2) b1 by (simp_all add: node_has_child_def node_child_def node_put_child_def k48_def)
  have h2: "node_child_is_empty (N48 p h (Suc m) ix ?cs) b1"
    using i1 s1 D(2) by (simp add: node_child_is_empty_def)
  have h3: "node_del_child (N48 p h (Suc m) ix ?cs) b1 = ?nd'" using d(1) d' by simp
  have h4: "node_maybe_shrink ?nd' = Some ?nd'" using m by (simp add: node_maybe_shrink.simps)
  have "remove_node ?nd (p @ b1 # r1) = Some (?nd', True)"
    using remove_inner_simps(2)[OF inn(1), of b1 r1] h1 h2 h3 h4 by (simp add: remove_node.simps[of "Leaf r1"])
  moreover have "isin ?nd' (p @ b2 # r2)"
    using d(2,3) d' ne b2 by (simp add: isin_inner)
  moreover have "codec_ok ?nd'"
    using D(1,2) st \<open>m < 48\<close>
    by (intro codec) (auto dest!: set_update_subset_insert[THEN subsetD])
  then obtain bs where "ser_node ?nd' = Some bs" "de_node bs = Inr (stored ?nd', [])"
    unfolding codec_ok_def by (metis append_Nil2)
  moreover have "kid (stored ?nd') b2 = Empty"
    using ne b2(2) i2 D(1,2) \<open>m < 48\<close>
    by (simp add: kid_def node_child_def nth_append byte_eq_unat[of b1 b2])
  then have "\<not> isin (stored ?nd') (p @ b2 # r2)" by (simp add: isin_inner)
  ultimately show ?thesis by blast
qed

lemma n48_hole_loses_key_witness:
  "\<exists>nd' bs nd''. remove_node (N48 [] False 48 full48 (replicate 48 (Leaf []))) [0] = Some (nd', True) \<and>
    isin nd' [0xFF] \<and> ser_node nd' = Some bs \<and> de_node bs = Inr (nd'', []) \<and> \<not> isin nd'' [0xFF]"
proof -
  have k: "k48 full48 (replicate 48 (Leaf [])) 0 = Leaf []"
    "k48 full48 (replicate 48 (Leaf [])) 0xFF = Leaf []"
    "unat (full48 ! unat (0xFF :: byte)) = 47"
    by (simp_all add: k48_def full48_nth n48_nil_def)
  have ok: "n48_ok (Suc 47) full48 (replicate 48 (Leaf []))" using full48_ok by simp
  show ?thesis using n48_hole_loses_key[OF ok _ _ k, of "[]" False] by simp
qed

text \<open>
  C38. The encoding depends on the history and not only on the key set: inserting \<open>"a"\<close> and
  \<open>"ab"\<close> and removing \<open>"ab"\<close> leaves the same keys as inserting \<open>"a"\<close>, in another encoding.
\<close>

theorem encoding_depends_on_history:
  "\<exists>t1 t2 b1 b2.
    run_ops tree_insert tree_remove [Ins [97], Ins [97, 98], Del [97, 98]] tree_new = Some t1 \<and>
    run_ops tree_insert tree_remove [Ins [97]] tree_new = Some t2 \<and>
    collect_all [] (root t1) = Some [[97]] \<and> collect_all [] (root t2) = Some [[97]] \<and>
    to_bytes t1 = Some b1 \<and> to_bytes t2 = Some b2 \<and> b1 \<noteq> b2"
proof -
  let ?t1 = "\<lparr>root = N4 [97] True 0 [98, 0, 0, 0] [Empty, Empty, Empty, Empty], len = 1\<rparr>"
  let ?t2 = "\<lparr>root = Leaf [97], len = 1\<rparr>"
  have "run_ops tree_insert tree_remove [Ins [97], Ins [97, 98], Del [97, 98]] tree_new = Some ?t1"
    by code_simp
  moreover have "run_ops tree_insert tree_remove [Ins [97]] tree_new = Some ?t2"
    by code_simp
  moreover have "collect_all [] (root ?t1) = Some [[97]]" "collect_all [] (root ?t2) = Some [[97]]"
    by code_simp+
  moreover have "to_bytes ?t1 = Some [0, 0, 0, 1, 2, 1, 97, 1, 0]"
    by (simp add: to_bytes_def ser_keyed_def ser_pfx_def be_bytes_numeral)
  moreover have "to_bytes ?t2 = Some [0, 0, 0, 1, 1, 0, 1, 97]"
    by (simp add: to_bytes_def u16_len_def be_bytes_numeral)
  ultimately show ?thesis by force
qed

end
