(* ===== verification/StateDb.thy ===== *)
theory StateDb
  imports IndexStore
begin

text \<open>
  The state model of \<open>crates/arkiv-entitydb/src/lib.rs\<close>: where entities, bitmaps and index trees
  live in the account state, the \<open>StateAdapter\<close> interface, and the operation handlers that run
  against it. Keccak, the roaring bitmap format and RLP come from other crates; they are the
  fields of \<open>hostlib\<close>, and every definition that uses them takes a \<open>hostlib\<close>.
\<close>

text \<open>Turning the error of one computation into the error type of its caller (\<open>map_err\<close>).\<close>

definition smap_err :: "('e \<Rightarrow> 'f) \<Rightarrow> ('s, 'e, 'a) sm \<Rightarrow> ('s, 'f, 'a) sm" where
  "smap_err f m s = (case m s of Inl e \<Rightarrow> Inl (f e) | Inr x \<Rightarrow> Inr x)"

lemma wp_smap_err [wp_simps]: "wp (smap_err f m) s Q = wp m s Q"
  by (simp add: wp_def smap_err_def split: sum.split)

subsection \<open>Entities\<close>

record attribute =
  attr_key :: bytes
  attr_type :: byte
  attr_value :: bytes

record entity_rlp =
  ent_payload :: bytes
  ent_creator :: address
  ent_created_at_block :: u64
  ent_owner :: address
  ent_expires_at :: u64
  ent_content_type :: bytes
  ent_key :: b256
  ent_attributes :: "attribute list"
  ent_last_modified_at_block :: u64

definition ATTR_UINT :: byte where "ATTR_UINT = 1"
definition ATTR_STRING :: byte where "ATTR_STRING = 2"
definition ATTR_ENTITY_KEY :: byte where "ATTR_ENTITY_KEY = 3"

definition ENTITY_CODE_PREFIX :: byte where "ENTITY_CODE_PREFIX = 0xFE"

record hostlib =
  keccak256 :: "bytes \<Rightarrow> b256"
  roaring_ser :: "u64 set \<Rightarrow> bytes"
  roaring_de :: "bytes \<Rightarrow> u64 set option"
  rlp_encode :: "entity_rlp \<Rightarrow> bytes"
  rlp_decode :: "bytes \<Rightarrow> entity_rlp option"

datatype db_error =
    BackendError
  | NonceOverflow address
  | NoEntity address
  | MissingPrefix
  | RlpError
  | BitmapError
  | IndexError index_error
  | ReadOnlyState
  | Panicked

definition encode_as_code :: "hostlib \<Rightarrow> entity_rlp \<Rightarrow> bytes" where
  "encode_as_code H e = ENTITY_CODE_PREFIX # rlp_encode H e"

definition decode_from_code :: "hostlib \<Rightarrow> bytes \<Rightarrow> db_error + entity_rlp" where
  "decode_from_code H code =
     (case code of
        [] \<Rightarrow> Inl MissingPrefix
      | b # rest \<Rightarrow>
          if b = ENTITY_CODE_PREFIX
          then (case rlp_decode H rest of None \<Rightarrow> Inl RlpError | Some e \<Rightarrow> Inr e)
          else Inl MissingPrefix)"

subsection \<open>Bitmaps of entity ids\<close>

type_synonym bitmap = "u64 set"

definition bitmap_from_bytes :: "hostlib \<Rightarrow> bytes \<Rightarrow> db_error + bitmap" where
  "bitmap_from_bytes H bs = (case roaring_de H bs of None \<Rightarrow> Inl BitmapError | Some b \<Rightarrow> Inr b)"

definition bitmap_to_bytes :: "hostlib \<Rightarrow> bitmap \<Rightarrow> bytes" where
  "bitmap_to_bytes H b = roaring_ser H b"

definition bitmap_new :: bitmap where [simp]: "bitmap_new = {}"
definition bitmap_is_empty :: "bitmap \<Rightarrow> bool" where [simp]: "bitmap_is_empty b \<longleftrightarrow> b = {}"
definition bitmap_insert :: "u64 \<Rightarrow> bitmap \<Rightarrow> bitmap" where [simp]: "bitmap_insert i b = insert i b"
definition bitmap_remove :: "u64 \<Rightarrow> bitmap \<Rightarrow> bitmap" where [simp]: "bitmap_remove i b = b - {i}"
definition union_with :: "bitmap \<Rightarrow> bitmap \<Rightarrow> bitmap" where [simp]: "union_with a b = a \<union> b"
definition intersect_with :: "bitmap \<Rightarrow> bitmap \<Rightarrow> bitmap" where [simp]: "intersect_with a b = a \<inter> b"
definition subtract :: "bitmap \<Rightarrow> bitmap \<Rightarrow> bitmap" where [simp]: "subtract a b = a - b"

definition bitmap_iter :: "bitmap \<Rightarrow> u64 list" where
  "bitmap_iter b = sorted_list_of_set b"

subsection \<open>Addresses\<close>

definition bstr :: "string \<Rightarrow> bytes" where
  "bstr s = map of_char s"

definition ARKIV_ADDRESS :: address where
  "ARKIV_ADDRESS = 0x44 # replicate 18 0 @ [0x44]"

definition SYSTEM_ACCOUNT_ADDRESS :: address where
  "SYSTEM_ACCOUNT_ADDRESS = 0x44 # replicate 18 0 @ [0x46]"

definition entity_address :: "b256 \<Rightarrow> address" where
  "entity_address entity_key = take 20 entity_key"

definition pair_preimage :: "bytes \<Rightarrow> bytes \<Rightarrow> bytes" where
  "pair_preimage annot_key annot_val = bstr ''arkiv.pair'' @ annot_key @ 0 # annot_val"

definition pair_address :: "hostlib \<Rightarrow> bytes \<Rightarrow> bytes \<Rightarrow> address" where
  "pair_address H annot_key annot_val = take 20 (keccak256 H (pair_preimage annot_key annot_val))"

definition index_preimage :: "bytes \<Rightarrow> bytes" where
  "index_preimage attr_k = bstr ''arkiv.index'' @ attr_k"

definition index_address :: "hostlib \<Rightarrow> bytes \<Rightarrow> address" where
  "index_address H attr_k = take 20 (keccak256 H (index_preimage attr_k))"

definition ANNOT_ALL :: bytes where "ANNOT_ALL = bstr ''$all''"
definition ANNOT_CREATOR :: bytes where "ANNOT_CREATOR = bstr ''$creator''"
definition ANNOT_CREATED_AT_BLOCK :: bytes where "ANNOT_CREATED_AT_BLOCK = bstr ''$createdAtBlock''"
definition ANNOT_OWNER :: bytes where "ANNOT_OWNER = bstr ''$owner''"
definition ANNOT_KEY :: bytes where "ANNOT_KEY = bstr ''$key''"
definition ANNOT_EXPIRATION :: bytes where "ANNOT_EXPIRATION = bstr ''$expiration''"
definition ANNOT_CONTENT_TYPE :: bytes where "ANNOT_CONTENT_TYPE = bstr ''$contentType''"

subsection \<open>Slots of the system account\<close>

definition slot_entity_count :: "hostlib \<Rightarrow> b256" where
  "slot_entity_count H = keccak256 H (bstr ''entity_count'')"

definition slot_id_to_addr :: "hostlib \<Rightarrow> u64 \<Rightarrow> b256" where
  "slot_id_to_addr H entity_id = keccak256 H (bstr ''id_to_addr'' @ u64_be entity_id)"

definition slot_addr_to_id :: "hostlib \<Rightarrow> address \<Rightarrow> b256" where
  "slot_addr_to_id H entity_addr = keccak256 H (bstr ''addr_to_id'' @ entity_addr)"

definition slot_nonces :: "hostlib \<Rightarrow> address \<Rightarrow> b256" where
  "slot_nonces H caller = keccak256 H (bstr ''nonces'' @ caller)"

definition slot_payload_reference_nonce :: "hostlib \<Rightarrow> address \<Rightarrow> b256 \<Rightarrow> b256" where
  "slot_payload_reference_nonce H caller nonce =
     keccak256 H (bstr ''payload_ref_nonce'' @ caller @ nonce)"

definition u64_to_storage :: "u64 \<Rightarrow> b256" where
  "u64_to_storage n = replicate 24 0 @ u64_be n"

definition storage_to_u64 :: "b256 \<Rightarrow> u64" where
  "storage_to_u64 b = of_nat (be_val (drop 24 b))"

definition u32_to_storage :: "u32 \<Rightarrow> b256" where
  "u32_to_storage n = replicate 28 0 @ u32_be n"

definition storage_to_u32 :: "b256 \<Rightarrow> u32" where
  "storage_to_u32 b = of_nat (be_val (drop 28 b))"

definition address_to_storage :: "address \<Rightarrow> b256" where
  "address_to_storage addr = replicate 12 0 @ addr"

definition encode_u64_be :: "u64 \<Rightarrow> bytes" where "encode_u64_be n = u64_be n"
definition encode_address :: "address \<Rightarrow> bytes" where "encode_address addr = addr"
definition encode_b256 :: "b256 \<Rightarrow> bytes" where "encode_b256 b = b"

subsection \<open>The state adapter\<close>

text \<open>
  \<open>trait StateAdapter\<close>, a record of its six methods over a state of any type. The handlers
  below take the adapter as an argument, as the generic functions of the source do.
\<close>

record 's state_adapter =
  ad_code :: "address \<Rightarrow> ('s, db_error, bytes) sm"
  ad_set_code :: "address \<Rightarrow> bytes \<Rightarrow> ('s, db_error, unit) sm"
  ad_tombstone_code :: "address \<Rightarrow> ('s, db_error, unit) sm"
  ad_storage :: "address \<Rightarrow> b256 \<Rightarrow> ('s, db_error, b256) sm"
  ad_set_storage :: "address \<Rightarrow> b256 \<Rightarrow> b256 \<Rightarrow> ('s, db_error, unit) sm"
  ad_ensure_account_persists :: "address \<Rightarrow> ('s, db_error, unit) sm"

subsection \<open>Nonces\<close>

definition read_nonce :: "hostlib \<Rightarrow> 's state_adapter \<Rightarrow> address \<Rightarrow> ('s, db_error, u32) sm" where
  "read_nonce H A caller =
     sbind (ad_storage A SYSTEM_ACCOUNT_ADDRESS (slot_nonces H caller)) (\<lambda>raw.
     sret (storage_to_u32 raw))"

definition bump_nonce :: "hostlib \<Rightarrow> 's state_adapter \<Rightarrow> address \<Rightarrow> ('s, db_error, u32) sm" where
  "bump_nonce H A caller =
     sbind (ad_ensure_account_persists A SYSTEM_ACCOUNT_ADDRESS) (\<lambda>_.
     let slot = slot_nonces H caller in
     sbind (ad_storage A SYSTEM_ACCOUNT_ADDRESS slot) (\<lambda>raw.
     let current = storage_to_u32 raw in
     case checked_add current 1 of
       None \<Rightarrow> sfail (NonceOverflow caller)
     | Some nxt \<Rightarrow>
         sbind (ad_set_storage A SYSTEM_ACCOUNT_ADDRESS slot (u32_to_storage nxt)) (\<lambda>_.
         sret current)))"

definition payload_reference_nonce_used ::
  "hostlib \<Rightarrow> 's state_adapter \<Rightarrow> address \<Rightarrow> b256 \<Rightarrow> ('s, db_error, bool) sm" where
  "payload_reference_nonce_used H A caller nonce =
     sbind (ad_storage A SYSTEM_ACCOUNT_ADDRESS (slot_payload_reference_nonce H caller nonce)) (\<lambda>raw.
     sret (raw \<noteq> zero_b256))"

definition consume_payload_reference_nonce ::
  "hostlib \<Rightarrow> 's state_adapter \<Rightarrow> address \<Rightarrow> b256 \<Rightarrow> ('s, db_error, unit) sm" where
  "consume_payload_reference_nonce H A caller nonce =
     sbind (ad_ensure_account_persists A SYSTEM_ACCOUNT_ADDRESS) (\<lambda>_.
     ad_set_storage A SYSTEM_ACCOUNT_ADDRESS (slot_payload_reference_nonce H caller nonce)
       (replicate 31 0 @ [1]))"

subsection \<open>Reading bitmaps, trees and entities\<close>

definition read_pair_bitmap ::
  "hostlib \<Rightarrow> 's state_adapter \<Rightarrow> bytes \<Rightarrow> bytes \<Rightarrow> ('s, db_error, bitmap) sm" where
  "read_pair_bitmap H A annot_key annot_val =
     sbind (ad_code A (pair_address H annot_key annot_val)) (\<lambda>code.
     if code = [] then sret bitmap_new else slift (bitmap_from_bytes H code))"

definition all_entities :: "hostlib \<Rightarrow> 's state_adapter \<Rightarrow> ('s, db_error, bitmap) sm" where
  "all_entities H A = read_pair_bitmap H A ANNOT_ALL []"

definition read_index_tree ::
  "hostlib \<Rightarrow> 's state_adapter \<Rightarrow> bytes \<Rightarrow> ('s, db_error, index_tree) sm" where
  "read_index_tree H A attr_k =
     sbind (ad_code A (index_address H attr_k)) (\<lambda>code.
     if code = [] then sret tree_new else slift (map_sum IndexError id (from_bytes code)))"

definition resolve_id ::
  "hostlib \<Rightarrow> 's state_adapter \<Rightarrow> u64 \<Rightarrow> ('s, db_error, entity_rlp option) sm" where
  "resolve_id H A i =
     sbind (ad_storage A SYSTEM_ACCOUNT_ADDRESS (slot_id_to_addr H i)) (\<lambda>raw.
     if raw = zero_b256 then sret None
     else
       sbind (ad_code A (drop 12 raw)) (\<lambda>code.
       if code = [] then sret None
       else sbind (slift (decode_from_code H code)) (\<lambda>e. sret (Some e))))"

definition read_entity :: "hostlib \<Rightarrow> 's state_adapter \<Rightarrow> address \<Rightarrow> ('s, db_error, entity_rlp) sm" where
  "read_entity H A entity_addr =
     sbind (ad_code A entity_addr) (\<lambda>code.
     if code = [] then sfail (NoEntity entity_addr) else slift (decode_from_code H code))"

definition read_entity_id :: "hostlib \<Rightarrow> 's state_adapter \<Rightarrow> address \<Rightarrow> ('s, db_error, u64) sm" where
  "read_entity_id H A entity_addr =
     sbind (ad_storage A SYSTEM_ACCOUNT_ADDRESS (slot_addr_to_id H entity_addr)) (\<lambda>raw.
     sret (storage_to_u64 raw))"

end
