(* ===== verification/EntityDb.thy ===== *)
theory EntityDb
  imports StateDb
begin

text \<open>
  The operation handlers of \<open>crates/arkiv-entitydb/src/lib.rs\<close>: the annotations of an entity, the
  two index tiers (pair bitmaps and ordered trees of values), and \<open>create\<close>, \<open>update\<close>, \<open>extend\<close>,
  \<open>transfer\<close>, \<open>delete\<close> and \<open>expire\<close>. A panic inside the tree is the error \<open>Panicked\<close>.
\<close>

subsection \<open>Annotations\<close>

record annotation =
  ann_key :: bytes
  ann_value :: bytes
  ann_tier2 :: bool

definition annot :: "bytes \<Rightarrow> bytes \<Rightarrow> bool \<Rightarrow> annotation" where
  "annot k v t = \<lparr>ann_key = k, ann_value = v, ann_tier2 = t\<rparr>"

definition built_in_annotations ::
  "address \<Rightarrow> address \<Rightarrow> b256 \<Rightarrow> u64 \<Rightarrow> u64 \<Rightarrow> bytes \<Rightarrow> annotation list" where
  "built_in_annotations creator owner entity_key created_at_block expires_at content_type =
     [annot ANNOT_ALL [] False,
      annot ANNOT_CREATOR (encode_address creator) False,
      annot ANNOT_CREATED_AT_BLOCK (encode_u64_be created_at_block) True,
      annot ANNOT_OWNER (encode_address owner) False,
      annot ANNOT_KEY (encode_b256 entity_key) False,
      annot ANNOT_EXPIRATION (encode_u64_be expires_at) True,
      annot ANNOT_CONTENT_TYPE content_type True]"

definition user_annotations :: "attribute list \<Rightarrow> annotation list" where
  "user_annotations attrs =
     map (\<lambda>a. annot (attr_key a) (attr_value a) (attr_type a \<noteq> ATTR_ENTITY_KEY)) attrs"

definition updatable_annotations :: "bytes \<Rightarrow> attribute list \<Rightarrow> annotation list" where
  "updatable_annotations content_type attrs =
     annot ANNOT_CONTENT_TYPE content_type True # user_annotations attrs"

subsection \<open>The two index tiers\<close>

text \<open>The calls of the tree, which panic where the model of the tree has no result.\<close>

definition or_panic :: "'a option \<Rightarrow> ('s, db_error, 'a) sm" where
  "or_panic r = (case r of None \<Rightarrow> sfail Panicked | Some x \<Rightarrow> sret x)"

definition insert_into_indexes ::
  "hostlib \<Rightarrow> 's state_adapter \<Rightarrow> bytes \<Rightarrow> bytes \<Rightarrow> u64 \<Rightarrow> bool \<Rightarrow> ('s, db_error, unit) sm" where
  "insert_into_indexes H A annot_key annot_val entity_id tier2 =
     sbind (read_pair_bitmap H A annot_key annot_val) (\<lambda>bitmap.
     let was_empty = bitmap_is_empty bitmap; bitmap' = bitmap_insert entity_id bitmap in
     sbind (ad_set_code A (pair_address H annot_key annot_val) (bitmap_to_bytes H bitmap')) (\<lambda>_.
     if tier2 \<and> was_empty then
       sbind (read_index_tree H A annot_key) (\<lambda>tree.
       sbind (or_panic (tree_insert tree annot_val)) (\<lambda>(tree', _).
       sbind (or_panic (to_bytes tree')) (\<lambda>code.
       ad_set_code A (index_address H annot_key) code)))
     else sret ()))"

definition remove_from_indexes ::
  "hostlib \<Rightarrow> 's state_adapter \<Rightarrow> bytes \<Rightarrow> bytes \<Rightarrow> u64 \<Rightarrow> bool \<Rightarrow> ('s, db_error, unit) sm" where
  "remove_from_indexes H A annot_key annot_val entity_id tier2 =
     sbind (read_pair_bitmap H A annot_key annot_val) (\<lambda>bitmap.
     if bitmap_is_empty bitmap then sret ()
     else
       let bitmap' = bitmap_remove entity_id bitmap in
       sbind (ad_set_code A (pair_address H annot_key annot_val) (bitmap_to_bytes H bitmap')) (\<lambda>_.
       if tier2 \<and> bitmap_is_empty bitmap' then
         sbind (read_index_tree H A annot_key) (\<lambda>tree.
         sbind (or_panic (tree_remove tree annot_val)) (\<lambda>(tree', _).
         if tree_is_empty tree' then ad_tombstone_code A (index_address H annot_key)
         else
           sbind (or_panic (to_bytes tree')) (\<lambda>code.
           ad_set_code A (index_address H annot_key) code)))
       else sret ()))"

definition insert_annotations ::
  "hostlib \<Rightarrow> 's state_adapter \<Rightarrow> u64 \<Rightarrow> annotation list \<Rightarrow> ('s, db_error, unit) sm" where
  "insert_annotations H A entity_id as =
     sfor (\<lambda>a. insert_into_indexes H A (ann_key a) (ann_value a) entity_id (ann_tier2 a)) as"

definition remove_annotations ::
  "hostlib \<Rightarrow> 's state_adapter \<Rightarrow> u64 \<Rightarrow> annotation list \<Rightarrow> ('s, db_error, unit) sm" where
  "remove_annotations H A entity_id as =
     sfor (\<lambda>a. remove_from_indexes H A (ann_key a) (ann_value a) entity_id (ann_tier2 a)) as"

definition apply_annotation_diff ::
  "hostlib \<Rightarrow> 's state_adapter \<Rightarrow> annotation list \<Rightarrow> annotation list \<Rightarrow> u64 \<Rightarrow>
    ('s, db_error, unit) sm" where
  "apply_annotation_diff H A old new entity_id =
     sbind (remove_annotations H A entity_id (filter (\<lambda>a. a \<notin> set new) old)) (\<lambda>_.
     insert_annotations H A entity_id (filter (\<lambda>a. a \<notin> set old) new))"

subsection \<open>The handlers\<close>

text \<open>The increment of the entity counter wraps, as \<open>u64\<close> addition does in a release build.\<close>

definition entitydb_create ::
  "hostlib \<Rightarrow> 's state_adapter \<Rightarrow> address \<Rightarrow> b256 \<Rightarrow> u64 \<Rightarrow> u64 \<Rightarrow> bytes \<Rightarrow> bytes \<Rightarrow>
    attribute list \<Rightarrow> ('s, db_error, unit) sm" where
  "entitydb_create H A sender entity_key expires_at current_block payload content_type attributes =
     (let count_slot = slot_entity_count H in
     sbind (ad_storage A SYSTEM_ACCOUNT_ADDRESS count_slot) (\<lambda>prev.
     let entity_id = storage_to_u64 prev in
     sbind (ad_set_storage A SYSTEM_ACCOUNT_ADDRESS count_slot (u64_to_storage (entity_id + 1))) (\<lambda>_.
     let entity_addr = entity_address entity_key in
     sbind (ad_set_storage A SYSTEM_ACCOUNT_ADDRESS (slot_id_to_addr H entity_id)
              (address_to_storage entity_addr)) (\<lambda>_.
     sbind (ad_set_storage A SYSTEM_ACCOUNT_ADDRESS (slot_addr_to_id H entity_addr)
              (u64_to_storage entity_id)) (\<lambda>_.
     sbind (insert_annotations H A entity_id
              (built_in_annotations sender sender entity_key current_block expires_at content_type @
               user_annotations attributes)) (\<lambda>_.
     ad_set_code A entity_addr
       (encode_as_code H
         \<lparr>ent_payload = payload, ent_creator = sender, ent_created_at_block = current_block,
          ent_owner = sender, ent_expires_at = expires_at, ent_content_type = content_type,
          ent_key = entity_key, ent_attributes = attributes,
          ent_last_modified_at_block = current_block\<rparr>)))))))"

definition entitydb_update ::
  "hostlib \<Rightarrow> 's state_adapter \<Rightarrow> b256 \<Rightarrow> u64 \<Rightarrow> bytes \<Rightarrow> bytes \<Rightarrow> attribute list \<Rightarrow>
    ('s, db_error, unit) sm" where
  "entitydb_update H A entity_key current_block payload content_type attributes =
     (let entity_addr = entity_address entity_key in
     sbind (read_entity_id H A entity_addr) (\<lambda>entity_id.
     sbind (read_entity H A entity_addr) (\<lambda>entity.
     sbind (apply_annotation_diff H A
              (updatable_annotations (ent_content_type entity) (ent_attributes entity))
              (updatable_annotations content_type attributes) entity_id) (\<lambda>_.
     ad_set_code A entity_addr
       (encode_as_code H
         (entity\<lparr>ent_payload := payload, ent_content_type := content_type,
           ent_attributes := attributes, ent_last_modified_at_block := current_block\<rparr>))))))"

definition entitydb_extend ::
  "hostlib \<Rightarrow> 's state_adapter \<Rightarrow> b256 \<Rightarrow> u64 \<Rightarrow> u64 \<Rightarrow> ('s, db_error, unit) sm" where
  "entitydb_extend H A entity_key current_block new_expires_at =
     (let entity_addr = entity_address entity_key in
     sbind (read_entity_id H A entity_addr) (\<lambda>entity_id.
     sbind (read_entity H A entity_addr) (\<lambda>entity.
     sbind (remove_from_indexes H A ANNOT_EXPIRATION (encode_u64_be (ent_expires_at entity))
              entity_id True) (\<lambda>_.
     sbind (insert_into_indexes H A ANNOT_EXPIRATION (encode_u64_be new_expires_at)
              entity_id True) (\<lambda>_.
     ad_set_code A entity_addr
       (encode_as_code H
         (entity\<lparr>ent_expires_at := new_expires_at,
           ent_last_modified_at_block := current_block\<rparr>)))))))"

definition entitydb_transfer ::
  "hostlib \<Rightarrow> 's state_adapter \<Rightarrow> b256 \<Rightarrow> u64 \<Rightarrow> address \<Rightarrow> ('s, db_error, unit) sm" where
  "entitydb_transfer H A entity_key current_block new_owner =
     (let entity_addr = entity_address entity_key in
     sbind (read_entity_id H A entity_addr) (\<lambda>entity_id.
     sbind (read_entity H A entity_addr) (\<lambda>entity.
     sbind (remove_from_indexes H A ANNOT_OWNER (encode_address (ent_owner entity))
              entity_id False) (\<lambda>_.
     sbind (insert_into_indexes H A ANNOT_OWNER (encode_address new_owner) entity_id False) (\<lambda>_.
     ad_set_code A entity_addr
       (encode_as_code H
         (entity\<lparr>ent_owner := new_owner,
           ent_last_modified_at_block := current_block\<rparr>)))))))"

definition entitydb_delete :: "hostlib \<Rightarrow> 's state_adapter \<Rightarrow> b256 \<Rightarrow> ('s, db_error, unit) sm" where
  "entitydb_delete H A entity_key =
     (let entity_addr = entity_address entity_key in
     sbind (read_entity_id H A entity_addr) (\<lambda>entity_id.
     sbind (read_entity H A entity_addr) (\<lambda>entity.
     sbind (remove_annotations H A entity_id
              (built_in_annotations (ent_creator entity) (ent_owner entity) entity_key
                 (ent_created_at_block entity) (ent_expires_at entity) (ent_content_type entity) @
               user_annotations (ent_attributes entity))) (\<lambda>_.
     sbind (ad_set_storage A SYSTEM_ACCOUNT_ADDRESS (slot_id_to_addr H entity_id) zero_b256) (\<lambda>_.
     sbind (ad_set_storage A SYSTEM_ACCOUNT_ADDRESS (slot_addr_to_id H entity_addr) zero_b256) (\<lambda>_.
     ad_tombstone_code A entity_addr))))))"

definition entitydb_expire :: "hostlib \<Rightarrow> 's state_adapter \<Rightarrow> b256 \<Rightarrow> ('s, db_error, unit) sm" where
  "entitydb_expire H A entity_key = entitydb_delete H A entity_key"

end
