(* ===== verification/StateMemory.thy ===== *)
theory StateMemory
  imports EntityDb
begin

text \<open>
  What the handlers rely on from a \<open>StateAdapter\<close>, as a locale: reads return the code and the slot
  last written, writes change exactly the code or the slot they name, nothing fails. The handlers
  run the same way on every adapter that keeps these laws, so they are studied on the plain
  memory of codes and slots. The in-memory adapter of the crate is an interpretation.
\<close>

subsection \<open>The plain memory\<close>

record mem =
  codes :: "address \<Rightarrow> bytes"
  slots :: "address \<Rightarrow> b256 \<Rightarrow> b256"

definition mem_adapter :: "mem state_adapter" where
  "mem_adapter =
     \<lparr>ad_code = \<lambda>a m. Inr (codes m a, m),
      ad_set_code = \<lambda>a c m. Inr ((), m\<lparr>codes := (codes m)(a := c)\<rparr>),
      ad_tombstone_code = \<lambda>a m. Inr ((), m\<lparr>codes := (codes m)(a := [])\<rparr>),
      ad_storage = \<lambda>a k m. Inr (slots m a k, m),
      ad_set_storage = \<lambda>a k v m. Inr ((), m\<lparr>slots := (slots m)(a := (slots m a)(k := v))\<rparr>),
      ad_ensure_account_persists = \<lambda>a m. Inr ((), m)\<rparr>"

lemma wp_mem [wp_simps]:
  "wp (ad_code mem_adapter a) m Q = Q (codes m a) m"
  "wp (ad_set_code mem_adapter a c) m R = R () (m\<lparr>codes := (codes m)(a := c)\<rparr>)"
  "wp (ad_tombstone_code mem_adapter a) m R = R () (m\<lparr>codes := (codes m)(a := [])\<rparr>)"
  "wp (ad_storage mem_adapter a k) m S = S (slots m a k) m"
  "wp (ad_set_storage mem_adapter a k v) m R =
     R () (m\<lparr>slots := (slots m)(a := (slots m a)(k := v))\<rparr>)"
  "wp (ad_ensure_account_persists mem_adapter a) m R = R () m"
  by (simp_all add: wp_def mem_adapter_def)

definition empty_mem :: mem where
  "empty_mem = \<lparr>codes = \<lambda>_. [], slots = \<lambda>_ _. zero_b256\<rparr>"

subsection \<open>The laws\<close>

text \<open>What a query needs of an adapter: it reads codes and storage from the memory of the state.\<close>

locale reader_laws =
  fixes A :: "'s state_adapter" and view :: "'s \<Rightarrow> mem" and ok :: "'s \<Rightarrow> bool"
  assumes code_law: "ok s \<Longrightarrow> \<exists>s'. ad_code A a s = Inr (codes (view s) a, s') \<and>
      view s' = view s \<and> ok s'"
    and storage_law: "ok s \<Longrightarrow> \<exists>s'. ad_storage A a k s = Inr (slots (view s) a k, s') \<and>
      view s' = view s \<and> ok s'"
begin

text \<open>\<open>sim m n\<close>: on the state, \<open>m\<close> does what \<open>n\<close> does on the memory the state stands for.\<close>

definition sim :: "('s, 'e, 'a) sm \<Rightarrow> (mem, 'e, 'a) sm \<Rightarrow> bool" where
  "sim m n \<longleftrightarrow> (\<forall>s. ok s \<longrightarrow>
     (case n (view s) of
        Inl e \<Rightarrow> m s = Inl e
      | Inr (x, v) \<Rightarrow> \<exists>s'. m s = Inr (x, s') \<and> view s' = v \<and> ok s'))"

named_theorems sim_intros "how running on the state follows running on the memory"

lemma sim_prims [sim_intros]:
  "sim (ad_code A a) (ad_code mem_adapter a)"
  "sim (ad_storage A a k) (ad_storage mem_adapter a k)"
  using code_law storage_law by (simp_all add: sim_def mem_adapter_def)

lemma sim_basic [sim_intros]:
  "sim (sret x) (sret x)" "sim (sfail e) (sfail e)" "sim (slift r) (slift r)"
  "sim (or_panic p) (or_panic p)"
  by (auto simp: sim_def sret_def sfail_def slift_def or_panic_def split: sum.split option.split)

lemma sim_sbind [sim_intros]:
  "sim m n \<Longrightarrow> (\<And>x. sim (f x) (g x)) \<Longrightarrow> sim (sbind m f) (sbind n g)"
  by (fastforce simp: sim_def sbind_def split: sum.splits prod.splits)

lemma sim_if [sim_intros]:
  "(c \<Longrightarrow> sim m n) \<Longrightarrow> (\<not> c \<Longrightarrow> sim m' n') \<Longrightarrow> sim (if c then m else m') (if c then n else n')"
  by simp

lemma sim_case_prod [sim_intros]:
  "(\<And>a b. sim (f a b) (g a b)) \<Longrightarrow> sim (case p of (a, b) \<Rightarrow> f a b) (case p of (a, b) \<Rightarrow> g a b)"
  by (simp split: prod.split)

lemma sim_case_option [sim_intros]:
  "sim m n \<Longrightarrow> (\<And>x. sim (f x) (g x)) \<Longrightarrow> sim (case z of None \<Rightarrow> m | Some x \<Rightarrow> f x)
    (case z of None \<Rightarrow> n | Some x \<Rightarrow> g x)"
  by (simp split: option.split)

lemma sim_smap_err [sim_intros]: "sim m n \<Longrightarrow> sim (smap_err f m) (smap_err f n)"
  by (fastforce simp: sim_def smap_err_def split: sum.splits)

lemma sim_sfor [sim_intros]: "(\<And>x. sim (f x) (g x)) \<Longrightarrow> sim (sfor f xs) (sfor g xs)"
  by (induction xs) (auto intro: sim_intros)

lemma sim_readers [sim_intros]:
  "sim (read_nonce H A c) (read_nonce H mem_adapter c)"
  "sim (payload_reference_nonce_used H A c n) (payload_reference_nonce_used H mem_adapter c n)"
  "sim (read_pair_bitmap H A k v) (read_pair_bitmap H mem_adapter k v)"
  "sim (all_entities H A) (all_entities H mem_adapter)"
  "sim (read_index_tree H A k) (read_index_tree H mem_adapter k)"
  "sim (resolve_id H A i) (resolve_id H mem_adapter i)"
  "sim (read_entity H A a) (read_entity H mem_adapter a)"
  "sim (read_entity_id H A a) (read_entity_id H mem_adapter a)"
  unfolding read_nonce_def payload_reference_nonce_used_def read_pair_bitmap_def all_entities_def
    read_index_tree_def resolve_id_def read_entity_def read_entity_id_def Let_def
  by (intro sim_intros)+

lemma sim_wp:
  assumes "sim m n" "ok s" "wp n (view s) Q"
  shows "wp m s (\<lambda>x s'. ok s' \<and> Q x (view s'))"
proof -
  from assms(3) obtain x v where "n (view s) = Inr (x, v)" "Q x v" by (auto simp: wp_iff)
  with assms(1,2) show ?thesis unfolding sim_def by (fastforce simp: wp_iff)
qed

lemma sim_result:
  "sim m n \<Longrightarrow> ok s \<Longrightarrow> wp n (view s) (\<lambda>x _. Q x) \<Longrightarrow> wp m s (\<lambda>x _. Q x)"
  using sim_wp[of m n s "\<lambda>x _. Q x"] by (auto elim: wp_mono)

lemma sim_Inl: "sim m n \<Longrightarrow> ok s \<Longrightarrow> n (view s) = Inl e \<Longrightarrow> m s = Inl e"
  by (fastforce simp: sim_def)

end

text \<open>What the handlers need besides: writes arrive in the memory.\<close>

locale adapter_laws = reader_laws +
  assumes set_code_law: "ok s \<Longrightarrow> \<exists>s'. ad_set_code A a c s = Inr ((), s') \<and>
      view s' = (view s)\<lparr>codes := (codes (view s))(a := c)\<rparr> \<and> ok s'"
    and tombstone_law: "ok s \<Longrightarrow> \<exists>s'. ad_tombstone_code A a s = Inr ((), s') \<and>
      view s' = (view s)\<lparr>codes := (codes (view s))(a := [])\<rparr> \<and> ok s'"
    and set_storage_law: "ok s \<Longrightarrow> \<exists>s'. ad_set_storage A a k v s = Inr ((), s') \<and>
      view s' = (view s)\<lparr>slots := (slots (view s))(a := (slots (view s) a)(k := v))\<rparr> \<and> ok s'"
    and ensure_law: "ok s \<Longrightarrow> \<exists>s'. ad_ensure_account_persists A a s = Inr ((), s') \<and>
      view s' = view s \<and> ok s'"
begin

lemma sim_writes [sim_intros]:
  "sim (ad_set_code A a c) (ad_set_code mem_adapter a c)"
  "sim (ad_tombstone_code A a) (ad_tombstone_code mem_adapter a)"
  "sim (ad_set_storage A a k v) (ad_set_storage mem_adapter a k v)"
  "sim (ad_ensure_account_persists A a) (ad_ensure_account_persists mem_adapter a)"
  using set_code_law tombstone_law set_storage_law ensure_law
  by (simp_all add: sim_def mem_adapter_def)

lemma sim_counters [sim_intros]:
  "sim (bump_nonce H A c) (bump_nonce H mem_adapter c)"
  "sim (consume_payload_reference_nonce H A c n) (consume_payload_reference_nonce H mem_adapter c n)"
  unfolding bump_nonce_def consume_payload_reference_nonce_def Let_def
  by (intro sim_intros)+

lemma sim_index [sim_intros]:
  "sim (insert_into_indexes H A k v i t) (insert_into_indexes H mem_adapter k v i t)"
  "sim (remove_from_indexes H A k v i t) (remove_from_indexes H mem_adapter k v i t)"
  unfolding insert_into_indexes_def remove_from_indexes_def Let_def
  by (intro sim_intros)+

lemma sim_loops [sim_intros]:
  "sim (insert_annotations H A i as) (insert_annotations H mem_adapter i as)"
  "sim (remove_annotations H A i as) (remove_annotations H mem_adapter i as)"
  unfolding insert_annotations_def remove_annotations_def by (intro sim_intros)+

lemma sim_handlers [sim_intros]:
  "sim (entitydb_create H A sndr k ex b p ct as) (entitydb_create H mem_adapter sndr k ex b p ct as)"
  "sim (entitydb_update H A k b p ct as) (entitydb_update H mem_adapter k b p ct as)"
  "sim (entitydb_extend H A k b ex) (entitydb_extend H mem_adapter k b ex)"
  "sim (entitydb_transfer H A k b new) (entitydb_transfer H mem_adapter k b new)"
  "sim (entitydb_delete H A k) (entitydb_delete H mem_adapter k)"
  "sim (entitydb_expire H A k) (entitydb_expire H mem_adapter k)"
  unfolding entitydb_create_def entitydb_update_def entitydb_extend_def entitydb_transfer_def entitydb_delete_def entitydb_expire_def
    apply_annotation_diff_def Let_def
  by (intro sim_intros)+

end

subsection \<open>The in-memory adapter of the crate\<close>

record account_state =
  acc_nonce :: u64
  acc_code :: bytes
  acc_storage :: "b256 \<rightharpoonup> b256"

type_synonym state_db = "address \<rightharpoonup> account_state"

definition default_account :: account_state where
  "default_account = \<lparr>acc_nonce = 0, acc_code = [], acc_storage = Map.empty\<rparr>"

definition account :: "state_db \<Rightarrow> address \<Rightarrow> account_state" where
  "account db addr = (case db addr of None \<Rightarrow> default_account | Some a \<Rightarrow> a)"

definition account_mut :: "address \<Rightarrow> (account_state \<Rightarrow> account_state) \<Rightarrow> state_db \<Rightarrow> state_db" where
  "account_mut addr f db = db(addr \<mapsto> f (account db addr))"

definition persist :: "account_state \<Rightarrow> account_state" where
  "persist acc = (if acc_nonce acc = 0 then acc\<lparr>acc_nonce := 1\<rparr> else acc)"

definition in_memory_adapter :: "state_db state_adapter" where
  "in_memory_adapter =
     \<lparr>ad_code = \<lambda>addr db. Inr (case db addr of None \<Rightarrow> [] | Some a \<Rightarrow> acc_code a, db),
      ad_set_code = \<lambda>addr code db.
        Inr ((), account_mut addr (\<lambda>a. persist (a\<lparr>acc_code := code\<rparr>)) db),
      ad_tombstone_code = \<lambda>addr db.
        Inr ((), account_mut addr (\<lambda>a. persist (a\<lparr>acc_code := []\<rparr>)) db),
      ad_storage = \<lambda>addr slot db.
        Inr (case db addr of None \<Rightarrow> zero_b256
             | Some a \<Rightarrow> (case acc_storage a slot of None \<Rightarrow> zero_b256 | Some v \<Rightarrow> v), db),
      ad_set_storage = \<lambda>addr slot value db.
        Inr ((), account_mut addr (\<lambda>a. a\<lparr>acc_storage := (acc_storage a)(slot \<mapsto> value)\<rparr>) db),
      ad_ensure_account_persists = \<lambda>addr db. Inr ((), account_mut addr persist db)\<rparr>"

definition db_view :: "state_db \<Rightarrow> mem" where
  "db_view db =
     \<lparr>codes = \<lambda>addr. acc_code (account db addr),
      slots = \<lambda>addr slot.
        (case acc_storage (account db addr) slot of None \<Rightarrow> zero_b256 | Some v \<Rightarrow> v)\<rparr>"

lemma persist_sel [simp]:
  "acc_code (persist a) = acc_code a" "acc_storage (persist a) = acc_storage a"
  by (simp_all add: persist_def)

lemma account_sel:
  "(case db addr of None \<Rightarrow> [] | Some a \<Rightarrow> acc_code a) = acc_code (account db addr)"
  "(case db addr of None \<Rightarrow> zero_b256 | Some a \<Rightarrow> f (acc_storage a)) =
    (case db addr of None \<Rightarrow> zero_b256 | Some a \<Rightarrow> f (acc_storage (account db addr)))"
  by (auto simp: account_def default_account_def split: option.split)

lemma account_mut_account [simp]:
  "account (account_mut addr f db) = (account db)(addr := f (account db addr))"
  by (auto simp: account_mut_def account_def fun_eq_iff)

lemma db_view_mut:
  "db_view (account_mut a (\<lambda>x. persist (x\<lparr>acc_code := c\<rparr>)) db) =
    (db_view db)\<lparr>codes := (codes (db_view db))(a := c)\<rparr>"
  "db_view (account_mut a (\<lambda>x. x\<lparr>acc_storage := (acc_storage x)(k \<mapsto> v)\<rparr>) db) =
    (db_view db)\<lparr>slots := (slots (db_view db))(a := (slots (db_view db) a)(k := v))\<rparr>"
  "db_view (account_mut a persist db) = db_view db"
  by (simp_all add: db_view_def fun_eq_iff)

interpretation db: adapter_laws in_memory_adapter db_view "\<lambda>_. True"
proof unfold_locales
  fix s a k
  have "(case s a of None \<Rightarrow> zero_b256
      | Some a \<Rightarrow> (case acc_storage a k of None \<Rightarrow> zero_b256 | Some v \<Rightarrow> v)) = slots (db_view s) a k"
    by (simp add: db_view_def account_def default_account_def split: option.split)
  then show "\<exists>s'. ad_storage in_memory_adapter a k s = Inr (slots (db_view s) a k, s') \<and>
      db_view s' = db_view s \<and> True"
    by (simp add: in_memory_adapter_def)
qed (simp_all add: in_memory_adapter_def account_sel(1) db_view_mut, simp_all add: db_view_def)

lemma db_view_empty: "db_view Map.empty = empty_mem"
  by (simp add: db_view_def empty_mem_def account_def default_account_def)

end
