(* ===== verification/BaseFee.thy ===== *)
theory BaseFee
  imports Prelude
begin

text \<open>
  The fee market of the vendored \<open>alloy-eips\<close> crate as Arkiv changed it
  (\<open>vendor/alloy-eips/src/eip1559/arkiv_schedule.rs\<close> and \<open>helpers.rs\<close>): protocol parameters by
  activation block, the base fee of the next block with Arkiv's floor, and the gas limit of the
  next block with Arkiv's cap. Arithmetic wraps as in a release build, and \<open>None\<close> is a panic
  (a division by zero, or \<open>clamp\<close> with its bounds the wrong way round).
\<close>

definition ARKIV_DEFAULT_MIN_BASE_FEE_PER_GAS :: u64 where
  "ARKIV_DEFAULT_MIN_BASE_FEE_PER_GAS = 440000000"

definition PAYMENT_BPS_DENOMINATOR :: u16 where
  "PAYMENT_BPS_DENOMINATOR = 10000"

record provider_payment =
  pp_enabled :: bool
  provider_share_bps :: u16
  minimum_payment :: u64

record protocol_params =
  min_base_fee_per_gas :: u64
  elasticity_multiplier :: u128
  base_fee_max_change_denominator :: u128
  max_block_gas_limit :: u64
  payload_provider_payment :: provider_payment

definition default_params :: protocol_params where
  "default_params = \<lparr>min_base_fee_per_gas = ARKIV_DEFAULT_MIN_BASE_FEE_PER_GAS,
     elasticity_multiplier = 2, base_fee_max_change_denominator = 8, max_block_gas_limit = - 1,
     payload_provider_payment = \<lparr>pp_enabled = False, provider_share_bps = 0, minimum_payment = 0\<rparr>\<rparr>"

record schedule_entry =
  activation_block :: u64
  entry_params :: protocol_params

type_synonym schedule = "schedule_entry list"

definition params_for_block :: "schedule \<Rightarrow> u64 \<Rightarrow> protocol_params" where
  "params_for_block sched block_number =
     (case List.find (\<lambda>e. activation_block e \<le> block_number) (rev sched) of
        None \<Rightarrow> default_params | Some e \<Rightarrow> entry_params e)"

definition params_latest :: "schedule \<Rightarrow> protocol_params" where
  "params_latest sched = (if sched = [] then default_params else entry_params (last sched))"

definition GAS_LIMIT_BOUND_DIVISOR :: u64 where
  "GAS_LIMIT_BOUND_DIVISOR = 1024"

subsection \<open>The base fee of the next block\<close>

definition calc_next_block_base_fee :: "schedule \<Rightarrow> u64 \<Rightarrow> u64 \<Rightarrow> u64 \<Rightarrow> u64 option" where
  "calc_next_block_base_fee sched gas_used gas_limit base_fee =
     (let p = params_latest sched;
          elasticity = elasticity_multiplier p;
          max_change_denominator = base_fee_max_change_denominator p in
      if elasticity = 0 \<or> max_change_denominator = 0 then Some (max base_fee (min_base_fee_per_gas p))
      else
        let gas_target = (ucast ((ucast gas_limit :: u128) div elasticity) :: u64) in
        if gas_target = 0 then Some (max base_fee (min_base_fee_per_gas p))
        else
          let divisor = ucast gas_target * max_change_denominator in
          map_option (\<lambda>next. max next (min_base_fee_per_gas p))
            (if gas_used = gas_target then Some base_fee
             else if divisor = 0 then None
             else if gas_target < gas_used then
               Some (base_fee + ucast (max 1 (ucast base_fee * ucast (gas_used - gas_target) div divisor)))
             else
               Some (sat_sub base_fee (ucast (ucast base_fee * ucast (gas_target - gas_used) div divisor)))))"

definition clamp :: "u64 \<Rightarrow> u64 \<Rightarrow> u64 \<Rightarrow> u64 option" where
  "clamp x lo hi = (if hi < lo then None else Some (if x < lo then lo else if hi < x then hi else x))"

definition calculate_block_gas_limit :: "schedule \<Rightarrow> u64 \<Rightarrow> u64 \<Rightarrow> u64 option" where
  "calculate_block_gas_limit sched parent_gas_limit desired_gas_limit =
     (let desired = min desired_gas_limit (max_block_gas_limit (params_latest sched));
          delta = sat_sub (parent_gas_limit div GAS_LIMIT_BOUND_DIVISOR) 1 in
      clamp desired (parent_gas_limit - delta) (parent_gas_limit + delta))"

definition calc_effective_gas_price :: "u128 \<Rightarrow> u128 \<Rightarrow> u64 option \<Rightarrow> u128" where
  "calc_effective_gas_price max_fee_per_gas max_priority_fee_per_gas base_fee =
     (case base_fee of
        None \<Rightarrow> max_fee_per_gas
      | Some fee \<Rightarrow>
          if max_priority_fee_per_gas < sat_sub max_fee_per_gas (ucast fee)
          then max_priority_fee_per_gas + ucast fee else max_fee_per_gas)"

subsection \<open>Arithmetic without wrap-around\<close>

lemma u64_bound: "unat (x :: u64) < 2 ^ 64"
  using unat_bound[of x] by simp

lemma unat_ucast_u128 [simp]: "unat (ucast (x :: u64) :: u128) = unat x"
  using u64_bound[of x] by (simp add: unsigned_ucast_eq take_bit_nat_eq_self)

lemma unat_ucast_u64: "unat (ucast (x :: u128) :: u64) = unat x mod 2 ^ 64"
  by (simp add: unsigned_ucast_eq take_bit_eq_mod)

lemma unat_mult_u128: "unat (ucast (a :: u64) * ucast (b :: u64) :: u128) = unat a * unat b"
proof -
  have "unat a * unat b < 2 ^ 64 * 2 ^ 64" by (intro mult_strict_mono u64_bound) simp_all
  then show ?thesis by (simp add: unat_word_ariths)
qed

text \<open>The formula of EIP-1559 on natural numbers.\<close>

definition eip1559_next :: "nat \<Rightarrow> nat \<Rightarrow> nat \<Rightarrow> nat \<Rightarrow> nat" where
  "eip1559_next d target used fee =
     (if used = target then fee
      else if target < used then fee + max 1 (fee * (used - target) div (target * d))
      else fee - fee * (target - used) div (target * d))"

lemma unat_max: "unat (max a b) = max (unat a) (unat b)" for a b :: "'w::len word"
  by (simp add: max_def word_le_nat_alt)

lemma max_between: "a \<le> n \<Longrightarrow> n \<le> b \<Longrightarrow> x = max f n \<Longrightarrow> a \<le> x \<and> x \<le> max f b \<and> f \<le> x" for a n b x f :: nat
  by auto

lemma step_down_le: "0 < target \<Longrightarrow> 0 < d \<Longrightarrow> fee * (target - used) div (target * d) \<le> fee div d" for fee :: nat
proof -
  assume "0 < target" "0 < d"
  have "fee * (target - used) div (target * d) \<le> fee * target div (target * d)"
    by (intro div_le_mono mult_le_mono2) simp
  also have "\<dots> = fee div d" using \<open>0 < target\<close> by (simp add: mult.commute)
  finally show ?thesis .
qed

lemma step_up_le:
  "used \<le> e * target \<Longrightarrow> 0 < target \<Longrightarrow> fee * (used - target) div (target * d) \<le> fee * (e - 1) div d" for fee :: nat
proof -
  assume a: "used \<le> e * target" "0 < target"
  have "used - target \<le> (e - 1) * target" using a(1) by (simp add: diff_mult_distrib)
  then have "fee * (used - target) div (target * d) \<le> fee * ((e - 1) * target) div (target * d)"
    by (intro div_le_mono mult_le_mono2)
  also have "\<dots> = target * (fee * (e - 1)) div (target * d)" by (simp add: ac_simps)
  also have "\<dots> = fee * (e - 1) div d" using a(2) by (rule div_mult_mult1[OF gr_implies_not0])
  finally show ?thesis .
qed

lemma ucast_div_target:
  assumes "elasticity_multiplier p \<noteq> 0"
  shows "unat (ucast ((ucast (l :: u64) :: u128) div elasticity_multiplier p) :: u64) = unat l div unat (elasticity_multiplier p)"
proof -
  have "unat l div unat (elasticity_multiplier p) < 2 ^ 64"
    using div_le_dividend[of "unat l" "unat (elasticity_multiplier p)"] u64_bound[of l] by linarith
  then show ?thesis by (simp add: unat_ucast_u64 unat_div)
qed


lemma base_fee_cases:
  fixes gas_used gas_limit base_fee :: u64
  assumes p: "p = params_latest sched" "e = unat (elasticity_multiplier p)"
      "d = unat (base_fee_max_change_denominator p)"
    and pos: "0 < e" "0 < d" "e \<le> unat gas_limit" and nw: "unat gas_limit div e * d < 2 ^ 128"
  defines "q \<equiv> unat base_fee * (unat gas_used - unat gas_limit div e) div (unat gas_limit div e * d)"
  shows "calc_next_block_base_fee sched gas_used gas_limit base_fee =
    Some (max (min_base_fee_per_gas p)
      (if unat gas_used = unat gas_limit div e then base_fee
       else if unat gas_limit div e < unat gas_used then base_fee + of_nat (max 1 q)
       else of_nat (eip1559_next d (unat gas_limit div e) (unat gas_used) (unat base_fee))))"
proof -
  let ?t = "unat gas_limit div e"
  let ?target = "ucast ((ucast gas_limit :: u128) div elasticity_multiplier p) :: u64"
  let ?dv = "ucast ?target * base_fee_max_change_denominator p :: u128"
  have e0: "elasticity_multiplier p \<noteq> 0" "base_fee_max_change_denominator p \<noteq> 0" using pos p by auto
  have t: "unat ?target = ?t" using ucast_div_target[OF e0(1)] p(2) by simp
  have t0: "0 < ?t" using pos by (simp add: div_greater_zero_iff)
  then have tz: "?target \<noteq> 0" using t by auto
  have dv: "unat ?dv = ?t * d" using nw t p(3) by (simp add: unat_word_ariths)
  then have dv0: "?dv \<noteq> 0" using t0 pos(2) by auto
  have up: "ucast (max 1 (ucast base_fee * ucast (gas_used - ?target) div ?dv)) = (of_nat (max 1 q) :: u64)"
    if "?target < gas_used"
  proof -
    have "unat (gas_used - ?target) = unat gas_used - ?t" using that t by (simp add: unat_sub)
    then have "unat (max 1 (ucast base_fee * ucast (gas_used - ?target) div ?dv)) = max 1 q"
      using dv by (simp add: unat_max unat_div unat_mult_u128 q_def)
    then show ?thesis by (simp add: word_unat_eq_iff unat_ucast_u64 unat_of_nat)
  qed
  have down: "sat_sub base_fee (ucast (ucast base_fee * ucast (?target - gas_used) div ?dv)) =
      of_nat (eip1559_next d ?t (unat gas_used) (unat base_fee))" if "gas_used < ?target"
  proof -
    let ?s = "unat base_fee * (?t - unat gas_used) div (?t * d)"
    have "unat (?target - gas_used) = ?t - unat gas_used" using that t by (simp add: unat_sub)
    then have s: "unat (ucast base_fee * ucast (?target - gas_used) div ?dv :: u128) = ?s"
      using dv by (simp add: unat_div unat_mult_u128)
    have "?s \<le> unat base_fee div d" by (rule step_down_le[OF t0 pos(2)])
    also have "\<dots> < 2 ^ 64" using div_le_dividend[of "unat base_fee" d] u64_bound[of base_fee] by linarith
    finally have s64: "?s < 2 ^ 64" .
    have "unat (ucast (ucast base_fee * ucast (?target - gas_used) div ?dv :: u128) :: u64) = ?s"
      using s s64 by (simp add: unat_ucast_u64)
    moreover have "unat gas_used < ?t" using that t by (simp add: word_less_nat_alt)
    moreover have "unat base_fee - ?s < 2 ^ 64" using u64_bound[of base_fee] by linarith
    ultimately show ?thesis
      by (simp add: word_unat_eq_iff unat_sat_sub eip1559_next_def unat_of_nat)
  qed
  have eq: "gas_used = ?target \<longleftrightarrow> unat gas_used = ?t" "?target < gas_used \<longleftrightarrow> ?t < unat gas_used"
    using t by (simp_all add: word_unat_eq_iff word_less_nat_alt)
  show ?thesis
  proof (cases "unat gas_used = ?t")
    case True
    then show ?thesis
      unfolding calc_next_block_base_fee_def Let_def p(1)[symmetric] using e0 tz eq(1) by (simp add: max.commute)
  next
    case False
    then have ne: "gas_used \<noteq> ?target" using eq(1) by simp
    show ?thesis
    proof (cases "?target < gas_used")
      case True
      then show ?thesis
        unfolding calc_next_block_base_fee_def Let_def p(1)[symmetric] up[OF True]
        using e0 tz dv0 ne False eq(2) by (simp add: max.commute)
    next
      case f: False
      then have l: "gas_used < ?target" using ne by simp
      show ?thesis
        unfolding calc_next_block_base_fee_def Let_def p(1)[symmetric] down[OF l]
        using e0 tz dv0 ne False f eq(2) by (simp add: max.commute)
    qed
  qed
qed


subsection \<open>Properties of the fee market\<close>

text \<open>The parameters in force are usable: no zero divisors, a target, and no wrap of the divisor.\<close>

definition fee_params_ok :: "protocol_params \<Rightarrow> u64 \<Rightarrow> bool" where
  "fee_params_ok p gas_limit \<longleftrightarrow>
     0 < unat (elasticity_multiplier p) \<and> 0 < unat (base_fee_max_change_denominator p) \<and>
     unat (elasticity_multiplier p) \<le> unat gas_limit \<and>
     unat gas_limit div unat (elasticity_multiplier p) * unat (base_fee_max_change_denominator p) < 2 ^ 128"

lemma base_fee_exact:
  fixes gas_used gas_limit base_fee :: u64
  assumes p: "p = params_latest sched" "e = unat (elasticity_multiplier p)"
      "d = unat (base_fee_max_change_denominator p)"
    and ok: "fee_params_ok p gas_limit"
    and n: "eip1559_next d (unat gas_limit div e) (unat gas_used) (unat base_fee) < 2 ^ 64"
  obtains nf where "calc_next_block_base_fee sched gas_used gas_limit base_fee = Some nf"
    "unat nf = max (unat (min_base_fee_per_gas p))
      (eip1559_next d (unat gas_limit div e) (unat gas_used) (unat base_fee))"
proof -
  let ?t = "unat gas_limit div e"
  let ?q = "unat base_fee * (unat gas_used - ?t) div (?t * d)"
  have c: "unat (base_fee + of_nat k) = unat base_fee + k" if "unat base_fee + k < 2 ^ 64" for k
    using that by (simp add: unat_word_ariths unat_of_nat)
  have s: "unat (of_nat k :: u64) = k" if "k < 2 ^ 64" for k
    using that by (simp add: unat_of_nat)
  have ok': "0 < e" "0 < d" "e \<le> unat gas_limit" "?t * d < 2 ^ 128"
    using ok p by (simp_all add: fee_params_ok_def)
  let ?w = "if unat gas_used = ?t then base_fee
       else if ?t < unat gas_used then base_fee + of_nat (max 1 ?q)
       else of_nat (eip1559_next d ?t (unat gas_used) (unat base_fee))"
  have "unat ?w = eip1559_next d ?t (unat gas_used) (unat base_fee)"
  proof (cases "?t < unat gas_used")
    case True
    then have e: "eip1559_next d ?t (unat gas_used) (unat base_fee) = unat base_fee + max 1 ?q"
      by (simp add: eip1559_next_def)
    show ?thesis using c[of "max 1 ?q"] n True unfolding e by simp
  next
    case False
    then have "?w = of_nat (eip1559_next d ?t (unat gas_used) (unat base_fee))"
      by (simp add: eip1559_next_def)
    then show ?thesis using s[OF n] by simp
  qed
  then show thesis using that base_fee_cases[OF p ok', of gas_used base_fee] by (simp add: unat_max)
qed



text \<open>
  C25. The gas limit of the next block stays within the bound divisor of its parent, and is the
  desired limit under Arkiv's cap whenever that is within reach.
\<close>

theorem gas_limit_bounds:
  fixes parent desired :: u64
  assumes "unat parent + unat parent div 1024 < 2 ^ 64"
  shows "\<exists>l. calculate_block_gas_limit sched parent desired = Some l \<and>
    unat parent - (unat parent div 1024 - 1) \<le> unat l \<and> unat l \<le> unat parent + (unat parent div 1024 - 1) \<and>
    (let want = min desired (max_block_gas_limit (params_latest sched)) in
       unat parent - (unat parent div 1024 - 1) \<le> unat want \<and> unat want \<le> unat parent + (unat parent div 1024 - 1)
       \<longrightarrow> l = want)"
proof -
  let ?delta = "sat_sub (parent div GAS_LIMIT_BOUND_DIVISOR) 1"
  let ?k = "unat parent div 1024 - 1"
  have d: "unat ?delta = ?k" by (simp add: unat_sat_sub unat_div GAS_LIMIT_BOUND_DIVISOR_def)
  have k: "?k \<le> unat parent" using div_le_dividend[of "unat parent" 1024] by linarith
  have lo: "unat (parent - ?delta) = unat parent - ?k" using d k by (simp add: unat_sub word_le_nat_alt)
  have hi: "unat (parent + ?delta) = unat parent + ?k" using d assms by (simp add: unat_word_ariths)
  have lh: "unat parent - ?k \<le> unat parent + ?k" by simp
  show ?thesis
    using lo hi lh unfolding calculate_block_gas_limit_def clamp_def Let_def word_less_nat_alt
    by (auto simp: not_less simp del: diff_le_self)
qed




lemma gas_limit_bounds_witness:
  "\<exists>l. calculate_block_gas_limit [] 30000000 60000000 = Some l \<and> unat l \<le> 30029295"
  using gas_limit_bounds[of 30000000 "[]" 60000000] by auto

end
