(* ===== verification/Lexer.thy ===== *)
theory Lexer
  imports Prelude
begin

text \<open>
  The lexer of the query language, \<open>crates/arkiv-entitydb/src/query/lexer.rs\<close>. A character is its
  Unicode code point and a string the list of its characters; the lexer's state is the rest of
  the input and the byte position, which advances by the UTF-8 length of each character.

  The Unicode tables behind \<open>is_alphabetic\<close> and \<open>is_alphanumeric\<close> beyond ASCII and the hex
  decoder of the primitives crate are parameters (\<open>lexenv\<close>).
\<close>

type_synonym uchar = nat
type_synonym ustring = "uchar list"

record lexenv =
  ualpha :: "uchar \<Rightarrow> bool"
  unumeric :: "uchar \<Rightarrow> bool"
  hex_decode :: "ustring \<Rightarrow> bytes option"

subsection \<open>Characters\<close>

definition len_utf8 :: "uchar \<Rightarrow> nat" where
  "len_utf8 c = (if c < 0x80 then 1 else if c < 0x800 then 2 else if c < 0x10000 then 3 else 4)"

definition utf8_char :: "uchar \<Rightarrow> bytes" where
  "utf8_char c =
     (if c < 0x80 then [of_nat c]
      else if c < 0x800 then [of_nat (0xC0 + c div 64), of_nat (0x80 + c mod 64)]
      else if c < 0x10000 then
        [of_nat (0xE0 + c div 4096), of_nat (0x80 + c div 64 mod 64), of_nat (0x80 + c mod 64)]
      else
        [of_nat (0xF0 + c div 262144), of_nat (0x80 + c div 4096 mod 64),
         of_nat (0x80 + c div 64 mod 64), of_nat (0x80 + c mod 64)])"

definition utf8 :: "ustring \<Rightarrow> bytes" where
  "utf8 s = concat (map utf8_char s)"

definition is_whitespace :: "uchar \<Rightarrow> bool" where
  "is_whitespace c \<longleftrightarrow> (9 \<le> c \<and> c \<le> 13) \<or> c = 0x20 \<or> c = 0x85 \<or> c = 0xA0 \<or> c = 0x1680 \<or>
     (0x2000 \<le> c \<and> c \<le> 0x200A) \<or> c = 0x2028 \<or> c = 0x2029 \<or> c = 0x202F \<or> c = 0x205F \<or> c = 0x3000"

definition is_ascii_digit :: "uchar \<Rightarrow> bool" where
  "is_ascii_digit c \<longleftrightarrow> 0x30 \<le> c \<and> c \<le> 0x39"

definition is_ascii_alpha :: "uchar \<Rightarrow> bool" where
  "is_ascii_alpha c \<longleftrightarrow> (0x41 \<le> c \<and> c \<le> 0x5A) \<or> (0x61 \<le> c \<and> c \<le> 0x7A)"

definition is_ascii_hexdigit :: "uchar \<Rightarrow> bool" where
  "is_ascii_hexdigit c \<longleftrightarrow> is_ascii_digit c \<or> (0x41 \<le> c \<and> c \<le> 0x46) \<or> (0x61 \<le> c \<and> c \<le> 0x66)"

definition is_alphabetic :: "lexenv \<Rightarrow> uchar \<Rightarrow> bool" where
  "is_alphabetic env c \<longleftrightarrow> (if c < 0x80 then is_ascii_alpha c else ualpha env c)"

definition is_alphanumeric :: "lexenv \<Rightarrow> uchar \<Rightarrow> bool" where
  "is_alphanumeric env c \<longleftrightarrow>
     (if c < 0x80 then is_ascii_alpha c \<or> is_ascii_digit c else ualpha env c \<or> unumeric env c)"

definition is_ident_start :: "lexenv \<Rightarrow> uchar \<Rightarrow> bool" where
  "is_ident_start env c \<longleftrightarrow> is_alphabetic env c \<or> c = 0x5F"

definition is_ident_continue :: "lexenv \<Rightarrow> uchar \<Rightarrow> bool" where
  "is_ident_continue env c \<longleftrightarrow> is_alphanumeric env c \<or> c = 0x5F"

definition ascii :: "string \<Rightarrow> ustring" where
  "ascii s = map of_char s"

definition to_ascii_lower :: "uchar \<Rightarrow> uchar" where
  "to_ascii_lower c = (if 0x41 \<le> c \<and> c \<le> 0x5A then c + 0x20 else c)"

definition eq_ignore_ascii_case :: "ustring \<Rightarrow> ustring \<Rightarrow> bool" where
  "eq_ignore_ascii_case s t \<longleftrightarrow> map to_ascii_lower s = map to_ascii_lower t"

subsection \<open>Tokens and errors\<close>

datatype token =
    TLParen | TRParen | TAnd | TOr | TEq | TNeq | TNot | TIn | TStar
  | TGt | TGte | TLt | TLte | TTilde | TNotTilde
  | TDollarAll | TDollarOwner | TDollarCreator | TDollarKey | TDollarExpiration
  | TDollarContentType | TDollarCreatedAtBlock
  | TEntityKey bytes
  | TAddress bytes
  | TStringLit ustring
  | TNumber u64
  | TIdent ustring

text \<open>
  One constructor per \<open>bail!\<close>, with the byte offset it reports; \<open>HexPanic\<close> is the panic of
  \<open>copy_from_slice\<close> on a decoded literal of the wrong length.
\<close>

datatype lex_error =
    UnexpectedChar nat uchar
  | ExpectedPair nat uchar uchar
  | UnterminatedString nat
  | UnknownEscape nat uchar
  | TrailingBackslash nat
  | HexDecode nat
  | HexPanic nat
  | HexLength nat nat
  | NumberRange nat
  | UnknownBuiltin nat ustring

subsection \<open>The lexer\<close>

type_synonym lexer = "ustring \<times> nat"

fun bump_char :: "lexer \<Rightarrow> lexer" where
  "bump_char ([], pos) = ([], pos)"
| "bump_char (c # cs, pos) = (cs, pos + len_utf8 c)"

fun peek_char :: "lexer \<Rightarrow> uchar option" where
  "peek_char ([], pos) = None"
| "peek_char (c # cs, pos) = Some c"

text \<open>Bump while the next character satisfies \<open>P\<close>; the result includes what was consumed.\<close>

fun bump_while :: "(uchar \<Rightarrow> bool) \<Rightarrow> ustring \<Rightarrow> nat \<Rightarrow> ustring \<times> lexer" where
  "bump_while P [] pos = ([], [], pos)"
| "bump_while P (c # cs) pos =
     (if P c then (case bump_while P cs (pos + len_utf8 c) of (s, l) \<Rightarrow> (c # s, l))
      else ([], c # cs, pos))"

definition skip_whitespace :: "lexer \<Rightarrow> lexer" where
  "skip_whitespace l = snd (bump_while is_whitespace (fst l) (snd l))"

definition expect_pair :: "lexer \<Rightarrow> uchar \<Rightarrow> uchar \<Rightarrow> lex_error + lexer" where
  "expect_pair l a b =
     (if peek_char l \<noteq> Some a \<or> peek_char (bump_char l) \<noteq> Some b
      then Inl (ExpectedPair (snd l) a b)
      else Inr (bump_char (bump_char l)))"

definition escape_char :: "uchar \<Rightarrow> uchar option" where
  "escape_char c =
     (if c = 0x22 then Some 0x22 else if c = 0x5C then Some 0x5C
      else if c = 0x6E then Some 0x0A else if c = 0x74 then Some 0x09
      else if c = 0x72 then Some 0x0D else None)"

text \<open>The loop of \<open>lex_string\<close> after the opening quote at byte \<open>start\<close>.\<close>

fun lex_string_loop :: "nat \<Rightarrow> ustring \<Rightarrow> ustring \<Rightarrow> nat \<Rightarrow> lex_error + token \<times> lexer" where
  "lex_string_loop start out [] pos = Inl (UnterminatedString start)"
| "lex_string_loop start out (c # cs) pos =
     (if c = 0x22 then Inr (TStringLit out, cs, pos + len_utf8 c)
      else if c = 0x5C then
        (case cs of
           [] \<Rightarrow> Inl (TrailingBackslash (pos + 1))
         | d # ds \<Rightarrow>
             (case escape_char d of
                None \<Rightarrow> Inl (UnknownEscape (pos + 1 + len_utf8 d - 1) d)
              | Some e \<Rightarrow> lex_string_loop start (out @ [e]) ds (pos + 1 + len_utf8 d)))
      else lex_string_loop start (out @ [c]) cs (pos + len_utf8 c))"

definition lex_string :: "lexer \<Rightarrow> lex_error + token \<times> lexer" where
  "lex_string l = (case bump_char l of (cs, pos) \<Rightarrow> lex_string_loop (snd l) [] cs pos)"

definition dec_val :: "ustring \<Rightarrow> nat" where
  "dec_val s = foldl (\<lambda>a c. a * 10 + (c - 0x30)) 0 s"

definition hex_literal :: "lexenv \<Rightarrow> nat \<Rightarrow> ustring \<Rightarrow> nat \<Rightarrow> (bytes \<Rightarrow> token) \<Rightarrow> lexer \<Rightarrow> lex_error + token \<times> lexer" where
  "hex_literal env start hex n tok l =
     (case hex_decode env hex of
        None \<Rightarrow> Inl (HexDecode start)
      | Some bs \<Rightarrow> if length bs = n then Inr (tok bs, l) else Inl (HexPanic start))"

definition lex_number_or_hex :: "lexenv \<Rightarrow> lexer \<Rightarrow> lex_error + token \<times> lexer" where
  "lex_number_or_hex env l =
     (let start = snd l
      in if take 2 (fst l) = ascii ''0x'' \<or> take 2 (fst l) = ascii ''0X'' then
           (case bump_while is_ascii_hexdigit (drop 2 (fst l)) (start + 2) of
              (hex, l') \<Rightarrow>
                if length hex = 40 then hex_literal env start hex 20 TAddress l'
                else if length hex = 64 then hex_literal env start hex 32 TEntityKey l'
                else Inl (HexLength start (length hex)))
         else
           (case bump_while is_ascii_digit (fst l) start of
              (s, l') \<Rightarrow>
                if s \<noteq> [] \<and> dec_val s < 2 ^ 64 then Inr (TNumber (of_nat (dec_val s)), l')
                else Inl (NumberRange start)))"

definition builtin_token :: "ustring \<Rightarrow> token option" where
  "builtin_token name =
     (if name = ascii ''all'' then Some TDollarAll
      else if name = ascii ''owner'' then Some TDollarOwner
      else if name = ascii ''creator'' then Some TDollarCreator
      else if name = ascii ''key'' then Some TDollarKey
      else if name = ascii ''expiration'' then Some TDollarExpiration
      else if name = ascii ''contentType'' then Some TDollarContentType
      else if name = ascii ''createdAtBlock'' then Some TDollarCreatedAtBlock
      else None)"

definition lex_dollar_ident :: "lexenv \<Rightarrow> lexer \<Rightarrow> lex_error + token \<times> lexer" where
  "lex_dollar_ident env l =
     (case bump_char l of
        (cs, pos) \<Rightarrow>
          (case bump_while (is_ident_continue env) cs pos of
             (name, l') \<Rightarrow>
               (case builtin_token name of
                  None \<Rightarrow> Inl (UnknownBuiltin (snd l) name)
                | Some t \<Rightarrow> Inr (t, l'))))"

definition keyword_or_ident :: "ustring \<Rightarrow> token" where
  "keyword_or_ident s =
     (if eq_ignore_ascii_case s (ascii ''and'') then TAnd
      else if eq_ignore_ascii_case s (ascii ''or'') then TOr
      else if eq_ignore_ascii_case s (ascii ''not'') then TNot
      else if eq_ignore_ascii_case s (ascii ''in'') then TIn
      else TIdent s)"

definition lex_ident_or_keyword :: "lexenv \<Rightarrow> lexer \<Rightarrow> lex_error + token \<times> lexer" where
  "lex_ident_or_keyword env l =
     (case bump_while (is_ident_continue env) (fst l) (snd l) of
        (s, l') \<Rightarrow> Inr (keyword_or_ident s, l'))"

text \<open>One token; \<open>None\<close> at the end of the input.\<close>

definition next_token :: "lexenv \<Rightarrow> lexer \<Rightarrow> lex_error + (token \<times> lexer) option" where
  "next_token env l0 =
     (let l = skip_whitespace l0
      in case peek_char l of
        None \<Rightarrow> Inr None
      | Some c \<Rightarrow>
          let l1 = bump_char l;
              one = (\<lambda>t. Inr (Some (t, l1)));
              two = (\<lambda>t. Inr (Some (t, bump_char l1)))
          in if c = 0x28 then one TLParen
             else if c = 0x29 then one TRParen
             else if c = 0x2A then one TStar
             else if c = 0x3D then one TEq
             else if c = 0x26 then map_sum id (\<lambda>l'. Some (TAnd, l')) (expect_pair l 0x26 0x26)
             else if c = 0x7C then map_sum id (\<lambda>l'. Some (TOr, l')) (expect_pair l 0x7C 0x7C)
             else if c = 0x21 then
               (if peek_char l1 = Some 0x3D then two TNeq
                else if peek_char l1 = Some 0x7E then two TNotTilde
                else one TNot)
             else if c = 0x3E then (if peek_char l1 = Some 0x3D then two TGte else one TGt)
             else if c = 0x3C then (if peek_char l1 = Some 0x3D then two TLte else one TLt)
             else if c = 0x7E then one TTilde
             else if c = 0x22 then map_sum id Some (lex_string l)
             else if is_ascii_digit c then map_sum id Some (lex_number_or_hex env l)
             else if c = 0x24 then map_sum id Some (lex_dollar_ident env l)
             else if is_ident_start env c then map_sum id Some (lex_ident_or_keyword env l)
             else Inl (UnexpectedChar (snd l) c))"

subsection \<open>Every token consumes input\<close>

lemma bump_while_length: "bump_while P cs pos = (s, l) \<Longrightarrow> cs = s @ fst l \<and> (\<forall>c \<in> set s. P c)"
  by (induction cs arbitrary: pos s) (auto split: if_splits prod.splits)

lemma bump_while_rest: "bump_while P cs pos = (s, l) \<Longrightarrow> fst l = [] \<or> \<not> P (hd (fst l))"
  by (induction cs arbitrary: pos s) (auto split: if_splits prod.splits)

lemma skip_whitespace_length: "length (fst (skip_whitespace l)) \<le> length (fst l)"
  using bump_while_length[of is_whitespace "fst l" "snd l"]
  by (cases "bump_while is_whitespace (fst l) (snd l)") (auto simp: skip_whitespace_def)

lemma lex_string_loop_length:
  "lex_string_loop start out cs pos = Inr (t, l) \<Longrightarrow> length (fst l) < length cs"
proof (induction start out cs pos rule: lex_string_loop.induct)
  case (1 start out pos)
  then show ?case by simp
next
  case (2 start out c cs pos)
  consider "c = 0x22" | "c = 0x5C" | "c \<noteq> 0x22" "c \<noteq> 0x5C" by blast
  then show ?case
  proof cases
    case 1
    then show ?thesis using "2.prems" by auto
  next
    case esc: 2
    then obtain d ds where cs: "cs = d # ds" using "2.prems" by (cases cs) auto
    with esc "2.prems" obtain e where "escape_char d = Some e"
      "lex_string_loop start (out @ [e]) ds (pos + 1 + len_utf8 d) = Inr (t, l)"
      by (auto split: option.splits)
    then show ?thesis using "2.IH"(1)[of d ds e] esc cs by auto
  next
    case 3
    then show ?thesis using 2 by auto
  qed
qed

lemma next_token_length:
  assumes "next_token env l0 = Inr (Some (t, l'))"
  shows "length (fst l') < length (fst l0)"
proof -
  obtain cs pos where l: "skip_whitespace l0 = (cs, pos)" by (cases "skip_whitespace l0")
  have le: "length cs \<le> length (fst l0)" using skip_whitespace_length[of l0] l by simp
  have ne: "cs \<noteq> []" using assms l by (auto simp: next_token_def)
  then obtain c ds where cs: "cs = c # ds" by (cases cs) auto
  have bump: "length (fst (bump_char l)) \<le> length (fst l)" for l by (cases l rule: bump_char.cases) auto
  have num: "length (fst l') < length (c # ds)"
    if "lex_number_or_hex env (c # ds, pos) = Inr (t, l')" "is_ascii_digit c"
  proof -
    obtain s r where s: "bump_while is_ascii_digit (c # ds) pos = (s, r)" by (rule prod.exhaust)
    have "s \<noteq> []" using s that(2) by (auto split: prod.splits)
    moreover have "c # ds = s @ fst r" using bump_while_length[OF s] by simp
    then have "length (c # ds) = length s + length (fst r)" by (metis length_append)
    moreover obtain h r' where h: "bump_while is_ascii_hexdigit (drop 2 (c # ds)) (pos + 2) = (h, r')"
      by (rule prod.exhaust)
    then have "drop 2 (c # ds) = h @ fst r'" using bump_while_length by blast
    then have "length (drop 2 (c # ds)) = length h + length (fst r')" by (metis length_append)
    ultimately show ?thesis
      using that(1) s h by (auto simp: lex_number_or_hex_def hex_literal_def Let_def
          split: if_splits option.splits)
  qed
  have idt: "length (fst l') < length (c # ds)"
    if "lex_ident_or_keyword env (c # ds, pos) = Inr (t, l')" "is_ident_start env c"
  proof -
    obtain s r where s: "bump_while (is_ident_continue env) (c # ds) pos = (s, r)" by (rule prod.exhaust)
    have "is_ident_continue env c"
      using that(2) by (auto simp: is_ident_start_def is_ident_continue_def is_alphabetic_def
          is_alphanumeric_def split: if_splits)
    then have "s \<noteq> []" using s by (auto split: prod.splits)
    moreover have "c # ds = s @ fst r" using bump_while_length[OF s] by simp
    then have "length (c # ds) = length s + length (fst r)" by (metis length_append)
    ultimately show ?thesis using that(1) s by (auto simp: lex_ident_or_keyword_def)
  qed
  have dol: "length (fst l') < length (c # ds)"
    if "lex_dollar_ident env (c # ds, pos) = Inr (t, l')"
  proof -
    obtain s r where s: "bump_while (is_ident_continue env) ds (pos + len_utf8 c) = (s, r)" by (rule prod.exhaust)
    have "ds = s @ fst r" using bump_while_length[OF s] by simp
    then have "length ds = length s + length (fst r)" by (metis length_append)
    then show ?thesis using that s by (auto simp: lex_dollar_ident_def split: option.splits)
  qed
  have str: "length (fst l') < length (c # ds)" if "lex_string (c # ds, pos) = Inr (t, l')"
    using that lex_string_loop_length by (fastforce simp: lex_string_def)
  have "length (fst l') < length (c # ds)"
    using assms num idt dol str bump[of "(ds, pos + len_utf8 c)"] l cs
    by (auto simp: next_token_def Let_def map_sum_def expect_pair_def split: if_splits sum.splits)
  with le cs show ?thesis by simp
qed

text \<open>\<open>tokenize\<close> runs the lexer to the end of the input.\<close>

function tokenize_from :: "lexenv \<Rightarrow> lexer \<Rightarrow> lex_error + token list" where
  "tokenize_from env l =
     (case next_token env l of
        Inl e \<Rightarrow> Inl e
      | Inr None \<Rightarrow> Inr []
      | Inr (Some (t, l')) \<Rightarrow> map_sum id (\<lambda>ts. t # ts) (tokenize_from env l'))"
  by pat_completeness auto
termination
  by (relation "measure (\<lambda>(env, l). length (fst l))") (auto dest: next_token_length)

declare tokenize_from.simps [simp del]

definition tokenize :: "lexenv \<Rightarrow> ustring \<Rightarrow> lex_error + token list" where
  "tokenize env src = tokenize_from env (src, 0)"

end
