(* ===== verification/LexerPrint.thy ===== *)
theory LexerPrint
  imports Lexer
begin

text \<open>
  A printer for tokens and the proof that the lexer inverts it: every sequence of printable
  tokens, printed with a space after each token, lexes to itself. UTF-8 text contains no byte
  \<open>0xFF\<close>, which is what the index tree asks of string keys.
\<close>

subsection \<open>UTF-8\<close>

definition scalar :: "uchar \<Rightarrow> bool" where
  "scalar c \<longleftrightarrow> c < 0x110000"

lemma byte_not_ff: "x < 255 \<Longrightarrow> 0xFF \<noteq> (of_nat x :: byte)"
proof
  assume "x < 255" "0xFF = (of_nat x :: byte)"
  then have "unat (0xFF :: byte) = unat (of_nat x :: byte)" by simp
  with \<open>x < 255\<close> show False by simp
qed

lemma utf8_char_ff:
  assumes "scalar c"
  shows "0xFF \<notin> set (utf8_char c)"
proof -
  consider "c < 0x80" | "0x80 \<le> c" "c < 0x800" | "0x800 \<le> c" "c < 0x10000" | "0x10000 \<le> c" "c < 0x110000"
    using assms unfolding scalar_def by linarith
  then show ?thesis
  proof cases
    case 1
    then show ?thesis using byte_not_ff[of c] by (simp add: utf8_char_def)
  next
    case 2
    then have "0xC0 + c div 64 < 255" "0x80 + c mod 64 < 255" by auto
    from this[THEN byte_not_ff] 2 show ?thesis
      by (simp add: utf8_char_def del: of_nat_add of_nat_numeral)
  next
    case 3
    then have "0xE0 + c div 4096 < 255" "0x80 + c div 64 mod 64 < 255" "0x80 + c mod 64 < 255" by auto
    from this[THEN byte_not_ff] 3 show ?thesis
      by (simp add: utf8_char_def del: of_nat_add of_nat_numeral)
  next
    case 4
    then have "0xF0 + c div 262144 < 255" "0x80 + c div 4096 mod 64 < 255"
      "0x80 + c div 64 mod 64 < 255" "0x80 + c mod 64 < 255" by auto
    from this[THEN byte_not_ff] 4 show ?thesis
      by (simp add: utf8_char_def del: of_nat_add of_nat_numeral)
  qed
qed

lemma length_utf8_char [simp]: "length (utf8_char c) = len_utf8 c"
  by (simp add: utf8_char_def len_utf8_def)

lemma length_utf8: "length (utf8 s) = sum_list (map len_utf8 s)"
  by (induction s) (simp_all add: utf8_def)

subsection \<open>Printing\<close>

definition hex_digit :: "nat \<Rightarrow> uchar" where
  "hex_digit n = (if n < 10 then 0x30 + n else 0x61 + (n - 10))"

definition hex_digits :: "bytes \<Rightarrow> ustring" where
  "hex_digits bs = concat (map (\<lambda>b. [hex_digit (unat b div 16), hex_digit (unat b mod 16)]) bs)"

fun dec_digits :: "nat \<Rightarrow> ustring" where
  "dec_digits n = (if n < 10 then [0x30 + n] else dec_digits (n div 10) @ [0x30 + n mod 10])"

declare dec_digits.simps [simp del]

definition escape :: "uchar \<Rightarrow> ustring" where
  "escape c = (if c = 0x22 \<or> c = 0x5C then [0x5C, c] else [c])"

fun show_token :: "token \<Rightarrow> ustring" where
  "show_token TLParen = ascii ''(''"
| "show_token TRParen = ascii '')''"
| "show_token TAnd = ascii ''AND''"
| "show_token TOr = ascii ''OR''"
| "show_token TEq = ascii ''=''"
| "show_token TNeq = ascii ''!=''"
| "show_token TNot = ascii ''NOT''"
| "show_token TIn = ascii ''IN''"
| "show_token TStar = ascii ''*''"
| "show_token TGt = ascii ''>''"
| "show_token TGte = ascii ''>=''"
| "show_token TLt = ascii ''<''"
| "show_token TLte = ascii ''<=''"
| "show_token TTilde = ascii ''~''"
| "show_token TNotTilde = ascii ''!~''"
| "show_token TDollarAll = ascii ''$all''"
| "show_token TDollarOwner = ascii ''$owner''"
| "show_token TDollarCreator = ascii ''$creator''"
| "show_token TDollarKey = ascii ''$key''"
| "show_token TDollarExpiration = ascii ''$expiration''"
| "show_token TDollarContentType = ascii ''$contentType''"
| "show_token TDollarCreatedAtBlock = ascii ''$createdAtBlock''"
| "show_token (TEntityKey b) = ascii ''0x'' @ hex_digits b"
| "show_token (TAddress a) = ascii ''0x'' @ hex_digits a"
| "show_token (TStringLit s) = 0x22 # concat (map escape s) @ [0x22]"
| "show_token (TNumber n) = dec_digits (unat n)"
| "show_token (TIdent s) = s"

definition printable :: "lexenv \<Rightarrow> token \<Rightarrow> bool" where
  "printable env t \<longleftrightarrow>
     (case t of
        TEntityKey b \<Rightarrow> length b = 32
      | TAddress a \<Rightarrow> length a = 20
      | TIdent s \<Rightarrow> s \<noteq> [] \<and> is_ident_start env (hd s) \<and> \<not> is_whitespace (hd s) \<and>
          (\<forall>c \<in> set s. is_ident_continue env c) \<and> keyword_or_ident s = TIdent s
      | _ \<Rightarrow> True)"

definition show_tokens :: "token list \<Rightarrow> ustring" where
  "show_tokens ts = concat (map (\<lambda>t. show_token t @ [0x20]) ts)"

subsection \<open>Lexing what was printed\<close>

lemma bump_while_app:
  "\<forall>c \<in> set s. P c \<Longrightarrow> rest = [] \<or> \<not> P (hd rest) \<Longrightarrow>
    bump_while P (s @ rest) pos = (s, rest, pos + sum_list (map len_utf8 s))"
proof (induction s arbitrary: pos)
  case Nil
  then show ?case by (cases rest) auto
qed simp

lemma dec_val_snoc: "dec_val (s @ [c]) = dec_val s * 10 + (c - 0x30)"
  by (simp add: dec_val_def)

lemma dec_digits_ok:
  "dec_val (dec_digits n) = n \<and> dec_digits n \<noteq> [] \<and> (\<forall>c \<in> set (dec_digits n). is_ascii_digit c)"
proof (induction n rule: dec_digits.induct)
  case (1 n)
  show ?case
  proof (cases "n < 10")
    case True
    then show ?thesis by (simp add: dec_digits.simps[of n] dec_val_def is_ascii_digit_def)
  next
    case False
    with 1 show ?thesis
      by (auto simp: dec_digits.simps[of n] dec_val_snoc is_ascii_digit_def)
  qed
qed

lemma hex_digit_ok: "n < 16 \<Longrightarrow> is_ascii_hexdigit (hex_digit n)"
  by (auto simp: is_ascii_hexdigit_def is_ascii_digit_def hex_digit_def)

lemma hex_digits_ok:
  "length (hex_digits bs) = 2 * length bs" "\<forall>c \<in> set (hex_digits bs). is_ascii_hexdigit c"
proof -
  show "length (hex_digits bs) = 2 * length bs" by (induction bs) (auto simp: hex_digits_def)
  have "unat b div 16 < 16" for b :: byte using unat_bound[of b] by simp
  then show "\<forall>c \<in> set (hex_digits bs). is_ascii_hexdigit c"
    by (auto simp: hex_digits_def intro!: hex_digit_ok)
qed

lemma lex_string_loop_show:
  "\<exists>p. lex_string_loop start out (concat (map escape s) @ 0x22 # rest) pos =
    Inr (TStringLit (out @ s), rest, p)"
proof (induction s arbitrary: out pos)
  case Nil
  then show ?case by simp
next
  case (Cons c s)
  show ?case
  proof (cases "c = 0x22 \<or> c = 0x5C")
    case True
    then have "escape c = [0x5C, c]" "escape_char c = Some c" by (auto simp: escape_def escape_char_def)
    then show ?thesis using Cons[of "out @ [c]" "pos + 1 + len_utf8 c"] by simp
  next
    case False
    then have "escape c = [c]" by (simp add: escape_def)
    then show ?thesis using Cons[of "out @ [c]" "pos + len_utf8 c"] False by simp
  qed
qed

definition hex_law :: "lexenv \<Rightarrow> bool" where
  "hex_law env \<longleftrightarrow> (\<forall>bs. length bs = 20 \<or> length bs = 32 \<longrightarrow> hex_decode env (hex_digits bs) = Some bs)"

lemma skip_ws:
  assumes "s \<noteq> []" "\<not> is_whitespace (hd s)" "\<forall>c \<in> set w. is_whitespace c"
  shows "\<exists>p. skip_whitespace (w @ s, pos) = (s, p)"
  using bump_while_app[OF assms(3), of s pos] assms(1,2) by (simp add: skip_whitespace_def)

text \<open>Punctuation, and words up to the next character that is no identifier character.\<close>

definition starts_other :: "lexenv \<Rightarrow> ustring \<Rightarrow> bool" where
  "starts_other env rest \<longleftrightarrow> rest = [] \<or> \<not> is_ident_continue env (hd rest)"

lemma space_other: "starts_other env (0x20 # rest)"
  by (simp add: starts_other_def is_ident_continue_def is_alphanumeric_def is_ascii_alpha_def
      is_ascii_digit_def)

lemma ascii_ident:
  "c < 0x80 \<Longrightarrow> is_ascii_alpha c \<or> is_ascii_digit c \<Longrightarrow> is_ident_continue env c"
  "c < 0x80 \<Longrightarrow> is_ascii_alpha c \<Longrightarrow> is_ident_start env c"
  by (simp_all add: is_ident_continue_def is_alphanumeric_def is_ident_start_def is_alphabetic_def)

lemma lex_word:
  assumes "\<forall>c \<in> set s. is_ident_continue env c" "starts_other env rest"
  shows "bump_while (is_ident_continue env) (s @ rest) pos = (s, rest, pos + sum_list (map len_utf8 s))"
  using assms by (intro bump_while_app) (auto simp: starts_other_def)

text \<open>The dispatch of \<open>next_token\<close> on the first character.\<close>

lemma skip_cons: "\<not> is_whitespace c \<Longrightarrow> skip_whitespace (c # cs, p) = (c # cs, p)"
  by (simp add: skip_whitespace_def)

lemma next_token_ws:
  assumes "s \<noteq> []" "\<not> is_whitespace (hd s)" "\<forall>c \<in> set w. is_whitespace c"
  shows "\<exists>p. next_token env (w @ s, pos) = next_token env (s, p)"
proof -
  obtain p where "skip_whitespace (w @ s, pos) = (s, p)" using skip_ws[OF assms] by blast
  moreover have "skip_whitespace (s, p) = (s, p)" using assms by (cases s) (auto simp: skip_cons)
  ultimately show ?thesis by (intro exI[of _ p]) (simp add: next_token_def)
qed

lemma next_token_digit:
  assumes "is_ascii_digit c"
  shows "next_token env (c # cs, p) = map_sum id Some (lex_number_or_hex env (c # cs, p))"
proof -
  have "\<not> is_whitespace c" using assms by (auto simp: is_ascii_digit_def is_whitespace_def)
  then show ?thesis using assms
    by (auto simp: next_token_def skip_cons is_ascii_digit_def Let_def)
qed

lemma next_token_ident:
  assumes "is_ident_start env c" "\<not> is_whitespace c"
  shows "next_token env (c # cs, p) = map_sum id Some (lex_ident_or_keyword env (c # cs, p))"
proof -
  have "c \<ge> 0x80 \<or> c = 0x5F \<or> (0x41 \<le> c \<and> c \<le> 0x5A) \<or> (0x61 \<le> c \<and> c \<le> 0x7A)"
    using assms(1) by (auto simp: is_ident_start_def is_alphabetic_def is_ascii_alpha_def split: if_splits)
  then have "c \<notin> {0x28, 0x29, 0x2A, 0x3D, 0x26, 0x7C, 0x21, 0x3E, 0x3C, 0x7E, 0x22, 0x24}"
    "\<not> is_ascii_digit c" by (elim disjE; force simp: is_ascii_digit_def)+
  then show ?thesis using assms by (simp add: next_token_def skip_cons)
qed

lemma next_token_dollar:
  "next_token env (0x24 # cs, p) = map_sum id Some (lex_dollar_ident env (0x24 # cs, p))"
  by (simp add: next_token_def skip_cons is_whitespace_def is_ascii_digit_def)

lemma next_token_quote:
  "next_token env (0x22 # cs, p) = map_sum id Some (lex_string (0x22 # cs, p))"
  by (simp add: next_token_def skip_cons is_whitespace_def)

lemma lex_word_token:
  assumes "s \<noteq> []" "is_ident_start env (hd s)" "\<not> is_whitespace (hd s)"
    "\<forall>c \<in> set s. is_ident_continue env c" "starts_other env rest"
  shows "\<exists>p. next_token env (s @ rest, pos) = Inr (Some (keyword_or_ident s, rest, p))"
proof -
  obtain c cs where s: "s = c # cs" using assms(1) by (cases s) auto
  then show ?thesis
    using next_token_ident[of env c "cs @ rest" pos] assms lex_word[OF assms(4,5), of pos]
    by (simp add: lex_ident_or_keyword_def)
qed

lemma dollar_token:
  assumes "\<forall>c \<in> set s. is_ident_continue env c" "starts_other env rest" "builtin_token s = Some t"
  shows "\<exists>p. next_token env (0x24 # s @ rest, pos) = Inr (Some (t, rest, p))"
  using lex_word[OF assms(1,2)] assms(3) by (simp add: next_token_dollar lex_dollar_ident_def)

lemma number_token:
  "\<exists>p. next_token env (dec_digits (unat n) @ 0x20 # rest, pos) = Inr (Some (TNumber n, 0x20 # rest, p))"
proof -
  let ?s = "dec_digits (unat n)"
  note D = dec_digits_ok[of "unat n"]
  obtain c cs where s: "?s = c # cs" using D by (cases ?s) auto
  have c: "is_ascii_digit c" using D s by auto
  have b: "bump_while is_ascii_digit (?s @ 0x20 # rest) pos =
      (?s, 0x20 # rest, pos + sum_list (map len_utf8 ?s))"
    by (rule bump_while_app) (use D in \<open>auto simp: is_ascii_digit_def\<close>)
  have nx: "\<forall>x \<in> set (?s @ [0x20]). x \<noteq> 0x78 \<and> x \<noteq> 0x58"
    using D by (auto simp: is_ascii_digit_def)
  then have "take 2 (?s @ 0x20 # rest) \<noteq> ascii ''0x'' \<and> take 2 (?s @ 0x20 # rest) \<noteq> ascii ''0X''"
    unfolding s by (cases cs) (auto simp: ascii_def)
  moreover have "dec_val ?s < 2 ^ 64" using D unat_bound[of n] by simp
  ultimately show ?thesis
    using next_token_digit[OF c, of env "cs @ 0x20 # rest" pos] b D
    unfolding append_Cons[symmetric] s[symmetric]
    by (simp add: lex_number_or_hex_def Let_def)
qed

lemma hex_token:
  assumes "hex_decode env (hex_digits b) = Some b" "length b = 20 \<and> tok = TAddress \<or> length b = 32 \<and> tok = TEntityKey"
  shows "\<exists>p. next_token env (ascii ''0x'' @ hex_digits b @ 0x20 # rest, pos) =
    Inr (Some (tok b, 0x20 # rest, p))"
proof -
  note H = hex_digits_ok[of b]
  have bw: "bump_while is_ascii_hexdigit (hex_digits b @ 0x20 # rest) (pos + 2) =
      (hex_digits b, 0x20 # rest, pos + 2 + sum_list (map len_utf8 (hex_digits b)))"
    by (rule bump_while_app) (use H in \<open>auto simp: is_ascii_hexdigit_def is_ascii_digit_def\<close>)
  have d: "is_ascii_digit 0x30" by (simp add: is_ascii_digit_def)
  show ?thesis
    using assms H bw next_token_digit[OF d, of env "0x78 # hex_digits b @ 0x20 # rest" pos]
    by (auto simp: ascii_def lex_number_or_hex_def hex_literal_def Let_def numeral_eq_Suc)
qed

lemma dollar_word:
  assumes "\<forall>c \<in> set s. is_ascii_alpha c" "builtin_token s = Some t"
  shows "\<exists>p. next_token env (0x24 # s @ 0x20 # rest, pos) = Inr (Some (t, 0x20 # rest, p))"
proof -
  have "\<forall>c \<in> set s. is_ident_continue env c"
    using assms(1) by (auto simp: is_ident_continue_def is_alphanumeric_def is_ascii_alpha_def)
  from dollar_token[OF this space_other assms(2)] show ?thesis .
qed

lemma keyword_word:
  assumes "s \<noteq> []" "\<forall>c \<in> set s. is_ascii_alpha c"
  shows "\<exists>p. next_token env (s @ 0x20 # rest, pos) = Inr (Some (keyword_or_ident s, 0x20 # rest, p))"
proof (rule lex_word_token[OF assms(1) _ _ _ space_other])
  have h: "is_ascii_alpha (hd s)" using assms by (cases s) auto
  then show "is_ident_start env (hd s)" by (auto simp: is_ident_start_def is_alphabetic_def is_ascii_alpha_def)
  show "\<not> is_whitespace (hd s)" using h by (auto simp: is_ascii_alpha_def is_whitespace_def)
  show "\<forall>c \<in> set s. is_ident_continue env c"
    using assms(2) by (auto simp: is_ident_continue_def is_alphanumeric_def is_ascii_alpha_def)
qed

lemma builtin_tokens:
  "builtin_token (ascii ''all'') = Some TDollarAll"
  "builtin_token (ascii ''owner'') = Some TDollarOwner"
  "builtin_token (ascii ''creator'') = Some TDollarCreator"
  "builtin_token (ascii ''key'') = Some TDollarKey"
  "builtin_token (ascii ''expiration'') = Some TDollarExpiration"
  "builtin_token (ascii ''contentType'') = Some TDollarContentType"
  "builtin_token (ascii ''createdAtBlock'') = Some TDollarCreatedAtBlock"
  by (simp_all add: builtin_token_def ascii_def)

lemma keyword_tokens:
  "keyword_or_ident (ascii ''AND'') = TAnd"
  "keyword_or_ident (ascii ''OR'') = TOr"
  "keyword_or_ident (ascii ''NOT'') = TNot"
  "keyword_or_ident (ascii ''IN'') = TIn"
  by (simp_all add: keyword_or_ident_def eq_ignore_ascii_case_def to_ascii_lower_def ascii_def)

lemma ascii_alphas:
  "\<forall>c \<in> set (ascii ''all''). is_ascii_alpha c"
  "\<forall>c \<in> set (ascii ''owner''). is_ascii_alpha c"
  "\<forall>c \<in> set (ascii ''creator''). is_ascii_alpha c"
  "\<forall>c \<in> set (ascii ''key''). is_ascii_alpha c"
  "\<forall>c \<in> set (ascii ''expiration''). is_ascii_alpha c"
  "\<forall>c \<in> set (ascii ''contentType''). is_ascii_alpha c"
  "\<forall>c \<in> set (ascii ''createdAtBlock''). is_ascii_alpha c"
  "\<forall>c \<in> set (ascii ''AND''). is_ascii_alpha c"
  "\<forall>c \<in> set (ascii ''OR''). is_ascii_alpha c"
  "\<forall>c \<in> set (ascii ''NOT''). is_ascii_alpha c"
  "\<forall>c \<in> set (ascii ''IN''). is_ascii_alpha c"
  by (simp_all add: is_ascii_alpha_def ascii_def)

lemma show_dollar: "ascii (CHR 0x24 # s) @ rest = 0x24 # ascii s @ rest"
  by (simp add: ascii_def)

lemma show_dollar_token:
  "\<exists>p. next_token env (show_token TDollarAll @ 0x20 # rest, pos) = Inr (Some (TDollarAll, 0x20 # rest, p))"
  "\<exists>p. next_token env (show_token TDollarOwner @ 0x20 # rest, pos) = Inr (Some (TDollarOwner, 0x20 # rest, p))"
  "\<exists>p. next_token env (show_token TDollarCreator @ 0x20 # rest, pos) = Inr (Some (TDollarCreator, 0x20 # rest, p))"
  "\<exists>p. next_token env (show_token TDollarKey @ 0x20 # rest, pos) = Inr (Some (TDollarKey, 0x20 # rest, p))"
  "\<exists>p. next_token env (show_token TDollarExpiration @ 0x20 # rest, pos) = Inr (Some (TDollarExpiration, 0x20 # rest, p))"
  "\<exists>p. next_token env (show_token TDollarContentType @ 0x20 # rest, pos) = Inr (Some (TDollarContentType, 0x20 # rest, p))"
  "\<exists>p. next_token env (show_token TDollarCreatedAtBlock @ 0x20 # rest, pos) = Inr (Some (TDollarCreatedAtBlock, 0x20 # rest, p))"
  unfolding show_token.simps show_dollar
  by (rule dollar_word[OF ascii_alphas(1) builtin_tokens(1)] dollar_word[OF ascii_alphas(2) builtin_tokens(2)]
      dollar_word[OF ascii_alphas(3) builtin_tokens(3)] dollar_word[OF ascii_alphas(4) builtin_tokens(4)]
      dollar_word[OF ascii_alphas(5) builtin_tokens(5)] dollar_word[OF ascii_alphas(6) builtin_tokens(6)]
      dollar_word[OF ascii_alphas(7) builtin_tokens(7)])+

lemma show_keyword_token:
  "\<exists>p. next_token env (show_token TAnd @ 0x20 # rest, pos) = Inr (Some (TAnd, 0x20 # rest, p))"
  "\<exists>p. next_token env (show_token TOr @ 0x20 # rest, pos) = Inr (Some (TOr, 0x20 # rest, p))"
  "\<exists>p. next_token env (show_token TNot @ 0x20 # rest, pos) = Inr (Some (TNot, 0x20 # rest, p))"
  "\<exists>p. next_token env (show_token TIn @ 0x20 # rest, pos) = Inr (Some (TIn, 0x20 # rest, p))"
  using keyword_word[OF _ ascii_alphas(8)] keyword_word[OF _ ascii_alphas(9)]
    keyword_word[OF _ ascii_alphas(10)] keyword_word[OF _ ascii_alphas(11)]
  by (simp_all add: keyword_tokens, simp_all add: ascii_def)

lemma show_punctuation:
  "\<exists>p. next_token env (show_token TLParen @ 0x20 # rest, pos) = Inr (Some (TLParen, 0x20 # rest, p))"
  "\<exists>p. next_token env (show_token TRParen @ 0x20 # rest, pos) = Inr (Some (TRParen, 0x20 # rest, p))"
  "\<exists>p. next_token env (show_token TEq @ 0x20 # rest, pos) = Inr (Some (TEq, 0x20 # rest, p))"
  "\<exists>p. next_token env (show_token TNeq @ 0x20 # rest, pos) = Inr (Some (TNeq, 0x20 # rest, p))"
  "\<exists>p. next_token env (show_token TStar @ 0x20 # rest, pos) = Inr (Some (TStar, 0x20 # rest, p))"
  "\<exists>p. next_token env (show_token TGt @ 0x20 # rest, pos) = Inr (Some (TGt, 0x20 # rest, p))"
  "\<exists>p. next_token env (show_token TGte @ 0x20 # rest, pos) = Inr (Some (TGte, 0x20 # rest, p))"
  "\<exists>p. next_token env (show_token TLt @ 0x20 # rest, pos) = Inr (Some (TLt, 0x20 # rest, p))"
  "\<exists>p. next_token env (show_token TLte @ 0x20 # rest, pos) = Inr (Some (TLte, 0x20 # rest, p))"
  "\<exists>p. next_token env (show_token TTilde @ 0x20 # rest, pos) = Inr (Some (TTilde, 0x20 # rest, p))"
  "\<exists>p. next_token env (show_token TNotTilde @ 0x20 # rest, pos) = Inr (Some (TNotTilde, 0x20 # rest, p))"
  by (simp_all add: next_token_def skip_cons is_whitespace_def ascii_def)

lemma next_token_show:
  assumes "printable env t" "hex_law env"
  shows "\<exists>p. next_token env (show_token t @ 0x20 # rest, pos) = Inr (Some (t, 0x20 # rest, p))"
proof (cases t)
  case (TEntityKey b)
  then show ?thesis using hex_token[of env b TEntityKey rest pos] assms
    by (simp add: printable_def hex_law_def)
next
  case (TAddress b)
  then show ?thesis using hex_token[of env b TAddress rest pos] assms
    by (simp add: printable_def hex_law_def)
next
  case (TStringLit s)
  obtain p where "lex_string_loop pos [] (concat (map escape s) @ 0x22 # 0x20 # rest) (pos + len_utf8 0x22) =
      Inr (TStringLit s, 0x20 # rest, p)"
    using lex_string_loop_show[of pos "[]" s "0x20 # rest" "pos + len_utf8 0x22"] by auto
  then show ?thesis by (simp add: TStringLit next_token_quote lex_string_def)
next
  case (TNumber n)
  then show ?thesis using number_token by simp
next
  case (TIdent s)
  then show ?thesis using lex_word_token[OF _ _ _ _ space_other, of s env rest pos] assms(1)
    by (simp add: printable_def)
qed (simp_all only: show_dollar_token show_keyword_token show_punctuation)

lemma tokenize_from_show:
  assumes "\<forall>t \<in> set ts. printable env t" "hex_law env" "\<forall>c \<in> set w. is_whitespace c"
  shows "tokenize_from env (w @ show_tokens ts, pos) = Inr ts"
proof -
  have head: "show_token t \<noteq> [] \<and> \<not> is_whitespace (hd (show_token t))" if "printable env t" for t
  proof (cases t)
    case (TNumber n)
    then show ?thesis using dec_digits_ok[of "unat n"]
      by (cases "dec_digits (unat n)") (auto simp: is_ascii_digit_def is_whitespace_def)
  qed (use that in \<open>auto simp: printable_def ascii_def is_whitespace_def\<close>)
  show ?thesis
    using assms(1,3)
  proof (induction ts arbitrary: w pos)
    case Nil
    have "bump_while is_whitespace w pos = (w, [], pos + sum_list (map len_utf8 w))"
      using bump_while_app[OF Nil.prems(2), of "[]" pos] by simp
    then show ?case by (simp add: tokenize_from.simps next_token_def skip_whitespace_def show_tokens_def)
  next
    case (Cons t ts)
    then have t: "printable env t" by simp
    have st: "show_tokens (t # ts) = show_token t @ 0x20 # show_tokens ts" by (simp add: show_tokens_def)
    obtain p where p: "next_token env (w @ show_token t @ 0x20 # show_tokens ts, pos) =
        next_token env (show_token t @ 0x20 # show_tokens ts, p)"
      using next_token_ws[of "show_token t @ 0x20 # show_tokens ts" w env pos] head[OF t] Cons.prems(2) by auto
    obtain q where "next_token env (show_token t @ 0x20 # show_tokens ts, p) =
        Inr (Some (t, 0x20 # show_tokens ts, q))"
      using next_token_show[OF t assms(2)] by blast
    moreover have "tokenize_from env ([0x20] @ show_tokens ts, q) = Inr ts"
      by (rule Cons.IH) (use Cons.prems in \<open>auto simp: is_whitespace_def\<close>)
    ultimately show ?case using p by (simp add: tokenize_from.simps[of env "(w @ _, pos)"] st)
  qed
qed

text \<open>
  C17. The lexer inverts printing: any sequence of printable tokens (hex literals of 20 or 32
  bytes, identifiers that are no keywords, strings with any characters) printed with spaces
  between them lexes to exactly that sequence.
\<close>

theorem tokenize_show:
  assumes "\<forall>t \<in> set ts. printable env t" "hex_law env"
  shows "tokenize env (show_tokens ts) = Inr ts"
  using tokenize_from_show[OF assms, of "[]" 0] by (simp add: tokenize_def)

text \<open>A lexer environment with a concrete hex decoder, for the witnesses.\<close>

definition hex_digit_val :: "uchar \<Rightarrow> nat" where
  "hex_digit_val c = (if c < 0x3A then c - 0x30 else c - 0x61 + 10)"

fun unhex :: "ustring \<Rightarrow> bytes option" where
  "unhex [] = Some []"
| "unhex [a] = None"
| "unhex (a # b # r) =
     map_option (\<lambda>bs. of_nat (hex_digit_val a * 16 + hex_digit_val b) # bs) (unhex r)"

definition plain_env :: lexenv where
  "plain_env = \<lparr>ualpha = (\<lambda>_. False), unumeric = (\<lambda>_. False), hex_decode = unhex\<rparr>"

lemma plain_hex_law: "hex_law plain_env"
proof -
  have v: "hex_digit_val (hex_digit n) = n" if "n < 16" for n
    using that by (auto simp: hex_digit_val_def hex_digit_def)
  have "unhex (hex_digits bs) = Some bs" for bs
  proof (induction bs)
    case (Cons b bs)
    have "unat b div 16 < 16" using unat_byte_lt[of b] by linarith
    with Cons show ?case by (simp add: hex_digits_def v)
  qed (simp add: hex_digits_def)
  then show ?thesis by (simp add: hex_law_def plain_env_def)
qed

lemma tokenize_show_witness:
  "tokenize plain_env (show_tokens [TIdent [97], TEq, TStringLit [0x22], TAnd, TAddress (replicate 20 7)]) =
    Inr [TIdent [97], TEq, TStringLit [0x22], TAnd, TAddress (replicate 20 7)]"
proof (rule tokenize_show[OF _ plain_hex_law])
  show "\<forall>t \<in> set [TIdent [97], TEq, TStringLit [0x22], TAnd, TAddress (replicate 20 7)]. printable plain_env t"
    by (simp add: printable_def is_ident_start_def is_alphabetic_def is_ascii_alpha_def is_whitespace_def
        is_ident_continue_def is_alphanumeric_def keyword_or_ident_def eq_ignore_ascii_case_def
        to_ascii_lower_def ascii_def)
qed

end
