(* ===== verification/Schedule.thy ===== *)
theory Schedule
  imports BaseFee LexerPrint
begin

text \<open>
  The protocol-schedule poller of \<open>crates/arkiv-node/src/protocol_schedule.rs\<close>: the numeric
  strings of the remote document, its validation, the choice of the installed entries, the
  version check, and the state that start-up and polling thread through: the installed schedule,
  the last accepted version and the persisted file. Decoding and printing JSON (serde_json) is
  the record \<open>json\<close>; the outcome of a request and of a file operation is an argument of the step.
\<close>

datatype schedule_error =
    DecodeJson | EmptySchedule | FirstNotAtZero | NotIncreasing
  | ElasticityZero | DenominatorZero | GasLimitTooLow | ShareTooHigh | PaymentZero
  | OlderVersion u64 u64 | RequestFailed | ReadFailed | WriteFailed

subsection \<open>Numeric strings\<close>

definition digit_value :: "nat \<Rightarrow> uchar \<Rightarrow> nat option" where
  "digit_value radix c =
     (let v = (if 0x30 \<le> c \<and> c \<le> 0x39 then c - 0x30
               else if 0x61 \<le> c \<and> c \<le> 0x7A then c - 0x61 + 10
               else if 0x41 \<le> c \<and> c \<le> 0x5A then c - 0x41 + 10 else radix)
      in if v < radix then Some v else None)"

fun radix_value :: "nat \<Rightarrow> nat \<Rightarrow> ustring \<Rightarrow> nat option" where
  "radix_value radix acc [] = Some acc"
| "radix_value radix acc (c # cs) =
     (case digit_value radix c of None \<Rightarrow> None | Some v \<Rightarrow> radix_value radix (acc * radix + v) cs)"

text \<open>\<open>u64::from_str_radix\<close>: an optional plus sign, at least one digit, no overflow.\<close>

definition from_str_radix :: "nat \<Rightarrow> ustring \<Rightarrow> u64 option" where
  "from_str_radix radix s =
     (let digits = (if take 1 s = [0x2B] then drop 1 s else s) in
      if digits = [] then None
      else case radix_value radix 0 digits of
        None \<Rightarrow> None | Some n \<Rightarrow> if n < 2 ^ 64 then Some (of_nat n) else None)"

definition trim :: "ustring \<Rightarrow> ustring" where
  "trim s = rev (dropWhile is_whitespace (rev (dropWhile is_whitespace s)))"

definition parse_u64_string :: "ustring \<Rightarrow> u64 option" where
  "parse_u64_string s =
     (let raw = trim s in
      if raw = [] then None
      else if take 2 raw = [0x30, 0x78] then from_str_radix 16 (drop 2 raw)
      else from_str_radix 10 raw)"

subsection \<open>The remote document\<close>

record remote_payment =
  rp_enabled :: bool
  rp_provider_share_bps :: u16
  rp_minimum_payment :: u64

record remote_entry =
  re_activation_block :: u64
  re_min_base_fee_per_gas :: u64
  re_elasticity_multiplier :: u128
  re_base_fee_max_change_denominator :: u128
  re_max_block_gas_limit :: u64
  re_payload_provider_payment :: remote_payment

record remote_schedule =
  rs_chain_id :: u64
  rs_version :: u64
  rs_current_block :: "u64 option"
  remote_entries :: "remote_entry list"

definition default_file :: remote_schedule where
  "default_file = \<lparr>rs_chain_id = 0, rs_version = 1, rs_current_block = Some 0,
     remote_entries = [\<lparr>re_activation_block = 0,
       re_min_base_fee_per_gas = ARKIV_DEFAULT_MIN_BASE_FEE_PER_GAS,
       re_elasticity_multiplier = 2, re_base_fee_max_change_denominator = 8,
       re_max_block_gas_limit = 30000000,
       re_payload_provider_payment =
         \<lparr>rp_enabled = False, rp_provider_share_bps = 0, rp_minimum_payment = 0\<rparr>\<rparr>]\<rparr>"

definition validate_payment :: "remote_payment \<Rightarrow> schedule_error + unit" where
  "validate_payment p =
     (if PAYMENT_BPS_DENOMINATOR < rp_provider_share_bps p then Inl ShareTooHigh
      else if rp_enabled p \<and> rp_minimum_payment p = 0 then Inl PaymentZero
      else Inr ())"

definition validate_entry :: "remote_entry \<Rightarrow> schedule_error + unit" where
  "validate_entry e =
     (if re_elasticity_multiplier e = 0 then Inl ElasticityZero
      else if re_base_fee_max_change_denominator e = 0 then Inl DenominatorZero
      else if re_max_block_gas_limit e < 5000 then Inl GasLimitTooLow
      else validate_payment (re_payload_provider_payment e))"

fun validate_entries :: "u64 option \<Rightarrow> remote_entry list \<Rightarrow> schedule_error + unit" where
  "validate_entries last_activation [] = Inr ()"
| "validate_entries last_activation (e # es) =
     (if (case last_activation of None \<Rightarrow> False | Some l \<Rightarrow> re_activation_block e \<le> l)
      then Inl NotIncreasing
      else case validate_entry e of
        Inl err \<Rightarrow> Inl err
      | Inr _ \<Rightarrow> validate_entries (Some (re_activation_block e)) es)"

definition validate :: "remote_schedule \<Rightarrow> schedule_error + unit" where
  "validate s =
     (if remote_entries s = [] then Inl EmptySchedule
      else if re_activation_block (hd (remote_entries s)) \<noteq> 0 then Inl FirstNotAtZero
      else validate_entries None (remote_entries s))"

definition payment_to_alloy :: "remote_payment \<Rightarrow> provider_payment" where
  "payment_to_alloy p = \<lparr>pp_enabled = rp_enabled p, provider_share_bps = rp_provider_share_bps p,
     minimum_payment = rp_minimum_payment p\<rparr>"

definition to_alloy :: "remote_entry \<Rightarrow> schedule_entry" where
  "to_alloy e = \<lparr>activation_block = re_activation_block e,
     entry_params = \<lparr>min_base_fee_per_gas = re_min_base_fee_per_gas e,
       elasticity_multiplier = re_elasticity_multiplier e,
       base_fee_max_change_denominator = re_base_fee_max_change_denominator e,
       max_block_gas_limit = re_max_block_gas_limit e,
       payload_provider_payment = payment_to_alloy (re_payload_provider_payment e)\<rparr>\<rparr>"

definition schedule_entries :: "remote_schedule \<Rightarrow> schedule" where
  "schedule_entries s = map to_alloy (remote_entries s)"

definition selected_entries :: "remote_schedule \<Rightarrow> schedule" where
  "selected_entries s =
     (let kept = (case rs_current_block s of
            None \<Rightarrow> schedule_entries s
          | Some b \<Rightarrow> filter (\<lambda>e. activation_block e \<le> b) (schedule_entries s))
      in if kept = [] then take 1 (schedule_entries s) else kept)"

subsection \<open>The poller\<close>

record json =
  from_str :: "ustring \<Rightarrow> remote_schedule option"
  to_string_pretty :: "remote_schedule \<Rightarrow> ustring"

record sched_state =
  installed :: schedule
  last_accepted_version :: u64
  sched_file :: "ustring option"

definition parse_remote_schedule :: "json \<Rightarrow> ustring \<Rightarrow> schedule_error + remote_schedule" where
  "parse_remote_schedule J body =
     (case from_str J body of
        None \<Rightarrow> Inl DecodeJson
      | Some s \<Rightarrow> map_sum id (\<lambda>_. s) (validate s))"

definition install_schedule :: "remote_schedule \<Rightarrow> sched_state \<Rightarrow> schedule_error + sched_state" where
  "install_schedule s st =
     (if last_accepted_version st \<noteq> 0 \<and> rs_version s < last_accepted_version st
      then Inl (OlderVersion (rs_version s) (last_accepted_version st))
      else Inr (st\<lparr>installed := selected_entries s, last_accepted_version := rs_version s\<rparr>))"

text \<open>
  Each step returns its result and the state it leaves: a failed write of the file does not undo
  the installation before it.
\<close>

definition fetch_store_and_install ::
  "json \<Rightarrow> ustring option \<Rightarrow> bool \<Rightarrow> sched_state \<Rightarrow> (schedule_error + unit) \<times> sched_state" where
  "fetch_store_and_install J response write_ok st =
     (case response of
        None \<Rightarrow> (Inl RequestFailed, st)
      | Some body \<Rightarrow>
          (case parse_remote_schedule J body of
             Inl e \<Rightarrow> (Inl e, st)
           | Inr s \<Rightarrow>
               (case install_schedule s st of
                  Inl e \<Rightarrow> (Inl e, st)
                | Inr st' \<Rightarrow>
                    if write_ok then (Inr (), st'\<lparr>sched_file := Some body\<rparr>)
                    else (Inl WriteFailed, st'))))"

definition load_persisted_schedule ::
  "json \<Rightarrow> bool \<Rightarrow> sched_state \<Rightarrow> (schedule_error + unit) \<times> sched_state" where
  "load_persisted_schedule J read_ok st =
     (case sched_file st of
        None \<Rightarrow> (Inr (), st)
      | Some body \<Rightarrow>
          if \<not> read_ok then (Inl ReadFailed, st)
          else (case parse_remote_schedule J body of
                  Inl e \<Rightarrow> (Inl e, st)
                | Inr s \<Rightarrow>
                    (case install_schedule s st of Inl e \<Rightarrow> (Inl e, st) | Inr st' \<Rightarrow> (Inr (), st'))))"

definition ensure_default_schedule_file ::
  "json \<Rightarrow> bool \<Rightarrow> sched_state \<Rightarrow> (schedule_error + unit) \<times> sched_state" where
  "ensure_default_schedule_file J write_ok st =
     (case sched_file st of
        Some _ \<Rightarrow> (Inr (), st)
      | None \<Rightarrow>
          if write_ok then (Inr (), st\<lparr>sched_file := Some (to_string_pretty J default_file @ [0x0A])\<rparr>)
          else (Inl WriteFailed, st))"

text \<open>
  The node from \<open>spawn_from_env\<close> on: it starts with nothing installed, loads the file, makes sure
  there is one, and polls for ever. Errors are logged and dropped.
\<close>

inductive sched_reach :: "json \<Rightarrow> ustring option \<Rightarrow> sched_state \<Rightarrow> bool" for J init where
  start: "load_persisted_schedule J read_ok \<lparr>installed = [], last_accepted_version = 0, sched_file = init\<rparr>
      = (r, st) \<Longrightarrow>
    ensure_default_schedule_file J write_ok st = (r', st') \<Longrightarrow> sched_reach J init st'"
| poll: "sched_reach J init st \<Longrightarrow> fetch_store_and_install J response write_ok st = (r, st') \<Longrightarrow>
    sched_reach J init st'"

inductive_cases sched_reachE: "sched_reach J init st"


subsection \<open>What validation establishes\<close>

definition payment_ok :: "provider_payment \<Rightarrow> bool" where
  "payment_ok p \<longleftrightarrow> provider_share_bps p \<le> PAYMENT_BPS_DENOMINATOR \<and>
     (pp_enabled p \<longrightarrow> 0 < minimum_payment p)"

definition params_ok :: "protocol_params \<Rightarrow> bool" where
  "params_ok p \<longleftrightarrow> elasticity_multiplier p \<noteq> 0 \<and> base_fee_max_change_denominator p \<noteq> 0 \<and>
     5000 \<le> max_block_gas_limit p \<and> payment_ok (payload_provider_payment p)"

definition schedule_ok :: "schedule \<Rightarrow> bool" where
  "schedule_ok sched \<longleftrightarrow> sorted_wrt (<) (map activation_block sched) \<and>
     (\<forall>e \<in> set sched. params_ok (entry_params e)) \<and>
     (sched \<noteq> [] \<longrightarrow> activation_block (hd sched) = 0)"

lemma default_params_ok: "params_ok default_params"
  by (simp add: params_ok_def payment_ok_def default_params_def PAYMENT_BPS_DENOMINATOR_def)

lemma validate_entry_iff: "validate_entry e = Inr () \<longleftrightarrow> params_ok (entry_params (to_alloy e))"
  by (auto simp: validate_entry_def validate_payment_def params_ok_def payment_ok_def to_alloy_def
      payment_to_alloy_def not_less word_gt_0 split: if_splits)

lemma activation_to_alloy [simp]: "activation_block (to_alloy e) = re_activation_block e"
  by (simp add: to_alloy_def)

lemma validate_entries_iff:
  "validate_entries prev es = Inr () \<longleftrightarrow>
     sorted_wrt (<) (map activation_block (map to_alloy es)) \<and>
     (\<forall>e \<in> set (map to_alloy es). params_ok (entry_params e)) \<and>
     (es \<noteq> [] \<longrightarrow> (\<forall>l. prev = Some l \<longrightarrow> l < re_activation_block (hd es)))"
proof (induction es arbitrary: prev)
  case (Cons e es)
  have u: "\<exists>err. validate_entry e = Inl err" if "validate_entry e \<noteq> Inr ()"
    using that by (cases "validate_entry e") auto
  have lt: "(\<forall>x \<in> set es. re_activation_block e < re_activation_block x) \<longleftrightarrow>
      (es \<noteq> [] \<longrightarrow> re_activation_block e < re_activation_block (hd es))"
    if "sorted_wrt (<) (map activation_block (map to_alloy es))"
    using that by (cases es) (auto intro: less_trans)
  show ?case
  proof (cases "validate_entry e = Inr ()")
    case True
    then show ?thesis
      using Cons.IH[of "Some (re_activation_block e)"] lt validate_entry_iff[of e]
      by (auto simp: not_le split: option.splits)
  next
    case False
    then show ?thesis using u validate_entry_iff[of e] by (auto split: option.splits)
  qed
qed simp

lemma validate_iff:
  "validate s = Inr () \<longleftrightarrow> remote_entries s \<noteq> [] \<and> schedule_ok (schedule_entries s)"
proof (cases "remote_entries s")
  case (Cons e es)
  then show ?thesis
    unfolding validate_def schedule_ok_def schedule_entries_def
    by (auto simp only: validate_entries_iff list.map list.sel activation_to_alloy sum.distinct split: if_splits)
qed (simp add: validate_def)

lemma filter_hd: "xs \<noteq> [] \<Longrightarrow> P (hd xs) \<Longrightarrow> filter P xs \<noteq> [] \<and> hd (filter P xs) = hd xs"
  by (cases xs) auto

lemma sorted_map_filter: "sorted_wrt R (map f xs) \<Longrightarrow> sorted_wrt R (map f (filter P xs))"
  by (induction xs) auto

text \<open>The first entry is always kept, so the fallback to it never applies to a valid document.\<close>

lemma selected_ok:
  assumes "validate s = Inr ()"
  shows "schedule_ok (selected_entries s) \<and> selected_entries s \<noteq> []"
proof -
  have s: "schedule_entries s \<noteq> []" "schedule_ok (schedule_entries s)"
    using assms by (auto simp: validate_iff schedule_entries_def)
  have z: "activation_block (hd (schedule_entries s)) = 0" using s by (simp add: schedule_ok_def)
  show ?thesis
  proof (cases "rs_current_block s")
    case None
    then show ?thesis using s by (simp add: selected_entries_def)
  next
    case (Some b)
    have f: "filter (\<lambda>e. activation_block e \<le> b) (schedule_entries s) \<noteq> [] \<and>
        hd (filter (\<lambda>e. activation_block e \<le> b) (schedule_entries s)) = hd (schedule_entries s)"
      by (rule filter_hd[OF s(1)]) (simp add: z)
    have "sorted_wrt (<) (map activation_block (filter (\<lambda>e. activation_block e \<le> b) (schedule_entries s)))"
      using s(2) by (auto simp: schedule_ok_def intro: sorted_map_filter)
    then show ?thesis using f s(2) z Some by (auto simp: selected_entries_def schedule_ok_def)
  qed
qed

subsection \<open>Lookup\<close>

lemma find_Some_in: "List.find P xs = Some e \<Longrightarrow> e \<in> set xs \<and> P e"
  by (auto simp: find_Some_iff)

lemma params_ok_for_block: "schedule_ok sched \<Longrightarrow> params_ok (params_for_block sched b)"
  using default_params_ok
  by (auto simp: params_for_block_def schedule_ok_def split: option.splits dest: find_Some_in)

lemma params_ok_latest: "schedule_ok sched \<Longrightarrow> params_ok (params_latest sched)"
  using default_params_ok by (auto simp: params_latest_def schedule_ok_def)

text \<open>\<open>e\<close> is the last entry of the schedule that has activated at block \<open>b\<close>.\<close>

definition active_entry :: "schedule \<Rightarrow> u64 \<Rightarrow> schedule_entry \<Rightarrow> bool" where
  "active_entry sched b e \<longleftrightarrow> e \<in> set sched \<and> activation_block e \<le> b \<and>
     (\<forall>e' \<in> set sched. activation_block e' \<le> b \<longrightarrow> activation_block e' \<le> activation_block e)"

lemma find_rev_sorted:
  assumes "sorted_wrt (<) (map activation_block sched)" "\<exists>e \<in> set sched. activation_block e \<le> b"
  shows "\<exists>e. List.find (\<lambda>e. activation_block e \<le> b) (rev sched) = Some e \<and> active_entry sched b e"
  using assms
proof (induction sched rule: rev_induct)
  case (snoc x xs)
  show ?case
  proof (cases "activation_block x \<le> b")
    case True
    then show ?thesis using snoc.prems by (auto simp: sorted_wrt_append active_entry_def intro: less_imp_le)
  next
    case False
    then have "\<exists>e \<in> set xs. activation_block e \<le> b" using snoc.prems(2) by auto
    then obtain e where "List.find (\<lambda>e. activation_block e \<le> b) (rev xs) = Some e" "active_entry xs b e"
      using snoc by (auto simp: sorted_wrt_append)
    with False show ?thesis by (intro exI[of _ e]) (auto simp: active_entry_def)
  qed
qed simp

subsection \<open>Steps of the poller\<close>

lemma parse_remote_valid: "parse_remote_schedule J body = Inr s \<Longrightarrow> validate s = Inr ()"
  by (cases "from_str J body"; cases "validate (the (from_str J body))")
    (auto simp: parse_remote_schedule_def)

lemma install_cases:
  assumes "install_schedule s st = Inr st'"
  shows "st' = st\<lparr>installed := selected_entries s, last_accepted_version := rs_version s\<rparr> \<and>
    last_accepted_version st \<le> rs_version s"
  using assms by (auto simp: install_schedule_def split: if_splits)

text \<open>A step either leaves the schedule and the version alone or installs a valid document.\<close>

definition installs :: "sched_state \<Rightarrow> sched_state \<Rightarrow> bool" where
  "installs st st' \<longleftrightarrow> installed st' = installed st \<and> last_accepted_version st' = last_accepted_version st \<or>
     schedule_ok (installed st') \<and> installed st' \<noteq> [] \<and> last_accepted_version st \<le> last_accepted_version st'"

lemma fetch_installs: "fetch_store_and_install J response write_ok st = (r, st') \<Longrightarrow> installs st st'"
  using selected_ok parse_remote_valid install_cases
  by (fastforce simp: fetch_store_and_install_def installs_def split: option.splits sum.splits if_splits)

lemma load_installs: "load_persisted_schedule J read_ok st = (r, st') \<Longrightarrow> installs st st'"
  using selected_ok parse_remote_valid install_cases
  by (fastforce simp: load_persisted_schedule_def installs_def split: option.splits sum.splits if_splits)

lemma ensure_installs: "ensure_default_schedule_file J write_ok st = (r, st') \<Longrightarrow> installs st st'"
  by (auto simp: ensure_default_schedule_file_def installs_def split: option.splits if_splits)

lemma installs_ok: "installs st st' \<Longrightarrow> schedule_ok (installed st) \<Longrightarrow> schedule_ok (installed st')"
  by (auto simp: installs_def)

lemma reach_schedule_ok: "sched_reach J init st \<Longrightarrow> schedule_ok (installed st)"
proof (induction rule: sched_reach.induct)
  case (start read_ok r st write_ok r' st')
  then show ?case
    using installs_ok[OF ensure_installs installs_ok[OF load_installs]] by (force simp: schedule_ok_def)
next
  case (poll st response write_ok r st')
  then show ?case using installs_ok[OF fetch_installs] by blast
qed

subsection \<open>Properties of the poller\<close>

text \<open>
  C27. Invariant: in every state the node can reach, whatever the remote server answers, the file
  holds and the file system does, the parameters of every block and the latest ones have non-zero
  divisors, a viable gas limit, a provider share of at most 10000 basis points, and a positive
  minimum payment when payments are enabled.
\<close>

theorem reachable_params_ok:
  assumes "sched_reach J init st"
  shows "params_ok (params_for_block (installed st) b) \<and> params_ok (params_latest (installed st))"
  using params_ok_for_block params_ok_latest reach_schedule_ok[OF assms] by blast

text \<open>
  C28. Lookup by block: in every reachable state with a schedule, the parameters of a block are
  those of the unique latest entry that has activated by then.
\<close>

theorem params_for_block_lookup:
  assumes "sched_reach J init st" "installed st \<noteq> []"
  shows "\<exists>!e. active_entry (installed st) b e \<and> params_for_block (installed st) b = entry_params e"
proof -
  have ok: "sorted_wrt (<) (map activation_block (installed st))" "activation_block (hd (installed st)) = 0"
    using reach_schedule_ok[OF assms(1)] assms(2) by (auto simp: schedule_ok_def)
  have "\<exists>e \<in> set (installed st). activation_block e \<le> b"
    using ok(2) assms(2) by (intro bexI[of _ "hd (installed st)"]) auto
  from find_rev_sorted[OF ok(1) this] obtain e where
    e: "List.find (\<lambda>e. activation_block e \<le> b) (rev (installed st)) = Some e" "active_entry (installed st) b e"
    by blast
  have "distinct (map activation_block (installed st))"
    using ok(1) by (simp add: strict_sorted_iff)
  then have "x = y" if a: "active_entry (installed st) b x" "active_entry (installed st) b y" for x y
  proof -
    have "activation_block x = activation_block y" using a by (auto simp: active_entry_def intro!: order.antisym)
    then show ?thesis
      using \<open>distinct (map activation_block (installed st))\<close> a
      by (simp add: distinct_map inj_on_def active_entry_def)
  qed
  then show ?thesis using e by (intro ex1I[of _ e]) (auto simp: params_for_block_def)
qed

text \<open>
  C30. The version never goes back and errors do nothing: a poll leaves the last accepted version
  at least where it was, and if it reports any error but a failed write it leaves the whole state.
\<close>

theorem poll_version_monotone:
  shows "last_accepted_version st \<le> last_accepted_version (snd (fetch_store_and_install J response write_ok st)) \<and>
    (fst (fetch_store_and_install J response write_ok st) \<in> {Inr (), Inl WriteFailed} \<or>
     snd (fetch_store_and_install J response write_ok st) = st)"
proof -
  obtain r st' where f: "fetch_store_and_install J response write_ok st = (r, st')" by fastforce
  have "r \<in> {Inr (), Inl WriteFailed} \<or> st' = st"
    using f by (auto simp: fetch_store_and_install_def split: option.splits sum.splits if_splits)
  then show ?thesis using fetch_installs[OF f] f by (auto simp: installs_def)
qed

text \<open>
  C29. Persistence: after a poll that succeeds, a restart that can read the file installs the same
  schedule with the same version.
\<close>

theorem restart_restores:
  assumes "fetch_store_and_install J response write_ok st = (Inr (), st')"
  shows "load_persisted_schedule J True
      \<lparr>installed = [], last_accepted_version = 0, sched_file = sched_file st'\<rparr> = (Inr (), st')"
proof -
  obtain body s where "response = Some body" "parse_remote_schedule J body = Inr s"
    "install_schedule s st = Inr (st\<lparr>installed := selected_entries s, last_accepted_version := rs_version s\<rparr>)"
    "st' = st\<lparr>installed := selected_entries s, last_accepted_version := rs_version s, sched_file := Some body\<rparr>"
    using assms by (auto simp: fetch_store_and_install_def install_schedule_def split: option.splits sum.splits if_splits)
  then show ?thesis by (simp add: load_persisted_schedule_def install_schedule_def)
qed


subsection \<open>Numeric strings read back\<close>

lemma radix_value_dec:
  "\<forall>c \<in> set s. is_ascii_digit c \<Longrightarrow>
    radix_value 10 acc s = Some (foldl (\<lambda>a c. a * 10 + (c - 0x30)) acc s)"
  by (induction s arbitrary: acc) (auto simp: digit_value_def is_ascii_digit_def Let_def)

lemma trim_padded:
  assumes "s \<noteq> []" "\<forall>c \<in> set s. \<not> is_whitespace c"
  shows "trim (replicate i 0x20 @ s @ replicate j 0x20) = s"
proof -
  have w: "is_whitespace 0x20" by (simp add: is_whitespace_def)
  have d: "dropWhile is_whitespace (replicate k 0x20 @ u) = u" if "u \<noteq> []" "\<not> is_whitespace (hd u)" for k u
    using that w by (induction k) (auto simp: dropWhile_eq_self_iff)
  have h: "\<not> is_whitespace (hd (s @ u))" "\<not> is_whitespace (hd (rev s))" for u
    using assms by (auto simp: hd_rev)
  show ?thesis using d[of "s @ replicate j 0x20" i] d[of "rev s" j] h assms(1) by (simp add: trim_def)
qed

text \<open>
  C33. The numeric strings of the schedule read back: the decimal form in which a value is written,
  with any padding, parses to that value.
\<close>

theorem parse_u64_string_printed:
  "parse_u64_string (replicate i 0x20 @ dec_digits (unat n) @ replicate j 0x20) = Some n"
proof -
  let ?d = "dec_digits (unat n)"
  have d: "dec_val ?d = unat n" "?d \<noteq> []" "\<forall>c \<in> set ?d. is_ascii_digit c" using dec_digits_ok by auto
  have "\<not> is_whitespace c" if "c \<in> set ?d" for c
    using d(3) that by (fastforce simp: is_ascii_digit_def is_whitespace_def)
  then have t: "trim (replicate i 0x20 @ ?d @ replicate j 0x20) = ?d" using trim_padded[OF d(2)] by blast
  have "0x78 \<notin> set ?d" "0x2B \<notin> set ?d" using d(3) by (auto simp: is_ascii_digit_def)
  then have "take 2 ?d \<noteq> [0x30, 0x78]" "take 1 ?d \<noteq> [0x2B]"
    by (metis in_set_takeD list.set_intros)+
  moreover have "radix_value 10 0 ?d = Some (unat n)"
    using radix_value_dec[OF d(3), of 0] d(1) by (simp add: dec_val_def)
  ultimately show ?thesis
    using t d(2) u64_bound[of n] by (simp add: parse_u64_string_def from_str_radix_def Let_def)
qed

subsection \<open>Two limits of the schedule\<close>

text \<open>A document whose second entry is meant for block 1000, without the optional current block.\<close>

definition future_document :: "u64 \<Rightarrow> remote_schedule" where
  "future_document fee = \<lparr>rs_chain_id = 1, rs_version = 1, rs_current_block = None,
     remote_entries = remote_entries default_file @
       [(hd (remote_entries default_file))\<lparr>re_activation_block := 1000, re_min_base_fee_per_gas := fee\<rparr>]\<rparr>"


definition huge_denominator :: remote_schedule where
  "huge_denominator = default_file\<lparr>remote_entries :=
     [(hd (remote_entries default_file))\<lparr>re_base_fee_max_change_denominator := 2 ^ 127\<rparr>]\<rparr>"

text \<open>
  C40. Validation does not bound the denominator: a valid document can carry one for which the
  divisor of the base-fee update wraps to zero, and the node panics on the next block whose gas
  differs from the target.
\<close>

theorem huge_denominator_panics:
  assumes "gas_used \<noteq> 15000000"
  shows "validate huge_denominator = Inr () \<and>
    calc_next_block_base_fee (selected_entries huge_denominator) gas_used 30000000 base_fee = None"
proof -
  have "validate huge_denominator = Inr ()"
    by (simp add: huge_denominator_def default_file_def validate_def validate_entry_def validate_payment_def
        PAYMENT_BPS_DENOMINATOR_def)
  moreover have "calc_next_block_base_fee (selected_entries huge_denominator) gas_used 30000000 base_fee = None"
    using assms by (simp add: huge_denominator_def default_file_def calc_next_block_base_fee_def
        selected_entries_def schedule_entries_def params_latest_def to_alloy_def Let_def)
  ultimately show ?thesis by blast
qed

subsection \<open>The properties on a concrete run\<close>

definition demo_json :: json where
  "demo_json = \<lparr>from_str = (\<lambda>s. if s = [0x7B] then Some default_file else None), to_string_pretty = (\<lambda>_. [0x7B])\<rparr>"

definition demo_state :: "sched_state" where
  "demo_state = \<lparr>installed = selected_entries default_file, last_accepted_version = 1, sched_file = Some [0x7B]\<rparr>"

lemma default_file_valid: "validate default_file = Inr ()"
  by (simp add: default_file_def validate_def validate_entry_def validate_payment_def PAYMENT_BPS_DENOMINATOR_def)

lemma demo_poll:
  "fetch_store_and_install demo_json (Some [0x7B]) True \<lparr>installed = [], last_accepted_version = 0, sched_file = f\<rparr>
    = (Inr (), demo_state)"
  by (simp add: fetch_store_and_install_def parse_remote_schedule_def demo_json_def default_file_valid
      install_schedule_def demo_state_def) (simp add: default_file_def)

lemma demo_reach: "sched_reach demo_json None demo_state"
proof -
  have "sched_reach demo_json None \<lparr>installed = [], last_accepted_version = 0,
      sched_file = Some (to_string_pretty demo_json default_file @ [0x0A])\<rparr>"
    by (rule start[where r = "Inr ()" and r' = "Inr ()" and read_ok = True and write_ok = True
          and st = "\<lparr>installed = [], last_accepted_version = 0, sched_file = None\<rparr>"])
      (simp_all add: load_persisted_schedule_def ensure_default_schedule_file_def)
  then show ?thesis using demo_poll by (rule poll)
qed

lemma reachable_params_ok_witness: "params_ok (params_latest (installed demo_state))"
  using reachable_params_ok[OF demo_reach] by blast

lemma params_for_block_lookup_witness:
  "\<exists>!e. active_entry (installed demo_state) 7 e \<and> params_for_block (installed demo_state) 7 = entry_params e"
  by (rule params_for_block_lookup[OF demo_reach])
    (simp add: demo_state_def selected_entries_def schedule_entries_def default_file_def)

lemma restart_restores_witness:
  "load_persisted_schedule demo_json True
     \<lparr>installed = [], last_accepted_version = 0, sched_file = Some [0x7B]\<rparr> = (Inr (), demo_state)"
  using restart_restores[OF demo_poll[of None]] by (simp add: demo_state_def)

lemma huge_denominator_panics_witness:
  "calc_next_block_base_fee (selected_entries huge_denominator) 0 30000000 440000000 = None"
  using huge_denominator_panics[of 0 440000000] by simp

end
