(* ===== verification/Precompile.thy ===== *)
theory Precompile
  imports StateMemory Schedule
begin

unbundle bit_operations_syntax

text \<open>
  The Arkiv precompile, \<open>crates/arkiv-node/src/precompile.rs\<close>, and the read-write state adapter it
  runs the handlers on (\<open>state_adapter.rs\<close>). The journal of revm (\<open>EvmInternals\<close>), the ABI codec
  of alloy, JSON and the cryptography of signed payload references are arguments: the records
  \<open>internals\<close>, \<open>abi\<close> and \<open>payload_lib\<close>. A revert carries the Solidity error as a value.
\<close>

subsection \<open>Interface to the EVM\<close>

record event =
  ev_entity_key :: b256
  ev_operation_type :: byte
  ev_owner :: address
  ev_expires_at :: u32

text \<open>
  The methods of \<open>EvmInternals\<close>. Storage keys and words are given as their 32 big-endian bytes
  (the source converts with \<open>U256::from_be_bytes\<close> and \<open>to_be_bytes\<close>). \<open>load_account_code\<close> returns
  the code, if any, and the nonce; \<open>transfer\<close> returns whether it failed.
\<close>

record 's internals =
  load_account_code :: "address \<Rightarrow> ('s, db_error, bytes option \<times> u64) sm"
  evm_set_code :: "address \<Rightarrow> bytes \<Rightarrow> ('s, db_error, unit) sm"
  evm_bump_nonce :: "address \<Rightarrow> ('s, db_error, unit) sm"
  sload :: "address \<Rightarrow> b256 \<Rightarrow> ('s, db_error, b256) sm"
  sstore :: "address \<Rightarrow> b256 \<Rightarrow> b256 \<Rightarrow> ('s, db_error, unit) sm"
  load_balance :: "address \<Rightarrow> ('s, db_error, u256) sm"
  evm_transfer :: "address \<Rightarrow> address \<Rightarrow> u256 \<Rightarrow> ('s, db_error, bool) sm"
  set_balance :: "address \<Rightarrow> u256 \<Rightarrow> ('s, db_error, unit) sm"
  evm_log :: "address \<Rightarrow> event \<Rightarrow> 's \<Rightarrow> 's"
  block_number :: u256
  basefee :: u64
  evm_chain_id :: u64

subsection \<open>The read-write adapter\<close>

definition ensure_nonce_at_least_one :: "'s internals \<Rightarrow> address \<Rightarrow> ('s, db_error, unit) sm" where
  "ensure_nonce_at_least_one I addr =
     sbind (load_account_code I addr) (\<lambda>(_, nonce).
     if nonce = 0 then evm_bump_nonce I addr else sret ())"

definition read_write_adapter :: "'s internals \<Rightarrow> 's state_adapter" where
  "read_write_adapter I =
     \<lparr>ad_code = \<lambda>addr. sbind (load_account_code I addr) (\<lambda>(code, _).
        sret (case code of None \<Rightarrow> [] | Some c \<Rightarrow> c)),
      ad_set_code = \<lambda>addr code. sbind (evm_set_code I addr code) (\<lambda>_. ensure_nonce_at_least_one I addr),
      ad_tombstone_code = \<lambda>addr. sbind (evm_set_code I addr []) (\<lambda>_. ensure_nonce_at_least_one I addr),
      ad_storage = \<lambda>addr slot. sload I addr slot,
      ad_set_storage = \<lambda>addr slot value. sstore I addr slot value,
      ad_ensure_account_persists = \<lambda>addr. ensure_nonce_at_least_one I addr\<rparr>"

text \<open>The read-only adapter over a state provider, for queries: writes bail out.\<close>

record 's provider =
  account_code :: "'s \<Rightarrow> address \<Rightarrow> db_error + bytes option"
  provider_storage :: "'s \<Rightarrow> address \<Rightarrow> b256 \<Rightarrow> db_error + b256 option"

definition read_only_adapter :: "'s provider \<Rightarrow> 's state_adapter" where
  "read_only_adapter P =
     \<lparr>ad_code = \<lambda>addr s. (case account_code P s addr of
        Inl e \<Rightarrow> Inl e | Inr c \<Rightarrow> Inr (case c of None \<Rightarrow> [] | Some b \<Rightarrow> b, s)),
      ad_set_code = \<lambda>_ _. sfail ReadOnlyState,
      ad_tombstone_code = \<lambda>_. sfail ReadOnlyState,
      ad_storage = \<lambda>addr slot s. (case provider_storage P s addr slot of
        Inl e \<Rightarrow> Inl e | Inr v \<Rightarrow> Inr (case v of None \<Rightarrow> zero_b256 | Some w \<Rightarrow> w, s)),
      ad_set_storage = \<lambda>_ _ _. sfail ReadOnlyState,
      ad_ensure_account_persists = \<lambda>_. sfail ReadOnlyState\<rparr>"

subsection \<open>Operations, errors, constants\<close>

type_synonym words4 = "b256 list"

record op_attribute =
  at_name :: b256
  at_value_type :: byte
  at_value :: words4

record operation =
  operation_type :: byte
  op_entity_key :: b256
  op_payload :: bytes
  op_content_type :: words4
  op_attributes :: "op_attribute list"
  op_btl :: u32
  op_new_owner :: address

datatype sol_error =
    Ident32Empty
  | Ident32InvalidByte nat byte
  | EmptyBatch
  | InvalidOpType byte
  | ZeroBtl
  | EntityNotFound b256
  | NotOwner b256 address address
  | EntityExpired b256 u32
  | ExpiryNotExtended b256 u32 u32
  | TransferToZeroAddress b256
  | TransferToSelf b256
  | EntityNotExpired b256 u32
  | AttributeValueMalformed b256 byte nat
  | AttributeStringInvalidByte b256 nat byte
  | PayloadReferenceMalformed
  | PayloadReferenceUnsupportedVersion u64
  | PayloadProviderUnknown ustring
  | PayloadProviderSignerNotAllowed address
  | PayloadProviderReceiptMismatch
  | PayloadProviderSignatureInvalid
  | PayloadReferenceContentTypeInvalid bytes
  | PayloadReferenceNonceUsed b256
  | PayloadReferencePaymentInvalid u256
  | PayloadReferencePaymentBelowMinimum u64 u64
  | PayloadReferencePaymentInsufficientBalance address u256 u256
  | PayloadProviderPaymentTransferFailed address u256
  | PayloadReferenceRequired bytes

datatype fatal =
    FatalDb db_error
  | FatalValueType byte
  | FatalShare u16
  | FatalDelegateCall
  | FatalValueCall
  | FatalStaticCall

datatype apply_error = Revert sol_error | Fatal fatal

definition fatal_db :: "('s, db_error, 'a) sm \<Rightarrow> ('s, apply_error, 'a) sm" where
  "fatal_db m = smap_err (\<lambda>e. Fatal (FatalDb e)) m"

definition OP_CREATE :: byte where "OP_CREATE = 1"
definition OP_UPDATE :: byte where "OP_UPDATE = 2"
definition OP_EXTEND :: byte where "OP_EXTEND = 3"
definition OP_TRANSFER :: byte where "OP_TRANSFER = 4"
definition OP_DELETE :: byte where "OP_DELETE = 5"
definition OP_EXPIRE :: byte where "OP_EXPIRE = 6"

lemmas op_type_defs = OP_CREATE_def OP_UPDATE_def OP_EXTEND_def OP_TRANSFER_def OP_DELETE_def OP_EXPIRE_def

definition G_EXECUTE_BASE :: u64 where "G_EXECUTE_BASE = 5000"
definition G_NONCES :: u64 where "G_NONCES = 800"
definition G_CREATE :: u64 where "G_CREATE = 80000"
definition G_UPDATE :: u64 where "G_UPDATE = 30000"
definition G_EXTEND :: u64 where "G_EXTEND = 25000"
definition G_TRANSFER :: u64 where "G_TRANSFER = 25000"
definition G_DELETE :: u64 where "G_DELETE = 62000"
definition G_EXPIRE :: u64 where "G_EXPIRE = 62000"
definition G_BYTE :: u64 where "G_BYTE = 16"
definition G_ANNOTATION :: u64 where "G_ANNOTATION = 5000"
definition G_ART_INDEXED_ANNOTATION :: u64 where "G_ART_INDEXED_ANNOTATION = 6000"
definition G_PAYLOAD_REFERENCE_VERIFY :: u64 where "G_PAYLOAD_REFERENCE_VERIFY = 50000"

lemmas gas_defs = G_EXECUTE_BASE_def G_NONCES_def G_CREATE_def G_UPDATE_def G_EXTEND_def
  G_TRANSFER_def G_DELETE_def G_EXPIRE_def G_BYTE_def G_ANNOTATION_def
  G_ART_INDEXED_ANNOTATION_def G_PAYLOAD_REFERENCE_VERIFY_def

definition PAYLOAD_REFERENCE_CONTENT_TYPE :: bytes where
  "PAYLOAD_REFERENCE_CONTENT_TYPE = bstr ''application/vnd.atlas.payload-reference+json''"

subsection \<open>Encoding helpers\<close>

definition strip_trailing_zeros :: "bytes \<Rightarrow> bytes" where
  "strip_trailing_zeros v = rev (dropWhile (\<lambda>b. b = 0) (rev v))"

definition pack_bytes32_4 :: "words4 \<Rightarrow> bytes" where
  "pack_bytes32_4 ws = strip_trailing_zeros (concat ws)"

definition mime128_to_bytes :: "words4 \<Rightarrow> bytes" where
  "mime128_to_bytes m = pack_bytes32_4 m"

definition ident32_to_bytes :: "b256 \<Rightarrow> bytes" where
  "ident32_to_bytes name = strip_trailing_zeros name"

definition clip_u32 :: "u64 \<Rightarrow> u32" where
  "clip_u32 n = ucast (min n 0xFFFFFFFF)"

fun null_loop :: "b256 \<Rightarrow> nat \<Rightarrow> bool \<Rightarrow> bytes \<Rightarrow> sol_error + unit" where
  "null_loop name pos seen_zero [] = Inr ()"
| "null_loop name pos seen_zero (b # bs) =
     (if b = 0 then null_loop name (Suc pos) True bs
      else if seen_zero then Inl (AttributeStringInvalidByte name pos b)
      else null_loop name (Suc pos) seen_zero bs)"

definition reject_embedded_null_in_string :: "op_attribute \<Rightarrow> sol_error + unit" where
  "reject_embedded_null_in_string a = null_loop (at_name a) 0 False (concat (at_value a))"

text \<open>
  \<open>std::str::from_utf8\<close>: the length of the well-formed sequence at the start, and the number of
  bytes before the first ill-formed one (\<open>valid_up_to\<close>), if there is one.
\<close>

definition is_cont :: "byte \<Rightarrow> bool" where
  "is_cont b \<longleftrightarrow> 0x80 \<le> b \<and> b \<le> 0xBF"

fun utf8_seq :: "bytes \<Rightarrow> nat" where
  "utf8_seq [] = 0"
| "utf8_seq (a # r) =
     (if a < 0x80 then 1
      else case r of
        [] \<Rightarrow> 0
      | b # r2 \<Rightarrow>
          if 0xC2 \<le> a \<and> a \<le> 0xDF then (if is_cont b then 2 else 0)
          else case r2 of
            [] \<Rightarrow> 0
          | c # r3 \<Rightarrow>
              if a = 0xE0 then (if 0xA0 \<le> b \<and> b \<le> 0xBF \<and> is_cont c then 3 else 0)
              else if a = 0xED then (if 0x80 \<le> b \<and> b \<le> 0x9F \<and> is_cont c then 3 else 0)
              else if 0xE1 \<le> a \<and> a \<le> 0xEF then (if is_cont b \<and> is_cont c then 3 else 0)
              else case r3 of
                [] \<Rightarrow> 0
              | d # _ \<Rightarrow>
                  if a = 0xF0 then (if 0x90 \<le> b \<and> b \<le> 0xBF \<and> is_cont c \<and> is_cont d then 4 else 0)
                  else if a = 0xF4 then (if 0x80 \<le> b \<and> b \<le> 0x8F \<and> is_cont c \<and> is_cont d then 4 else 0)
                  else if 0xF1 \<le> a \<and> a \<le> 0xF3 then (if is_cont b \<and> is_cont c \<and> is_cont d then 4 else 0)
                  else 0)"

function utf8_error :: "nat \<Rightarrow> bytes \<Rightarrow> nat option" where
  "utf8_error pos bs =
     (if bs = [] then None
      else if utf8_seq bs = 0 then Some pos
      else utf8_error (pos + utf8_seq bs) (drop (utf8_seq bs) bs))"
  by pat_completeness auto

termination
  by (relation "measure (\<lambda>(pos, bs). length bs)") auto

declare utf8_error.simps [simp del]

definition reject_invalid_utf8_in_string :: "op_attribute \<Rightarrow> sol_error + unit" where
  "reject_invalid_utf8_in_string a =
     (let content = pack_bytes32_4 (at_value a) in
      case utf8_error 0 content of
        None \<Rightarrow> Inr ()
      | Some position \<Rightarrow> Inl (AttributeStringInvalidByte (at_name a) position (content ! position)))"

fun upper_words_loop :: "op_attribute \<Rightarrow> nat \<Rightarrow> words4 \<Rightarrow> sol_error + unit" where
  "upper_words_loop a i [] = Inr ()"
| "upper_words_loop a i (w # ws) =
     (if w \<noteq> zero_b256 then Inl (AttributeValueMalformed (at_name a) (at_value_type a) i)
      else upper_words_loop a (Suc i) ws)"

definition reject_non_zero_upper_words :: "op_attribute \<Rightarrow> sol_error + unit" where
  "reject_non_zero_upper_words a = upper_words_loop a 1 (drop 1 (at_value a))"

definition rmap :: "sol_error + unit \<Rightarrow> 'a \<Rightarrow> apply_error + 'a" where
  "rmap r x = (case r of Inl e \<Rightarrow> Inl (Revert e) | Inr _ \<Rightarrow> Inr x)"

definition convert_value :: "op_attribute \<Rightarrow> apply_error + bytes" where
  "convert_value a =
     (if at_value_type a = ATTR_UINT then rmap (reject_non_zero_upper_words a) (at_value a ! 0)
      else if at_value_type a = ATTR_STRING then
        (case rmap (reject_embedded_null_in_string a) () of
           Inl e \<Rightarrow> Inl e
         | Inr _ \<Rightarrow> rmap (reject_invalid_utf8_in_string a) (pack_bytes32_4 (at_value a)))
      else if at_value_type a = ATTR_ENTITY_KEY then rmap (reject_non_zero_upper_words a) (at_value a ! 0)
      else Inl (Fatal (FatalValueType (at_value_type a))))"

fun convert_attributes :: "op_attribute list \<Rightarrow> apply_error + attribute list" where
  "convert_attributes [] = Inr []"
| "convert_attributes (a # as) =
     (case convert_value a of
        Inl e \<Rightarrow> Inl e
      | Inr v \<Rightarrow>
          (case convert_attributes as of
             Inl e \<Rightarrow> Inl e
           | Inr bs \<Rightarrow>
               Inr (\<lparr>attr_key = ident32_to_bytes (at_name a), attr_type = at_value_type a, attr_value = v\<rparr> # bs)))"

subsection \<open>Identifiers\<close>

definition ident_mask :: "nat list \<Rightarrow> u128" where
  "ident_mask bs = foldr (\<lambda>b m. m OR push_bit b 1) bs 0"

definition IDENT_CHARSET :: u128 where
  "IDENT_CHARSET = ident_mask ([0x2D, 0x2E] @ [0x30..<0x3A] @ [0x5F] @ [0x61..<0x7B])"

definition IDENT_LEADING :: u128 where
  "IDENT_LEADING = ident_mask [0x61..<0x7B]"

fun ident_loop :: "nat \<Rightarrow> bool \<Rightarrow> bytes \<Rightarrow> sol_error + unit" where
  "ident_loop position seen_zero [] = Inr ()"
| "ident_loop position seen_zero (b # bs) =
     (if b = 0 then ident_loop (Suc position) True bs
      else
        let charset = (if position = 0 then IDENT_LEADING else IDENT_CHARSET);
            charset_bad = 127 < b \<or> drop_bit (unat b) charset AND 1 = 0 in
        if seen_zero \<or> charset_bad then Inl (Ident32InvalidByte position b)
        else ident_loop (Suc position) seen_zero bs)"

definition validate_ident32 :: "b256 \<Rightarrow> sol_error + unit" where
  "validate_ident32 raw = (if raw ! 0 = 0 then Inl Ident32Empty else ident_loop 0 False raw)"

fun validate_attribute_names :: "op_attribute list \<Rightarrow> sol_error + unit" where
  "validate_attribute_names [] = Inr ()"
| "validate_attribute_names (a # as) =
     (case validate_ident32 (at_name a) of Inl e \<Rightarrow> Inl e | Inr _ \<Rightarrow> validate_attribute_names as)"

end
