(* ===== verification/Utf8.thy ===== *)
theory Utf8
  imports Precompile
begin

text \<open>
  The check for well-formed UTF-8 that guards string attributes accepts exactly the encodings of
  sequences of Unicode scalar values.
\<close>

definition is_scalar :: "uchar \<Rightarrow> bool" where
  "is_scalar c \<longleftrightarrow> c < 0xD800 \<or> (0xE000 \<le> c \<and> c < 0x110000)"

subsection \<open>Digits to base 64\<close>

lemma digits64:
  obtains x y z where "c = x * 4096 + y * 64 + z" "y < 64" "z < 64" "x = c div 4096"
    "y = c div 64 mod 64" "z = c mod (64::nat)"
proof -
  have "c div 64 div 64 = c div 4096" by (simp flip: div_mult2_eq)
  then have "c div 64 = (c div 4096) * 64 + c div 64 mod 64"
    using div_mult_mod_eq[of "c div 64" 64] by simp
  then have "c = (c div 4096) * 4096 + (c div 64 mod 64) * 64 + c mod 64"
    using div_mult_mod_eq[of c 64] by linarith
  then show thesis by (rule that) simp_all
qed

lemma of_digits64:
  fixes x y z :: nat
  assumes "y < 64" "z < 64"
  shows "(x * 4096 + y * 64 + z) div 4096 = x" "(x * 4096 + y * 64 + z) div 64 mod 64 = y"
    "(x * 4096 + y * 64 + z) mod 64 = z"
proof -
  have "(x * 4096 + y * 64 + z) div 64 = x * 64 + y" using assms by (simp add: div_mult_self3)
  then show "(x * 4096 + y * 64 + z) div 64 mod 64 = y" using assms by simp
  show "(x * 4096 + y * 64 + z) div 4096 = x"
    using assms div_mult_self3[of 4096 x "y * 64 + z"] by simp
  show "(x * 4096 + y * 64 + z) mod 64 = z"
    using assms mod_mult_self3[of "x * 64 + y" 64 z] by (simp add: algebra_simps)
qed

lemma byte_of_nat: obtains n where "(b :: byte) = of_nat n" "n < 256" "n = unat b"
  using unat_byte_lt[of b] that[of "unat b"] by simp

lemma byte_le [simp]:
  "m < 256 \<Longrightarrow> n < 256 \<Longrightarrow> (of_nat m :: byte) \<le> of_nat n \<longleftrightarrow> m \<le> n"
  "m < 256 \<Longrightarrow> n < 256 \<Longrightarrow> (of_nat m :: byte) < of_nat n \<longleftrightarrow> m < n"
  "m < 256 \<Longrightarrow> n < 256 \<Longrightarrow> (of_nat m :: byte) = of_nat n \<longleftrightarrow> m = n"
  by (simp_all add: word_le_nat_alt word_less_nat_alt byte_eq_unat)

definition cont_nat :: "nat \<Rightarrow> bool" where
  "cont_nat b \<longleftrightarrow> 0x80 \<le> b \<and> b \<le> 0xBF"

text \<open>The conditions of \<open>utf8_seq\<close> on the values of the bytes.\<close>

fun seq_nat :: "nat list \<Rightarrow> nat" where
  "seq_nat [] = 0"
| "seq_nat (a # r) =
     (if a < 0x80 then 1
      else case r of
        [] \<Rightarrow> 0
      | b # r2 \<Rightarrow>
          if 0xC2 \<le> a \<and> a \<le> 0xDF then (if cont_nat b then 2 else 0)
          else case r2 of
            [] \<Rightarrow> 0
          | c # r3 \<Rightarrow>
              if a = 0xE0 then (if 0xA0 \<le> b \<and> b \<le> 0xBF \<and> cont_nat c then 3 else 0)
              else if a = 0xED then (if 0x80 \<le> b \<and> b \<le> 0x9F \<and> cont_nat c then 3 else 0)
              else if 0xE1 \<le> a \<and> a \<le> 0xEF
              then (if cont_nat b \<and> cont_nat c then 3 else 0)
              else case r3 of
                [] \<Rightarrow> 0
              | d # _ \<Rightarrow>
                  if a = 0xF0
                  then (if 0x90 \<le> b \<and> b \<le> 0xBF \<and> cont_nat c \<and> cont_nat d then 4 else 0)
                  else if a = 0xF4
                  then (if 0x80 \<le> b \<and> b \<le> 0x8F \<and> cont_nat c \<and> cont_nat d then 4 else 0)
                  else if 0xF1 \<le> a \<and> a \<le> 0xF3
                  then (if cont_nat b \<and> cont_nat c \<and> cont_nat d then 4 else 0)
                  else 0)"

lemma utf8_seq_nat: "utf8_seq bs = seq_nat (map unat bs)"
proof -
  have n: "0x80 \<le> b \<longleftrightarrow> 0x80 \<le> unat b" "b < 0x80 \<longleftrightarrow> unat b < 0x80" "b \<le> 0xBF \<longleftrightarrow> unat b \<le> 0xBF"
    "0xC2 \<le> b \<longleftrightarrow> 0xC2 \<le> unat b" "b \<le> 0xDF \<longleftrightarrow> unat b \<le> 0xDF" "b = 0xE0 \<longleftrightarrow> unat b = 0xE0"
    "0xA0 \<le> b \<longleftrightarrow> 0xA0 \<le> unat b" "b = 0xED \<longleftrightarrow> unat b = 0xED" "b \<le> 0x9F \<longleftrightarrow> unat b \<le> 0x9F"
    "0xE1 \<le> b \<longleftrightarrow> 0xE1 \<le> unat b" "b \<le> 0xEF \<longleftrightarrow> unat b \<le> 0xEF" "b = 0xF0 \<longleftrightarrow> unat b = 0xF0"
    "0x90 \<le> b \<longleftrightarrow> 0x90 \<le> unat b" "b = 0xF4 \<longleftrightarrow> unat b = 0xF4" "b \<le> 0x8F \<longleftrightarrow> unat b \<le> 0x8F"
    "0xF1 \<le> b \<longleftrightarrow> 0xF1 \<le> unat b" "b \<le> 0xF3 \<longleftrightarrow> unat b \<le> 0xF3" for b :: byte
    by (simp_all add: word_le_nat_alt word_less_nat_alt byte_eq_unat)
  have k: "is_cont b \<longleftrightarrow> cont_nat (unat b)" for b
    by (simp only: is_cont_def cont_nat_def n)
  note S = utf8_seq.simps seq_nat.simps list.map list.case n k
  show ?thesis
  proof (cases bs)
    case (Cons a r)
    note 1 = Cons
    show ?thesis
    proof (cases r)
      case (Cons b r2)
      note 2 = Cons
      show ?thesis
      proof (cases r2)
        case (Cons c r3)
        then show ?thesis unfolding 1 2 by (cases r3) (simp_all only: S)
      qed (simp only: 1 2 S)
    qed (simp only: 1 S)
  qed (simp only: S)
qed


fun char_nat :: "nat \<Rightarrow> nat list" where
  "char_nat c =
     (if c < 0x80 then [c]
      else if c < 0x800 then [0xC0 + c div 64, 0x80 + c mod 64]
      else if c < 0x10000 then [0xE0 + c div 4096, 0x80 + c div 64 mod 64, 0x80 + c mod 64]
      else [0xF0 + c div 262144, 0x80 + c div 4096 mod 64, 0x80 + c div 64 mod 64, 0x80 + c mod 64])"

lemma char_nat_bytes: "c < 0x110000 \<Longrightarrow> \<forall>b \<in> set (char_nat c). b < 256"
  by (auto simp: div_less_iff_less_mult less_mult_imp_div_less)

lemma utf8_char_nat: "utf8_char c = map of_nat (char_nat c)"
  by (simp add: utf8_char_def)

lemma unat_utf8_char: "c < 0x110000 \<Longrightarrow> map unat (utf8_char c) = char_nat c"
  using char_nat_bytes[of c] by (simp add: utf8_char_nat map_idI del: char_nat.simps)

lemma seq_char_nat:
  assumes "is_scalar c"
  shows "seq_nat (char_nat c @ r) = length (char_nat c)"
proof -
  consider "c < 0x80" | "0x80 \<le> c" "c < 0x800" | "0x800 \<le> c" "c < 0x10000" | "0x10000 \<le> c" by linarith
  then show ?thesis
  proof cases
    case 2
    have "c div 64 < 32" "2 \<le> c div 64" "c mod 64 < 64" using 2 by (simp_all add: div_less_iff_less_mult less_eq_div_iff_mult_less_eq)
    then show ?thesis using 2 by (simp add: cont_nat_def)
  next
    case 3
    obtain x y z where d: "c = x * 4096 + y * 64 + z" "y < 64" "z < 64" "x = c div 4096"
      "y = c div 64 mod 64" "z = c mod 64" by (rule digits64)
    have "x < 16" "x = 0 \<Longrightarrow> 32 \<le> y" "x = 13 \<Longrightarrow> y < 32"
      using 3 d(1-3) assms by (auto simp: is_scalar_def)
    moreover have "char_nat c = [0xE0 + x, 0x80 + y, 0x80 + z]" using 3 d(4-6) by simp
    ultimately show ?thesis using d(2,3) by (simp add: cont_nat_def del: char_nat.simps) linarith
  next
    case 4
    obtain x y z where d: "c = x * 4096 + y * 64 + z" "y < 64" "z < 64" "x = c div 4096"
      "y = c div 64 mod 64" "z = c mod 64" by (rule digits64)
    define w v where "w = x div 64" and "v = x mod 64"
    have x: "x = w * 64 + v" "v < 64" by (simp_all add: w_def v_def)
    have w: "c div 262144 = w" using d(4) by (simp add: w_def flip: div_mult2_eq)
    have "16 \<le> x" "x < 272" using 4 d(1-3) assms by (auto simp: is_scalar_def)
    then have "w < 5" "w = 0 \<Longrightarrow> 16 \<le> v" "w = 4 \<Longrightarrow> v < 16" using x by auto
    moreover have "char_nat c = [0xF0 + w, 0x80 + v, 0x80 + y, 0x80 + z]"
      using 4 d(4-6) w by (simp add: v_def)
    ultimately show ?thesis using x(2) d(2,3) by (simp add: cont_nat_def del: char_nat.simps) linarith
  qed simp
qed


lemma char2:
  assumes "0xC2 \<le> a" "a \<le> 0xDF" "cont_nat b"
  shows "\<exists>k. is_scalar k \<and> char_nat k = [a, b]"
proof -
  define x y where "x = a - 0xC0" and "y = b - 0x80"
  have xy: "a = 0xC0 + x" "b = 0x80 + y" "2 \<le> x" "x < 32" "y < 64"
    using assms by (auto simp: cont_nat_def x_def y_def)
  let ?k = "x * 64 + y"
  have "?k div 64 = x" "?k mod 64 = y" using xy(5) by simp_all
  moreover have "0x80 \<le> ?k" "?k < 0x800" using xy by simp_all
  ultimately show ?thesis using xy by (intro exI[of _ ?k]) (simp add: is_scalar_def)
qed

lemma char3:
  assumes "0xE0 \<le> a" "a \<le> 0xEF" "cont_nat b" "cont_nat c" "a = 0xE0 \<Longrightarrow> 0xA0 \<le> b" "a = 0xED \<Longrightarrow> b \<le> 0x9F"
  shows "\<exists>k. is_scalar k \<and> char_nat k = [a, b, c]"
proof -
  define x y z where "x = a - 0xE0" and "y = b - 0x80" and "z = c - 0x80"
  have xyz: "a = 0xE0 + x" "b = 0x80 + y" "c = 0x80 + z" "x < 16" "y < 64" "z < 64"
    using assms(1-4) by (auto simp: cont_nat_def x_def y_def z_def)
  let ?k = "x * 4096 + y * 64 + z"
  have x: "x = 0 \<Longrightarrow> 32 \<le> y" "x = 13 \<Longrightarrow> y < 32" using assms(5,6) xyz by auto
  then have k: "0x800 \<le> ?k" "?k < 0x10000" using xyz by (cases "x = 0"; simp)+
  have "is_scalar ?k"
  proof (cases "x < 13")
    case False
    then show ?thesis using x(2) xyz(4-6) by (cases "x = 13") (auto simp: is_scalar_def)
  qed (use xyz in \<open>simp add: is_scalar_def\<close>)
  moreover have "char_nat ?k = [a, b, c]"
    using k of_digits64[OF xyz(5,6), of x] xyz by simp
  ultimately show ?thesis by blast
qed

lemma char4:
  assumes "0xF0 \<le> a" "a \<le> 0xF4" "cont_nat b" "cont_nat c" "cont_nat d"
    "a = 0xF0 \<Longrightarrow> 0x90 \<le> b" "a = 0xF4 \<Longrightarrow> b \<le> 0x8F"
  shows "\<exists>k. is_scalar k \<and> char_nat k = [a, b, c, d]"
proof -
  define w v y z where "w = a - 0xF0" and "v = b - 0x80" and "y = c - 0x80" and "z = d - 0x80"
  have xyz: "a = 0xF0 + w" "b = 0x80 + v" "c = 0x80 + y" "d = 0x80 + z" "w < 5" "v < 64" "y < 64" "z < 64"
    using assms(1-5) by (auto simp: cont_nat_def w_def v_def y_def z_def)
  define X where "X = w * 64 + v"
  let ?x = X
  let ?k = "?x * 4096 + y * 64 + z"
  have w: "w = 0 \<Longrightarrow> 16 \<le> v" "w = 4 \<Longrightarrow> v < 16" using assms(6,7) xyz by auto
  then have x: "16 \<le> X" "X < 272" using xyz unfolding X_def by (cases "w = 0"; cases "w = 4"; simp)+
  then have k: "0x10000 \<le> ?k" "?k < 0x110000" using xyz(7,8) by simp_all
  have "?k div 262144 = ?k div 4096 div 64" by (simp flip: div_mult2_eq)
  then have "?k div 262144 = w" "?k div 4096 mod 64 = v"
    using of_digits64(1)[OF xyz(7,8), of ?x] xyz(6) by (simp_all add: X_def)
  then have "char_nat ?k = [a, b, c, d]"
    using k of_digits64(2,3)[OF xyz(7,8), of ?x] xyz by simp
  moreover have "is_scalar ?k" using k by (simp add: is_scalar_def)
  ultimately show ?thesis by blast
qed

lemma seq_nat_sound:
  assumes "seq_nat ns \<noteq> 0"
  shows "\<exists>c. is_scalar c \<and> char_nat c = take (seq_nat ns) ns \<and> seq_nat ns \<le> length ns"
proof (cases ns)
  case Nil
  then show ?thesis using assms by simp
next
  case (Cons a r)
  consider "a < 0x80" | "0x80 \<le> a" "a < 0xC2" | "0xC2 \<le> a" "a \<le> 0xDF" | "0xE0 \<le> a" "a \<le> 0xEF"
    | "0xF0 \<le> a" "a \<le> 0xF4" | "0xF4 < a" by linarith
  then show ?thesis
  proof cases
    case 1
    then show ?thesis using Cons by (intro exI[of _ a]) (simp add: is_scalar_def)
  next
    case 3
    then obtain b r2 where "r = b # r2" "cont_nat b"
      using assms Cons by (auto split: list.splits if_splits)
    then show ?thesis using 3 Cons char2[of a b] by simp
  next
    case 4
    then obtain b c r3 where r: "r = b # c # r3" using assms Cons by (auto split: list.splits if_splits)
    then have "cont_nat b" "cont_nat c" "a = 0xE0 \<Longrightarrow> 0xA0 \<le> b" "a = 0xED \<Longrightarrow> b \<le> 0x9F" "seq_nat ns = 3"
      using 4 assms Cons by (auto simp: cont_nat_def split: if_splits)
    then show ?thesis using 4 Cons r char3[of a b c] by (simp del: seq_nat.simps)
  next
    case 5
    then obtain b c d r4 where r: "r = b # c # d # r4" using assms Cons by (auto split: list.splits if_splits)
    then have "cont_nat b" "cont_nat c" "cont_nat d" "a = 0xF0 \<Longrightarrow> 0x90 \<le> b" "a = 0xF4 \<Longrightarrow> b \<le> 0x8F"
      "seq_nat ns = 4"
      using 5 assms Cons by (auto simp: cont_nat_def split: if_splits)
    then show ?thesis using 5 Cons r char4[of a b c d] by (simp del: seq_nat.simps)
  next
    case 2
    then have "seq_nat ns = 0" using Cons by (simp split: list.split)
    then show ?thesis using assms by simp
  next
    case 6
    then have "seq_nat ns = 0" using Cons by (simp split: list.split)
    then show ?thesis using assms by simp
  qed
qed

subsection \<open>Well-formed strings\<close>

lemma utf8_seq_sound:
  assumes "utf8_seq bs \<noteq> 0"
  shows "\<exists>c. is_scalar c \<and> bs = utf8_char c @ drop (utf8_seq bs) bs"
proof -
  obtain c where c: "is_scalar c" "char_nat c = map unat (take (utf8_seq bs) bs)"
    using seq_nat_sound[of "map unat bs"] assms by (auto simp: utf8_seq_nat take_map)
  have "utf8_char c = take (utf8_seq bs) bs" unfolding utf8_char_nat c(2) by (simp add: o_def)
  then show ?thesis using c(1) by (intro exI[of _ c]) simp
qed

lemma utf8_seq_char:
  assumes "is_scalar c"
  shows "utf8_seq (utf8_char c @ r) = length (utf8_char c)"
proof -
  have m: "map unat (utf8_char c) = char_nat c" using assms by (intro unat_utf8_char) (auto simp: is_scalar_def)
  have "length (utf8_char c) = length (char_nat c)" unfolding m[symmetric] by (rule length_map[symmetric])
  then show ?thesis unfolding utf8_seq_nat map_append m by (simp only: seq_char_nat[OF assms])
qed

lemma utf8_char_not_empty [simp]: "utf8_char c \<noteq> []"
  by (simp add: utf8_char_def)

lemma utf8_simps [simp]: "utf8 [] = []" "utf8 (c # s) = utf8_char c @ utf8 s"
  by (simp_all add: utf8_def)

lemma utf8_error_encoded: "\<forall>c \<in> set s. is_scalar c \<Longrightarrow> utf8_error pos (utf8 s) = None"
proof (induction s arbitrary: pos)
  case Nil
  then show ?case by (simp add: utf8_error.simps)
next
  case (Cons c s)
  then have "utf8_seq (utf8_char c @ utf8 s) = length (utf8_char c)" by (intro utf8_seq_char) simp
  moreover have "utf8_char c @ utf8 s \<noteq> []" "0 < len_utf8 c" by (simp_all add: len_utf8_def)
  ultimately show ?case using Cons
    by (simp only: utf8_error.simps[of pos "utf8_char c @ utf8 s"] utf8_simps list.set) simp
qed

lemma utf8_error_sound: "utf8_error pos bs = None \<Longrightarrow> \<exists>s. (\<forall>c \<in> set s. is_scalar c) \<and> bs = utf8 s"
proof (induction pos bs rule: utf8_error.induct)
  case (1 pos bs)
  show ?case
  proof (cases "bs = []")
    case True
    then show ?thesis by (intro exI[of _ "[]"]) simp
  next
    case False
    then have n: "utf8_seq bs \<noteq> 0" "utf8_error (pos + utf8_seq bs) (drop (utf8_seq bs) bs) = None"
      using "1.prems" by (simp_all add: utf8_error.simps[of pos bs] split: if_splits)
    obtain c where c: "is_scalar c" "bs = utf8_char c @ drop (utf8_seq bs) bs" using utf8_seq_sound[OF n(1)] by blast
    obtain s where s: "\<forall>c \<in> set s. is_scalar c" "drop (utf8_seq bs) bs = utf8 s"
      using "1.IH"[OF False n(1,2)] by blast
    have "bs = utf8 (c # s)" using c(2) s(2) by simp
    then show ?thesis using c(1) s(1) by (intro exI[of _ "c # s"]) simp
  qed
qed

lemma utf8_error_iff: "utf8_error 0 bs = None \<longleftrightarrow> bs \<in> utf8 ` {s. list_all is_scalar s}"
  using utf8_error_encoded[of _ 0] utf8_error_sound[of 0 bs] by (auto simp: list_all_iff)

text \<open>
  C22. String attributes are UTF-8: the check of the precompile accepts the content of a string
  attribute exactly when it is the encoding of a sequence of Unicode scalar values (no surrogates,
  no overlong forms, nothing beyond U+10FFFF).
\<close>

theorem utf8_check_iff:
  "reject_invalid_utf8_in_string a = Inr () \<longleftrightarrow>
     pack_bytes32_4 (at_value a) \<in> utf8 ` {s. list_all is_scalar s}"
  unfolding utf8_error_iff[symmetric]
  by (simp add: reject_invalid_utf8_in_string_def Let_def split: option.split)

end
