(* ===== verification/RpcText.thy ===== *)
theory RpcText
  imports Utf8 Schedule
begin

text \<open>
  The text forms of \<open>crates/arkiv-node/src/rpc.rs\<close>: numbers in hexadecimal as the serialisers
  print them and as the three parsers read them, and the strings made of stored bytes with
  \<open>String::from_utf8_lossy\<close>.
\<close>

subsection \<open>Hexadecimal numbers\<close>

text \<open>\<open>format!("0x{n:x}")\<close>: lower-case digits, no leading zeros.\<close>

fun hex_num :: "nat \<Rightarrow> ustring" where
  "hex_num n = (if n < 16 then [hex_digit n] else hex_num (n div 16) @ [hex_digit (n mod 16)])"

declare hex_num.simps [simp del]

definition ser_u64_hex :: "u64 \<Rightarrow> ustring" where
  "ser_u64_hex v = [0x30, 0x78] @ hex_num (unat v)"

definition ser_opt_u64_hex :: "u64 option \<Rightarrow> ustring option" where
  "ser_opt_u64_hex v = (case v of None \<Rightarrow> None | Some n \<Rightarrow> Some (ser_u64_hex n))"

text \<open>The untagged enum the parsers decode first.\<close>

datatype number_or_hex = Num u64 | Hex ustring

definition strip_0x :: "ustring \<Rightarrow> ustring" where
  "strip_0x s = (if take 2 s = [0x30, 0x78] then drop 2 s else if take 2 s = [0x30, 0x58] then drop 2 s else s)"

text \<open>A string that is no number is \<open>None\<close>: the error carries it and the message.\<close>

definition de_u64_hex :: "number_or_hex \<Rightarrow> u64 option" where
  "de_u64_hex e = (case e of Num n \<Rightarrow> Some n | Hex s \<Rightarrow> from_str_radix 16 (strip_0x s))"

definition de_u64_flexible :: "number_or_hex option \<Rightarrow> u64 option option" where
  "de_u64_flexible opt =
     (case opt of
        None \<Rightarrow> Some None
      | Some (Num n) \<Rightarrow> Some (Some n)
      | Some (Hex s) \<Rightarrow> map_option Some (from_str_radix 16 (strip_0x s)))"

definition parse_cursor :: "ustring option \<Rightarrow> ustring + u64 option" where
  "parse_cursor s =
     (case s of
        None \<Rightarrow> Inr None
      | Some c \<Rightarrow>
          let stripped = (if take 2 c = [0x30, 0x78] then drop 2 c else c) in
          case from_str_radix 16 stripped of None \<Rightarrow> Inl c | Some n \<Rightarrow> Inr (Some n))"

lemma digit_value_hex [simp]: "n < 16 \<Longrightarrow> digit_value 16 (hex_digit n) = Some n"
  by (auto simp: digit_value_def hex_digit_def Let_def)

lemma radix_value_app:
  "radix_value r acc (s @ t) = (case radix_value r acc s of None \<Rightarrow> None | Some a \<Rightarrow> radix_value r a t)"
  by (induction s arbitrary: acc) (auto split: option.split)

lemma radix_value_hex: "radix_value 16 0 (hex_num n) = Some n"
proof (induction n rule: hex_num.induct)
  case (1 n)
  then show ?case
    by (cases "n < 16") (simp_all add: hex_num.simps[of n] radix_value_app div_mult_mod_eq)
qed

lemma hex_num_ok: "hex_num n \<noteq> []" "\<forall>c \<in> set (hex_num n). is_ascii_hexdigit c"
proof -
  show "hex_num n \<noteq> []" by (simp add: hex_num.simps[of n])
  show "\<forall>c \<in> set (hex_num n). is_ascii_hexdigit c"
  proof (induction n rule: hex_num.induct)
    case (1 n)
    then show ?case by (cases "n < 16") (auto simp: hex_num.simps[of n] intro!: hex_digit_ok)
  qed
qed

lemma from_hex_num [simp]: "from_str_radix 16 (hex_num (unat v)) = Some v"
proof -
  have "take 1 (hex_num (unat v)) \<noteq> [0x2B]"
    using hex_num_ok[of "unat v"]
    by (cases "hex_num (unat v)") (auto simp: is_ascii_hexdigit_def is_ascii_digit_def)
  then show ?thesis using hex_num_ok(1) radix_value_hex u64_bound[of v] by (simp add: from_str_radix_def Let_def)
qed

lemma strip_ser [simp]: "strip_0x (ser_u64_hex v) = hex_num (unat v)"
  by (simp add: strip_0x_def ser_u64_hex_def)

text \<open>
  C31. Numbers survive the wire: what the serialisers print is read back as the same number by
  every parser of the interface: the cursor a page ends with is the cursor the next request starts
  from, and block numbers pass both ways; a prefix in upper case is read as well.
\<close>

theorem wire_numbers_roundtrip:
  "parse_cursor (Some (ser_u64_hex v)) = Inr (Some v) \<and>
   de_u64_hex (Hex (ser_u64_hex v)) = Some v \<and>
   de_u64_flexible (map_option Hex (ser_opt_u64_hex w)) = Some w \<and>
   de_u64_hex (Hex ([0x30, 0x58] @ hex_num (unat v))) = Some v"
proof -
  have "parse_cursor (Some (ser_u64_hex v)) = Inr (Some v)"
    by (simp add: parse_cursor_def ser_u64_hex_def)
  moreover have "de_u64_hex (Hex ([0x30, 0x58] @ hex_num (unat v))) = Some v"
    by (simp add: de_u64_hex_def strip_0x_def)
  moreover have "de_u64_flexible (map_option Hex (ser_opt_u64_hex w)) = Some w"
    by (cases w) (simp_all add: de_u64_flexible_def ser_opt_u64_hex_def)
  ultimately show ?thesis by (simp add: de_u64_hex_def)
qed

subsection \<open>Strings from bytes\<close>

text \<open>
  \<open>String::from_utf8_lossy\<close>: well-formed sequences become their characters, every maximal
  ill-formed run becomes one replacement character U+FFFD.
\<close>

definition second_ok :: "byte \<Rightarrow> byte \<Rightarrow> bool" where
  "second_ok a b \<longleftrightarrow>
     (a = 0xE0 \<and> 0xA0 \<le> b \<and> b \<le> 0xBF) \<or> (0xE1 \<le> a \<and> a \<le> 0xEC \<and> is_cont b) \<or>
     (a = 0xED \<and> 0x80 \<le> b \<and> b \<le> 0x9F) \<or> (0xEE \<le> a \<and> a \<le> 0xEF \<and> is_cont b) \<or>
     (a = 0xF0 \<and> 0x90 \<le> b \<and> b \<le> 0xBF) \<or> (0xF1 \<le> a \<and> a \<le> 0xF3 \<and> is_cont b) \<or>
     (a = 0xF4 \<and> 0x80 \<le> b \<and> b \<le> 0x8F)"

fun bad_run :: "bytes \<Rightarrow> nat" where
  "bad_run (a # b # c # _) =
     (if \<not> second_ok a b then 1 else if 0xF0 \<le> a \<and> is_cont c then 3 else 2)"
| "bad_run [a, b] = (if second_ok a b then 2 else 1)"
| "bad_run bs = 1"

fun seq_char :: "bytes \<Rightarrow> uchar" where
  "seq_char [a, b] = unat a mod 32 * 64 + unat b mod 64"
| "seq_char [a, b, c] = unat a mod 16 * 4096 + unat b mod 64 * 64 + unat c mod 64"
| "seq_char [a, b, c, d] = unat a mod 8 * 262144 + unat b mod 64 * 4096 + unat c mod 64 * 64 + unat d mod 64"
| "seq_char bs = unat (hd bs)"

lemma bad_run_pos [simp]: "0 < bad_run bs"
  by (cases bs rule: bad_run.cases) simp_all

function from_utf8_lossy :: "bytes \<Rightarrow> ustring" where
  "from_utf8_lossy bs =
     (if bs = [] then []
      else if utf8_seq bs = 0 then 0xFFFD # from_utf8_lossy (drop (bad_run bs) bs)
      else seq_char (take (utf8_seq bs) bs) # from_utf8_lossy (drop (utf8_seq bs) bs))"
  by pat_completeness auto

termination
  by (relation "measure length") (auto simp: neq_Nil_conv)

declare from_utf8_lossy.simps [simp del]

lemma seq_char_utf8:
  assumes "is_scalar c"
  shows "seq_char (utf8_char c) = c"
proof -
  have u: "unat (of_nat n :: byte) = n" if "n < 256" for n
    using that by (simp add: unat_of_nat)
  have c: "c < 0x110000" using assms by (auto simp: is_scalar_def)
  have m: "(192 + x) mod 32 = x mod 32" "(224 + x) mod 16 = x mod 16" "(240 + x) mod 8 = x mod 8"
    "(128 + x) mod 64 = x mod 64" for x :: nat
    using mod_mult_self2[of x 32 6] mod_mult_self2[of x 16 14] mod_mult_self2[of x 8 30] mod_mult_self2[of x 64 2]
    by (simp_all add: add.commute)
  have t: "128 + x mod 64 < 256" for x :: nat using mod_less_divisor[of 64 x] by linarith
  have d: "c = c div 4096 * 4096 + c div 64 mod 64 * 64 + c mod 64" by (rule digits64[of c]) simp
  consider "c < 0x80" | "0x80 \<le> c" "c < 0x800" | "0x800 \<le> c" "c < 0x10000" | "0x10000 \<le> c" by linarith
  then show ?thesis
  proof cases
    case 1
    then show ?thesis by (simp add: utf8_char_def u)
  next
    case 2
    then have "192 + c div 64 < 256" "c div 64 < 32" by simp_all
    then show ?thesis using 2 by (simp add: utf8_char_def u m del: of_nat_add)
  next
    case 3
    then have "224 + c div 4096 < 256" "c div 4096 < 16" by simp_all
    then show ?thesis using 3 d by (simp add: utf8_char_def u m del: of_nat_add)
  next
    case 4
    then have "240 + c div 262144 < 256" "c div 262144 < 8" using c by simp_all
    moreover have "c div 4096 = c div 262144 * 64 + c div 4096 mod 64"
      using div_mult_mod_eq[of "c div 4096" 64] by (simp add: div_mult2_eq[symmetric])
    moreover have "seq_char (utf8_char c) = c div 262144 * 262144 + c div 4096 mod 64 * 4096 + c div 64 mod 64 * 64 + c mod 64"
      using 4 calculation(1,2) by (simp add: utf8_char_def u m t del: of_nat_add)
    ultimately show ?thesis using d by linarith
  qed
qed

lemma lossy_utf8: "list_all is_scalar s \<Longrightarrow> from_utf8_lossy (utf8 s) = s"
proof (induction s)
  case (Cons c s)
  then have "utf8_seq (utf8_char c @ utf8 s) = length (utf8_char c)" by (intro utf8_seq_char) simp
  moreover have "len_utf8 c \<noteq> 0" by (simp add: len_utf8_def)
  ultimately show ?case
    using Cons by (simp add: from_utf8_lossy.simps[of "utf8_char c @ utf8 s"] seq_char_utf8)
qed (simp add: from_utf8_lossy.simps)

end
