(* ===== verification/IndexNarrow.thy ===== *)
theory IndexNarrow
  imports IndexStore
begin

text \<open>
  Trees over a narrow universe of values. \<open>Node48\<close> and \<open>Node256\<close> nodes do not survive being
  stored in every case, so the operations of the database, which load and store a tree every
  time, are correct as long as only small nodes occur. That is the case when no position of the
  values has more than 16 different bytes. The lemmas of this theory are the contract the
  database uses: insertion, removal, storing and scanning of the tree that represents a set.
\<close>

subsection \<open>Live, lean and slim nodes\<close>

definition kids :: "node \<Rightarrow> byte set" where
  "kids nd = {b. kid nd b \<noteq> Empty}"

fun big :: "node \<Rightarrow> bool" where
  "big (N48 p h n ix cs) = True"
| "big (N256 p h n cs) = True"
| "big nd = False"

text \<open>
  \<open>lean\<close>: every inner node leads to a key, and a big one has more than 16 children. \<open>slim\<close>: there
  is no big node at all.
\<close>

fun lean :: "node \<Rightarrow> bool" where
  "lean (N4 p h n ks cs) = ((h \<or> kids (N4 p h n ks cs) \<noteq> {}) \<and> (\<forall>c \<in> set cs. lean c))"
| "lean (N16 p h n ks cs) = ((h \<or> kids (N16 p h n ks cs) \<noteq> {}) \<and> (\<forall>c \<in> set cs. lean c))"
| "lean (N48 p h n ix cs) = (16 < card (kids (N48 p h n ix cs)) \<and> (\<forall>c \<in> set cs. lean c))"
| "lean (N256 p h n cs) = (16 < card (kids (N256 p h n cs)) \<and> (\<forall>c \<in> set cs. lean c))"
| "lean nd = True"

fun slim :: "node \<Rightarrow> bool" where
  "slim (N4 p h n ks cs) = ((h \<or> kids (N4 p h n ks cs) \<noteq> {}) \<and> (\<forall>c \<in> set cs. slim c))"
| "slim (N16 p h n ks cs) = ((h \<or> kids (N16 p h n ks cs) \<noteq> {}) \<and> (\<forall>c \<in> set cs. slim c))"
| "slim (N48 p h n ix cs) = False"
| "slim (N256 p h n cs) = False"
| "slim nd = True"

lemma slim_lean: "slim nd \<Longrightarrow> lean nd"
  by (induction nd) auto

lemma all_children:
  assumes "is_inner nd" "shape_ok nd" "P Empty"
  shows "(\<forall>c \<in> set (node_children nd). P c) \<longleftrightarrow> (\<forall>b. P (kid nd b))"
proof -
  have "(\<forall>c \<in> set (node_children nd). P c) \<longleftrightarrow> (\<forall>c \<in> insert Empty (set (node_children nd)). P c)"
    using assms(3) by simp
  also have "\<dots> \<longleftrightarrow> (\<forall>c \<in> insert Empty (range (kid nd)). P c)"
    using children_kids[OF assms(2,1)] by simp
  finally show ?thesis using assms(3) by simp
qed

lemma lean_inner:
  assumes "is_inner nd" "shape_ok nd"
  shows "lean nd \<longleftrightarrow> (node_has_end nd \<or> kids nd \<noteq> {}) \<and> (big nd \<longrightarrow> 16 < card (kids nd)) \<and>
    (\<forall>b. lean (kid nd b))"
proof -
  have "lean nd \<longleftrightarrow> (node_has_end nd \<or> kids nd \<noteq> {}) \<and> (big nd \<longrightarrow> 16 < card (kids nd)) \<and>
    (\<forall>c \<in> set (node_children nd). lean c)"
    using assms(1) by (cases nd) auto
  then show ?thesis using all_children[OF assms, of lean] by simp
qed

lemma slim_inner:
  assumes "is_inner nd" "shape_ok nd"
  shows "slim nd \<longleftrightarrow> (node_has_end nd \<or> kids nd \<noteq> {}) \<and> \<not> big nd \<and> (\<forall>b. slim (kid nd b))"
proof -
  have "slim nd \<longleftrightarrow> (node_has_end nd \<or> kids nd \<noteq> {}) \<and> \<not> big nd \<and>
    (\<forall>c \<in> set (node_children nd). slim c)"
    using assms(1) by (cases nd) auto
  then show ?thesis using all_children[OF assms, of slim] by simp
qed

subsection \<open>Insertion keeps a tree lean, removal keeps it slim\<close>

lemma big_simps [simp]:
  "big (node_set_prefix nd q) = big nd" "big (node_set_has_end nd e) = big nd"
  "big (node_put_child nd b c) = big nd" "\<not> big (n4_empty q e)"
  by (cases nd; simp add: node_put_child_def n4_empty_def split: option.split)+

lemma big_add: "node_add_child nd b c = Some nd' \<Longrightarrow> big nd' = big nd"
  by (cases nd) (auto split: prod.splits)

lemma small_kids: "small_ok cap n ks cs \<Longrightarrow> card {b. skid n ks cs b \<noteq> Empty} = n"
proof -
  assume ok: "small_ok cap n ks cs"
  then have "{b. skid n ks cs b \<noteq> Empty} = (\<lambda>i. ks ! i) ` {..<n}"
    by (auto simp: skid_Empty_iff)
  moreover have "inj_on (\<lambda>i. ks ! i) {..<n}"
    using small_distinct[OF ok] by (auto simp: inj_on_def)
  ultimately show ?thesis by (simp add: card_image)
qed

lemma grow_big:
  "node_maybe_grow nd = Some g \<Longrightarrow> big g \<Longrightarrow> \<not> big nd \<Longrightarrow> shape_ok nd \<Longrightarrow> 16 \<le> card (kids nd)"
  by (cases nd) (auto simp: kids_def small_kids n4_to_n16_def split: if_splits)

lemma finite_bytes [simp]: "finite (B :: byte set)"
  by (rule finite_subset[OF subset_UNIV]) simp

text \<open>A node with the view of another whose child at \<open>b\<close> is set.\<close>

lemma lean_put:
  assumes nd: "is_inner nd" "wf_node nd" "lean nd" and B: "becomes nd ((kid nd)(b := c)) nd'"
    and c: "lean c" "c \<noteq> Empty" and big: "big nd' \<Longrightarrow> big nd \<or> 16 \<le> card (kids nd) \<and> b \<notin> kids nd"
  shows "lean nd'"
proof -
  have b: "is_inner nd'" "shape_ok nd'" "node_has_end nd' = node_has_end nd"
    "kid nd' = (kid nd)(b := c)" using B by (auto simp: becomes_def)
  have L: "node_has_end nd \<or> kids nd \<noteq> {}" "big nd \<longrightarrow> 16 < card (kids nd)" "\<And>b. lean (kid nd b)"
    using nd lean_inner[OF nd(1)] by (auto simp: wf_inner)
  have k: "kids nd' = insert b (kids nd)" using b(4) c(2) by (auto simp: kids_def)
  have "card (kids nd) \<le> card (kids nd')" by (rule card_mono) (auto simp: k)
  then have "16 < card (kids nd')" if "big nd'"
    using big[OF that] L(2) by (auto simp: k card_insert_if)
  then show ?thesis using L b c k by (simp add: lean_inner)
qed

lemma lean_leaf_kids:
  assumes "is_inner nd" "shape_ok nd" "\<not> big nd" "node_has_end nd \<or> kids nd \<noteq> {}"
    and "\<And>b. lean (kid nd b)"
  shows "lean nd"
  using assms by (simp add: lean_inner)

lemma n4_with_lean:
  assumes "n4_with m q f n4" "f b \<noteq> Empty" "\<And>b. lean (f b)"
  shows "lean n4" "lean (node_set_has_end n4 e)"
proof -
  note N = n4_withD[OF assms(1)]
  note E = set_has_end_ok[OF N(1,2), where e = e]
  have "\<not> big n4" using assms(1) by (auto simp: n4_with_def)
  moreover have "b \<in> kids n4" using assms(2) by (simp add: kids_def N)
  moreover have "kids (node_set_has_end n4 e) = kids n4"
    by (simp add: kids_def E(5))
  ultimately show "lean n4" "lean (node_set_has_end n4 e)"
    using assms(3) unfolding lean_inner[OF N(1,2)] lean_inner[OF E(1,2)] by (auto simp: N(5) E(5))
qed

lemma lean_set:
  assumes "is_inner nd" "wf_node nd" "lean nd"
  shows "lean (node_set_prefix nd q)" "lean (node_set_has_end nd True)"
proof -
  have sh: "shape_ok nd" using assms by (simp add: wf_inner)
  note P = set_prefix_ok[OF assms(1) sh, where q = q]
    and E = set_has_end_ok[OF assms(1) sh, where e = True]
  have "kids (node_set_prefix nd q) = kids nd" "kids (node_set_has_end nd True) = kids nd"
    by (simp_all add: kids_def P E)
  then show "lean (node_set_prefix nd q)" "lean (node_set_has_end nd True)"
    using assms(3) lean_inner[OF assms(1) sh] by (simp_all add: lean_inner P E)
qed

lemma insert_leaf_lean:
  assumes "insert_node (Leaf s) key = Some (nd', r)"
  shows "lean nd'"
proof (cases "s = key")
  case True
  then show ?thesis using assms by (auto simp: insert_node.simps)
next
  case False
  show ?thesis
  proof (cases "common_prefix s key < length s")
    case True
    then show ?thesis
    proof (cases rule: common_prefix_split[OF refl True, case_names pre split])
      case (pre q x xs)
      obtain n4 where n4: "node_add_child (n4_empty q False) x (Leaf xs) = Some n4"
        "n4_with 1 q ((\<lambda>_. Empty)(x := Leaf xs)) n4"
        using n4_with_add[OF n4_with_empty, where q = q and b = x and c = "Leaf xs"] by auto
      have "nd' = node_set_has_end n4 True"
        using assms n4 n4_withD(4)[OF n4(2)] by (simp add: pre insert_leaf_simps)
      then show ?thesis using n4_with_lean(2)[OF n4(2), of x] by simp
    next
      case (split q x xs y ys)
      obtain n4 where n4: "node_add_child (n4_empty q False) x (Leaf xs) = Some n4"
        "n4_with 1 q ((\<lambda>_. Empty)(x := Leaf xs)) n4"
        using n4_with_add[OF n4_with_empty, where q = q and b = x and c = "Leaf xs"] by auto
      obtain n4' where n4': "node_add_child n4 y (Leaf ys) = Some n4'"
        "n4_with 2 q ((\<lambda>_. Empty)(x := Leaf xs, y := Leaf ys)) n4'"
        using n4_with_add[OF n4(2), where b = y and c = "Leaf ys"] split(4)
        by (auto simp: numeral_2_eq_2)
      have "nd' = n4'" using assms split(4) n4 n4' by (simp add: split(1,3) insert_leaf_simps)
      then show ?thesis using n4_with_lean(1)[OF n4'(2), of y] by simp
    qed
  next
    case F: False
    then obtain q where "key = s @ q" unfolding common_prefix_full by blast
    with \<open>s \<noteq> key\<close> obtain y ys where key: "key = s @ y # ys" by (cases q) auto
    note N = n4_empty_ok[where q = s and e = True]
    obtain n4 where n4: "node_add_child (n4_empty s True) y (Leaf ys) = Some n4"
      "becomes (n4_empty s True) ((\<lambda>_. Empty)(y := Leaf ys)) n4"
      using add_child_ok[OF N(2,1,6), where b = y and c = "Leaf ys", unfolded N(5)] by blast
    have "nd' = n4" using assms n4 by (simp add: key insert_leaf_simps)
    moreover have "\<not> big n4" using big_add[OF n4(1)] by simp
    moreover have B: "is_inner n4" "shape_ok n4" "node_has_end n4"
      "kid n4 = (\<lambda>_. Empty)(y := Leaf ys)" using n4(2) N(4) by (simp_all add: becomes_def)
    ultimately show ?thesis
      using lean_leaf_kids[OF B(1,2)] B(3,4) by simp
  qed
qed

lemma insert_split_lean:
  assumes nd: "is_inner nd" "wf_node nd" "lean nd"
    and m: "common_prefix (node_prefix nd) key < length (node_prefix nd)"
    and r: "insert_node nd key = Some (nd', r)"
  shows "lean nd'"
proof -
  have sh: "shape_ok nd" using nd by (simp add: wf_inner)
  note L = lean_set(1)[OF nd]
  have I: "node_set_prefix nd xs \<noteq> Empty" for xs
    using set_prefix_ok(1)[OF nd(1) sh, where q = xs] by (rule inner_not_Empty)
  show ?thesis
  proof (cases rule: common_prefix_split[OF refl m, case_names pre split])
    case (pre q x xs)
    obtain n4 where n4: "node_add_child (n4_empty q False) x (node_set_prefix nd xs) = Some n4"
      "n4_with 1 q ((\<lambda>_. Empty)(x := node_set_prefix nd xs)) n4"
      using n4_with_add[OF n4_with_empty, where q = q and b = x and c = "node_set_prefix nd xs"] I
      by auto
    have "nd' = node_set_has_end n4 True"
      using r n4 by (simp add: pre(3) insert_inner_split_simps[OF nd(1) pre(1)])
    then show ?thesis using n4_with_lean(2)[OF n4(2), of x] I L by simp
  next
    case (split q x xs y ys)
    obtain n4 where n4: "node_add_child (n4_empty q False) x (node_set_prefix nd xs) = Some n4"
      "n4_with 1 q ((\<lambda>_. Empty)(x := node_set_prefix nd xs)) n4"
      using n4_with_add[OF n4_with_empty, where q = q and b = x and c = "node_set_prefix nd xs"] I
      by auto
    obtain n4' where n4': "node_add_child n4 y (Leaf ys) = Some n4'"
      "n4_with 2 q ((\<lambda>_. Empty)(x := node_set_prefix nd xs, y := Leaf ys)) n4'"
      using n4_with_add[OF n4(2), where b = y and c = "Leaf ys"] split(4)
      by (auto simp: numeral_2_eq_2)
    have "nd' = n4'"
      using r n4 n4' split(4) by (simp add: split(3) insert_inner_split_simps[OF nd(1) split(1)])
    then show ?thesis using n4_with_lean(1)[OF n4'(2), of y] L by simp
  qed
qed

theorem insert_node_lean:
  assumes "wf_node nd" "tame lo hi nd" "lo \<le> 49" "48 \<le> hi" "hi < 65535" "0xFF \<notin> set key"
    "lean nd" "insert_node nd key = Some (nd', r)"
  shows "lean nd'"
  using assms
proof (induction key arbitrary: nd nd' r rule: length_induct)
  case (1 key)
  note prems = "1.prems"
  consider "nd = Empty" | s where "nd = Leaf s" | "is_inner nd" by (cases nd) auto
  then show ?case
  proof cases
    case 1
    then show ?thesis using prems(8) by (auto simp: insert_node.simps)
  next
    case 2
    then show ?thesis using prems(8) insert_leaf_lean by simp
  next
    case inner: 3
    have sh: "shape_ok nd" using inner prems(1) by (simp add: wf_inner)
    note T = tame_innerD[OF prems(2,1) inner]
    have Lk: "lean (kid nd b)" for b using prems(7) by (simp add: lean_inner[OF inner sh])
    consider "common_prefix (node_prefix nd) key < length (node_prefix nd)" | "key = node_prefix nd"
      | b rest where "key = node_prefix nd @ b # rest"
      unfolding common_prefix_full[symmetric] by (metis append_Nil2 common_prefix_full neq_Nil_conv)
    then show ?thesis
    proof cases
      case 1
      then show ?thesis using insert_split_lean[OF inner prems(1,7)] prems(8) by blast
    next
      case 2
      then show ?thesis
        using prems(7,8) lean_set(2)[OF inner prems(1,7)]
        by (auto simp: insert_inner_simps(1)[OF inner] split: if_splits)
    next
      case (3 b rest)
      have br: "0xFF \<notin> set rest" "length rest < length key" using 3 prems by auto
      show ?thesis
      proof (cases "node_has_child nd b")
        case True
        note K = has_child_kid[OF sh inner]
        have w: "wf_node (kid nd b)" using wf_innerD(2)[OF prems(1) inner] .
        obtain c r' where c: "insert_node (kid nd b) rest = Some (c, r')" "c \<noteq> Empty"
          using insert_node_ok[OF w T(4) prems(3,4,5) br(1)] by (auto simp: ins_ok_def)
        have "lean c" using "1.IH" br w T(4) prems(3,4,5) Lk c(1) by blast
        moreover have "nd' = node_put_child nd b c"
          using prems(8) c(1) K(2)[OF True] True by (simp add: 3 insert_inner_simps(2)[OF inner])
        ultimately show ?thesis
          using lean_put[OF inner prems(1,7) put_child_ok(1)[OF sh inner True c(2)]] c(2) by simp
      next
        case False
        then have kb: "kid nd b = Empty" using has_child_kid(1)[OF sh inner] by blast
        obtain g where g: "node_maybe_grow nd = Some g" "becomes nd (kid nd) g" "room g"
          by (rule grow_ok[OF sh inner T(1) prems(3,4,5) T(3)])
        have G: "shape_ok g" "is_inner g" "kid g b = Empty" using g(2) kb by (auto simp: becomes_def)
        obtain x where x: "node_add_child g b (Leaf rest) = Some x"
          "becomes g ((kid g)(b := Leaf rest)) x"
          using add_child_ok[OF G(1,2) g(3) G(3), of "Leaf rest"] node.distinct(1) by metis
        have U: "becomes nd ((kid nd)(b := Leaf rest)) x" using g(2) x(2) by (simp add: becomes_def)
        have "big x \<Longrightarrow> big nd \<or> 16 \<le> card (kids nd) \<and> b \<notin> kids nd"
          using grow_big[OF g(1) _ _ sh] big_add[OF x(1)] kb by (auto simp: kids_def)
        moreover have "nd' = x"
          using prems(8) False g(1) x(1) by (simp add: 3 insert_inner_simps(2)[OF inner])
        ultimately show ?thesis using lean_put[OF inner prems(1,7) U] by simp
      qed
    qed
  qed
qed

subsection \<open>Narrow sets of values\<close>

definition narrow :: "bytes set \<Rightarrow> bool" where
  "narrow K \<longleftrightarrow> (\<forall>p. card {b. \<exists>r. p @ b # r \<in> K} \<le> 16)"

lemma narrow_small: "finite K \<Longrightarrow> card K \<le> 16 \<Longrightarrow> narrow K"
proof (unfold narrow_def, intro allI)
  fix p
  assume K: "finite K" "card K \<le> 16"
  have "{b. \<exists>r. p @ b # r \<in> K} \<subseteq> (\<lambda>k. k ! length p) ` K"
    by (force intro: rev_image_eqI)
  then have "card {b. \<exists>r. p @ b # r \<in> K} \<le> card K"
    by (rule order_trans[OF card_mono[OF finite_imageI[OF K(1)]] card_image_le[OF K(1)]])
  with K show "card {b. \<exists>r. p @ b # r \<in> K} \<le> 16" by simp
qed

lemma narrow_mono: "narrow K \<Longrightarrow> L \<subseteq> K \<Longrightarrow> narrow L"
proof (unfold narrow_def, intro allI)
  fix p
  assume "\<forall>p. card {b. \<exists>r. p @ b # r \<in> K} \<le> 16" "L \<subseteq> K"
  moreover have "card {b. \<exists>r. p @ b # r \<in> L} \<le> card {b. \<exists>r. p @ b # r \<in> K}"
    by (rule card_mono) (use \<open>L \<subseteq> K\<close> in auto)
  ultimately show "card {b. \<exists>r. p @ b # r \<in> L} \<le> 16" by (meson order_trans)
qed

lemma narrow_drop: "narrow K \<Longrightarrow> narrow {r. p @ r \<in> K}"
proof (unfold narrow_def, intro allI)
  fix q
  assume *: "\<forall>p. card {b. \<exists>r. p @ b # r \<in> K} \<le> 16"
  show "card {b. \<exists>r. q @ b # r \<in> {r. p @ r \<in> K}} \<le> 16"
    using *[rule_format, of "p @ q"] by simp
qed

text \<open>Every live node holds a key; a lean tree whose keys are narrow is slim.\<close>

lemma lean_key:
  assumes "wf_node nd" "lean nd" "nd \<noteq> Empty"
  shows "\<exists>k. isin nd k"
  using assms
proof (induction nd rule: measure_induct_rule[of size])
  case (less nd)
  show ?case
  proof (cases "is_inner nd")
    case False
    then show ?thesis using less.prems by (cases nd) auto
  next
    case True
    have sh: "shape_ok nd" using less.prems True by (simp add: wf_inner)
    have "node_has_end nd \<or> kids nd \<noteq> {}" using less.prems(2) by (simp add: lean_inner[OF True sh])
    then consider "node_has_end nd" | b where "kid nd b \<noteq> Empty" by (auto simp: kids_def)
    then show ?thesis
    proof cases
      case 1
      then show ?thesis using isin_inner[OF True] by blast
    next
      case 2
      then have "\<exists>k. isin (kid nd b) k"
        using less.IH size_kid[OF True sh 2] wf_innerD(2)[OF less.prems(1) True]
          less.prems(2)[unfolded lean_inner[OF True sh]] by blast
      then show ?thesis using isin_inner[OF True] by blast
    qed
  qed
qed

lemma kid_key:
  assumes "is_inner nd" "wf_node nd" "lean nd" "kid nd b \<noteq> Empty"
  obtains r where "isin (kid nd b) r" "isin nd (node_prefix nd @ b # r)"
proof -
  have sh: "shape_ok nd" using assms by (simp add: wf_inner)
  obtain r where "isin (kid nd b) r"
    using lean_key assms wf_innerD(2)[OF assms(2,1)] assms(3)[unfolded lean_inner[OF assms(1) sh]]
    by blast
  with that show thesis using isin_inner[OF assms(1)] by blast
qed

lemma lean_narrow:
  assumes "wf_node nd" "lean nd" "narrow {k. isin nd k}"
  shows "slim nd"
  using assms
proof (induction nd rule: measure_induct_rule[of size])
  case (less nd)
  show ?case
  proof (cases "is_inner nd")
    case False
    then show ?thesis by (cases nd) auto
  next
    case True
    have sh: "shape_ok nd" using less.prems True by (simp add: wf_inner)
    have L: "node_has_end nd \<or> kids nd \<noteq> {}" "big nd \<longrightarrow> 16 < card (kids nd)" "\<And>b. lean (kid nd b)"
      using less.prems(2) lean_inner[OF True sh] by auto
    have "kids nd \<subseteq> {b. \<exists>r. node_prefix nd @ b # r \<in> {k. isin nd k}}"
      using kid_key[OF True less.prems(1,2)] by (fastforce simp: kids_def)
    then have "card (kids nd) \<le> 16"
      using card_mono[OF finite_bytes] less.prems(3)[unfolded narrow_def, rule_format] order_trans
      by blast
    moreover have "slim (kid nd b)" for b
    proof (cases "kid nd b = Empty")
      case False
      have "{k. isin (kid nd b) k} \<subseteq> {r. (node_prefix nd @ [b]) @ r \<in> {k. isin nd k}}"
        by (auto simp: isin_inner[OF True])
      then have "narrow {k. isin (kid nd b) k}"
        using narrow_mono[OF narrow_drop[OF less.prems(3)]] by blast
      then show ?thesis
        using less.IH size_kid[OF True sh False] wf_innerD(2)[OF less.prems(1) True] L(3) by blast
    qed simp
    ultimately show ?thesis using L by (auto simp: slim_inner[OF True sh])
  qed
qed

subsection \<open>Removal keeps a tree slim\<close>

lemma n_children_kids:
  "is_inner nd \<Longrightarrow> shape_ok nd \<Longrightarrow> \<not> big nd \<Longrightarrow> node_n_children nd = card (kids nd)"
  by (cases nd) (auto simp: kids_def small_kids)

lemma slim_not_big: "slim nd \<Longrightarrow> \<not> big nd"
  by (cases nd) auto

lemma prepend_slim:
  assumes "wf_node c" "slim c"
  shows "slim (prepend_into p b c)"
proof -
  consider "c = Empty" | s where "c = Leaf s" | "is_inner c" by (cases c) auto
  then show ?thesis
  proof cases
    case 3
    then have e: "prepend_into p b c = node_set_prefix c (p @ b # node_prefix c)" by (cases c) auto
    have sh: "shape_ok c" using 3 assms by (simp add: wf_inner)
    note P = set_prefix_ok[OF 3 sh, where q = "p @ b # node_prefix c"]
    have "kids (prepend_into p b c) = kids c" by (simp add: kids_def e P)
    then show ?thesis
      using assms(2) unfolding e slim_inner[OF P(1,2)] slim_inner[OF 3 sh] by (simp add: P kids_def)
  qed (use assms in auto)
qed

lemma shrink_not_big:
  assumes "node_maybe_shrink nd = Some nd'" "is_inner nd" "shape_ok nd" "\<not> big nd"
    and c: "\<forall>c \<in> set (node_children nd). slim c \<and> wf_node c"
  shows "\<not> big nd'"
proof (cases nd)
  case (N4 p h n ks cs)
  then have "cs ! 0 \<in> set cs" using assms(3) by (simp add: small_ok_def)
  then have "\<not> big (prepend_into p (ks ! 0) (cs ! 0))"
    using c N4 prepend_slim slim_not_big by simp
  with N4 assms(1) show ?thesis by (auto simp: node_maybe_shrink.simps split: if_splits)
next
  case (N16 p h n ks cs)
  with assms(1) show ?thesis by (auto simp: node_maybe_shrink.simps n16_to_n4_def split: if_splits)
qed (use assms in auto)

text \<open>Shrinking a node that has slim children and is not big itself.\<close>

lemma shrink_slim:
  assumes nd: "is_inner nd" "wf_node nd" "count_here 49 hi nd" "\<not> big nd" "\<And>b. slim (kid nd b)"
    and r: "node_maybe_shrink nd = Some nd'"
  shows "slim nd'"
proof -
  have sh: "shape_ok nd" using nd by (simp add: wf_inner)
  have w: "wf_node (kid nd b)" for b using wf_innerD(2)[OF nd(2,1)] .
  have "\<forall>c \<in> set (node_children nd). slim c \<and> wf_node c"
    using all_children[OF nd(1) sh, of "\<lambda>c. slim c \<and> wf_node c"] nd(5) w by simp
  then have nb: "\<not> big nd'" using shrink_not_big[OF r nd(1) sh nd(4)] by blast
  show ?thesis
  proof (cases rule: shrink_ok[OF sh nd(1,3), case_names gone merged kept])
    case gone
    with r show ?thesis by simp
  next
    case (merged b c)
    then have "c = kid nd b" by simp
    with merged(1) r show ?thesis using prepend_slim w nd(5) by simp
  next
    case (kept x)
    then have B: "is_inner nd'" "shape_ok nd'" "node_has_end nd' = node_has_end nd"
      "kid nd' = kid nd" using r by (auto simp: becomes_def)
    have "node_has_end nd \<or> node_n_children nd \<noteq> 0"
      using r B(1) by (auto simp: node_maybe_shrink.simps[of nd] split: if_splits)
    then have "node_has_end nd \<or> kids nd \<noteq> {}" using n_children_kids[OF nd(1) sh nd(4)] by auto
    then show ?thesis using nb nd(5) B(3) unfolding slim_inner[OF B(1,2)] kids_def B(4) by blast
  qed
qed

lemma big_del: "big (node_del_child nd b) = big nd"
  by (cases nd) (auto split: prod.splits)

lemma slim_put:
  assumes nd: "is_inner nd" "wf_node nd" "slim nd" and B: "becomes nd ((kid nd)(b := c)) nd'"
    and c: "slim c" "c \<noteq> Empty" and big: "big nd' = big nd"
  shows "slim nd'"
proof -
  have sh: "shape_ok nd" using nd by (simp add: wf_inner)
  have b: "is_inner nd'" "shape_ok nd'" "node_has_end nd' = node_has_end nd"
    "kid nd' = (kid nd)(b := c)" using B by (auto simp: becomes_def)
  have "b \<in> kids nd'" using b(4) c(2) by (simp add: kids_def)
  then show ?thesis
    using nd(3) c(1) big unfolding slim_inner[OF b(1,2)] slim_inner[OF nd(1) sh] b(4) by auto
qed

theorem remove_node_slim:
  assumes "wf_node nd" "tame 49 hi nd" "slim nd" "remove_node nd key = Some (nd', r)"
  shows "slim nd'"
  using assms
proof (induction key arbitrary: nd nd' r rule: length_induct)
  case (1 key)
  note prems = "1.prems"
  consider "\<not> is_inner nd" | "is_inner nd" by blast
  then show ?case
  proof cases
    case 1
    then show ?thesis using prems(3,4) by (cases nd) (auto simp: remove_node.simps split: if_splits)
  next
    case inner: 2
    have sh: "shape_ok nd" using inner prems(1) by (simp add: wf_inner)
    note T = tame_innerD[OF prems(2,1) inner]
    have S: "\<not> big nd" "\<And>b. slim (kid nd b)" using prems(3) by (auto simp: slim_inner[OF inner sh])
    consider "common_prefix (node_prefix nd) key < length (node_prefix nd)" | "key = node_prefix nd"
      | b rest where "key = node_prefix nd @ b # rest"
      unfolding common_prefix_full[symmetric] by (metis append_Nil2 common_prefix_full neq_Nil_conv)
    then show ?thesis
    proof cases
      case 1
      then show ?thesis using prems(3,4) by (simp add: remove_inner_simps(3)[OF inner])
    next
      case 2
      note E = set_has_end_ok[OF inner sh, where e = False]
      have w: "wf_node (node_set_has_end nd False)"
        using wf_innerD(2)[OF prems(1) inner] E by (simp add: wf_inner)
      show ?thesis
        using 2 prems(3,4) S shrink_slim[OF E(1) w, of hi nd'] T(1)
        by (auto simp: remove_inner_simps(1)[OF inner] E split: if_splits)
    next
      case (3 b rest)
      show ?thesis
      proof (cases "node_has_child nd b")
        case False
        then show ?thesis using prems(3,4) by (simp add: 3 remove_inner_simps(2)[OF inner])
      next
        case True
        note K = has_child_kid[OF sh inner]
        have w: "wf_node (kid nd b)" using wf_innerD(2)[OF prems(1) inner] .
        obtain c where c: "remove_node (kid nd b) rest = Some (c, isin (kid nd b) rest)"
          "\<not> isin (kid nd b) rest \<Longrightarrow> c = kid nd b"
          using remove_node_ok[OF w T(4)] by (auto simp: rem_ok_def)
        have "length rest < length key" using 3 by simp
        then have sc: "slim c" by (rule "1.IH"[rule_format, OF _ w T(4) S(2) c(1)])
        have step: "remove_node nd key =
            (if isin (kid nd b) rest \<and> c = Empty then map_option (\<lambda>x. (x, True))
                   (node_maybe_shrink (node_del_child (node_put_child nd b Empty) b))
             else Some (node_put_child nd b c, isin (kid nd b) rest))"
          using c(1) K(2)[OF True] True child_is_empty_put[OF sh inner True]
          by (simp add: 3 remove_inner_simps(2)[OF inner])
        show ?thesis
        proof (cases "c = Empty")
          case True': True
          then have "isin (kid nd b) rest" using c(2) True K(1) by metis
          with True' step prems(4) have "map_option (\<lambda>x. (x, True))
              (node_maybe_shrink (node_del_child (node_put_child nd b Empty) b)) = Some (nd', r)"
            by simp
          then have r: "node_maybe_shrink (node_del_child (node_put_child nd b Empty) b) = Some nd'"
            by auto
          note U = del_child_ok[OF sh inner True]
          let ?d = "node_del_child (node_put_child nd b Empty) b"
          have B: "is_inner ?d" "shape_ok ?d" "kid ?d = (kid nd)(b := Empty)"
            using U(1) by (auto simp: becomes_def)
          have "wf_node ?d" using B wf_innerD(2)[OF prems(1) inner] by (simp add: wf_inner)
          then show ?thesis
            using shrink_slim[OF B(1) _ U(2)[OF T(1)] _ _ r] S B(3) by (simp add: big_del)
        next
          case False
          then have "nd' = node_put_child nd b c" using step prems(4) by auto
          then show ?thesis
            using slim_put[OF inner prems(1,3) put_child_ok(1)[OF sh inner True False] sc False]
            by simp
        qed
      qed
    qed
  qed
qed

subsection \<open>What slim trees need no assumption for\<close>

lemma slim_packed: "slim nd \<Longrightarrow> packed nd"
  by (induction nd) auto

lemma prefix_key:
  assumes "is_inner nd" "wf_node nd" "slim nd"
  obtains r where "isin nd (node_prefix nd @ r)"
proof -
  have sh: "shape_ok nd" using assms by (simp add: wf_inner)
  consider "node_has_end nd" | b where "kid nd b \<noteq> Empty"
    using assms(3) by (auto simp: slim_inner[OF assms(1) sh] kids_def)
  then show thesis
  proof cases
    case 1
    then show thesis using that[of "[]"] isin_inner[OF assms(1)] by simp
  next
    case 2
    then show thesis using kid_key[OF assms(1,2) slim_lean[OF assms(3)]] that by metis
  qed
qed

lemma slim_tame:
  assumes "wf_node nd" "slim nd" "\<And>k. isin nd k \<Longrightarrow> 0xFF \<notin> set k"
  shows "tame lo hi nd"
  using assms
proof (induction nd rule: measure_induct_rule[of size])
  case (less nd)
  show ?case
  proof (cases "is_inner nd")
    case False
    then show ?thesis using less.prems(3)[of "case nd of Leaf s \<Rightarrow> s"] by (cases nd) auto
  next
    case True
    have sh: "shape_ok nd" using less.prems True by (simp add: wf_inner)
    have S: "\<not> big nd" "\<And>b. slim (kid nd b)"
      using less.prems(2) slim_inner[OF True sh] by auto
    obtain r where "isin nd (node_prefix nd @ r)" by (rule prefix_key[OF True less.prems(1,2)])
    then have p: "0xFF \<notin> set (node_prefix nd)" using less.prems(3)[of "node_prefix nd @ r"] by simp
    have k: "kid nd 0xFF = Empty"
    proof (rule ccontr)
      assume "kid nd 0xFF \<noteq> Empty"
      then obtain r where "isin nd (node_prefix nd @ 0xFF # r)"
        by (rule kid_key[OF True less.prems(1) slim_lean[OF less.prems(2)]])
      then show False using less.prems(3)[of "node_prefix nd @ 0xFF # r"] by simp
    qed
    have "tame lo hi (kid nd b)" for b
    proof (cases "kid nd b = Empty")
      case False
      have "0xFF \<notin> set k" if "isin (kid nd b) k" for k
        using less.prems(3)[of "node_prefix nd @ b # k"] that isin_inner[OF True] by auto
      then show ?thesis
        using less.IH[OF size_kid[OF True sh False] wf_innerD(2)[OF less.prems(1) True] S(2)] by blast
    qed simp
    moreover have "count_here lo hi nd" using S(1) by (cases nd) auto
    ultimately show ?thesis using p k by (simp add: tame_inner[OF True sh])
  qed
qed

lemma slim_storable:
  assumes "wf_node nd" "slim nd" "\<And>k. isin nd k \<Longrightarrow> length k \<le> 255"
  shows "storable nd"
  using assms
proof (induction nd rule: measure_induct_rule[of size])
  case (less nd)
  show ?case
  proof (cases "is_inner nd")
    case False
    then show ?thesis using less.prems(3)[of "case nd of Leaf s \<Rightarrow> s"] by (cases nd) auto
  next
    case True
    have sh: "shape_ok nd" using less.prems True by (simp add: wf_inner)
    have S: "\<not> big nd" "\<And>b. slim (kid nd b)"
      using less.prems(2) slim_inner[OF True sh] by auto
    obtain r where "isin nd (node_prefix nd @ r)" by (rule prefix_key[OF True less.prems(1,2)])
    then have p: "length (node_prefix nd) \<le> 255" using less.prems(3)[of "node_prefix nd @ r"] by simp
    have "storable (kid nd b)" for b
    proof (cases "kid nd b = Empty")
      case False
      have "length k \<le> 255" if "isin (kid nd b) k" for k
        using less.prems(3)[of "node_prefix nd @ b # k"] that isin_inner[OF True] by auto
      then show ?thesis
        using less.IH[OF size_kid[OF True sh False] wf_innerD(2)[OF less.prems(1) True] S(2)] by blast
    qed simp
    then have "\<forall>c \<in> set (node_children nd). storable c"
      using all_children[OF True sh, of storable] by simp
    then show ?thesis using p S(1) sh True by (cases nd) (auto simp: small_ok_def)
  qed
qed

lemma stored_slim:
  assumes "wf_node nd" "slim nd"
  shows "slim (stored nd)"
  using assms
proof (induction nd rule: measure_induct_rule[of size])
  case (less nd)
  show ?case
  proof (cases "is_inner nd")
    case False
    then show ?thesis by (cases nd) auto
  next
    case True
    have sh: "shape_ok nd" using less.prems True by (simp add: wf_inner)
    note I = stored_inner[OF True sh slim_packed[OF less.prems(2)]]
    have S: "node_has_end nd \<or> kids nd \<noteq> {}" "\<not> big nd" "\<And>b. slim (kid nd b)"
      using less.prems(2) slim_inner[OF True sh] by auto
    have "slim (stored (kid nd b))" for b
    proof (cases "kid nd b = Empty")
      case False
      then show ?thesis
        using less.IH[OF size_kid[OF True sh False] wf_innerD(2)[OF less.prems(1) True] S(3)] by blast
    qed simp
    moreover have "\<not> big (stored nd)" using S(2) by (cases nd) auto
    moreover have "kids (stored nd) = kids nd" by (simp add: kids_def I(5))
    ultimately show ?thesis using S(1) I by (simp add: slim_inner[OF I(1,2)])
  qed
qed

subsection \<open>The tree of a set of values\<close>

text \<open>
  \<open>index_universe U\<close>: values a tree may hold. \<open>tree_rep U t S\<close>: the tree \<open>t\<close> holds the set \<open>S\<close> of
  such values.
\<close>

definition index_universe :: "bytes set \<Rightarrow> bool" where
  "index_universe U \<longleftrightarrow> narrow U \<and> finite U \<and> card U < 2 ^ 32 \<and> (\<forall>k \<in> U. ff_free k \<and> length k \<le> 255)"

definition tree_rep :: "bytes set \<Rightarrow> index_tree \<Rightarrow> bytes set \<Rightarrow> bool" where
  "tree_rep U t S \<longleftrightarrow> wf_node (root t) \<and> slim (root t) \<and> keys_of t = S \<and> S \<subseteq> U \<and> len t = card S"

lemma tree_rep_new: "tree_rep U tree_new {}"
  by (simp add: tree_rep_def tree_new_def keys_of_def)

lemma tree_rep_tame: "index_universe U \<Longrightarrow> tree_rep U t S \<Longrightarrow> tame 49 49 (root t)"
  by (rule slim_tame) (auto simp: tree_rep_def index_universe_def keys_of_def ff_free_def)

lemma tree_rep_insert:
  assumes U: "index_universe U" "v \<in> U" and t: "tree_rep U t S"
  obtains t' where "tree_insert t v = Some (t', v \<notin> S)" "tree_rep U t' (insert v S)"
proof -
  have w: "wf_node (root t)" "slim (root t)" "keys_of t = S" "len t = card (keys_of t)" "S \<subseteq> U"
    using t by (auto simp: tree_rep_def)
  note tm = tree_rep_tame[OF U(1) t]
  have ff: "ff_free v" using U by (simp add: index_universe_def)
  obtain t' where t': "tree_insert t v = Some (t', v \<notin> keys_of t)" "wf_node (root t')"
    "len t' = card (keys_of t')" "keys_of t' = insert v (keys_of t)"
    using tree_insert_ok[OF w(1) tm w(4) _ _ _ ff] by auto
  have "\<exists>r. insert_node (root t) v = Some (root t', r)"
    using t'(1) by (auto simp: tree_insert_def split: if_splits)
  then have "lean (root t')"
    using insert_node_lean[OF w(1) tm _ _ _ _ slim_lean[OF w(2)], of v "root t'"] ff by (auto simp: ff_free_def)
  moreover have "narrow {k. isin (root t') k}"
    using narrow_mono[of U] U w(3,5) t'(4) by (auto simp: index_universe_def keys_of_def)
  ultimately have "slim (root t')" using lean_narrow t'(2) by blast
  with t' w U(2) show thesis by (intro that[of t']) (auto simp: tree_rep_def)
qed

lemma tree_rep_remove:
  assumes U: "index_universe U" and t: "tree_rep U t S"
  obtains t' where "tree_remove t v = Some (t', v \<in> S)" "tree_rep U t' (S - {v})"
proof -
  have w: "wf_node (root t)" "slim (root t)" "keys_of t = S" "len t = card (keys_of t)" "S \<subseteq> U"
    using t by (auto simp: tree_rep_def)
  note tm = tree_rep_tame[OF U(1) t]
  obtain t' where t': "tree_remove t v = Some (t', v \<in> keys_of t)" "wf_node (root t')"
    "len t' = card (keys_of t')" "keys_of t' = keys_of t - {v}"
    using tree_remove_ok[OF w(1) tm w(4)] by metis
  have "\<exists>r. remove_node (root t) v = Some (root t', r)"
    using t'(1) by (auto simp: tree_remove_def split: if_splits)
  then have "slim (root t')" using remove_node_slim[OF w(1) tm w(2)] by blast
  with t' w show thesis by (intro that[of t']) (auto simp: tree_rep_def)
qed

lemma tree_rep_store:
  assumes U: "index_universe U" and t: "tree_rep U t S"
  obtains bs t' where "to_bytes t = Some bs" "bs \<noteq> []" "from_bytes bs = Inr t'" "tree_rep U t' S"
proof -
  have w: "wf_node (root t)" "slim (root t)" "keys_of t = S" "len t = card S" "S \<subseteq> U"
    using t by (auto simp: tree_rep_def)
  have "storable (root t)"
    by (rule slim_storable[OF w(1,2)]) (use w U in \<open>auto simp: keys_of_def index_universe_def\<close>)
  then obtain b where b: "ser_node (root t) = Some b" "\<And>rest. de_node (b @ rest) = Inr (stored (root t), rest)"
    using codec by (auto simp: codec_ok_def)
  have l: "len t < 2 ^ 32"
    using w U card_mono[of U S] by (auto simp: index_universe_def)
  let ?t = "\<lparr>root = stored (root t), len = len t\<rparr>"
  have e: "to_bytes t = Some (be_bytes 4 (len t) @ b)" using b(1) l by (simp add: to_bytes_def)
  have "be_val (be_bytes 4 (len t)) = len t" using l by (simp add: be_simps)
  then have d: "from_bytes (be_bytes 4 (len t) @ b) = Inr ?t"
    using b(2)[of "[]"] by (simp add: from_bytes_def)
  have "tree_rep U ?t S"
    using stored_ok[OF w(1) slim_packed[OF w(2)]] stored_slim[OF w(1,2)] w
    by (simp add: tree_rep_def keys_of_def)
  moreover have "be_bytes 4 (len t) @ b \<noteq> []" by (simp flip: length_0_conv)
  ultimately show thesis using that e d by blast
qed

lemma tree_rep_scan:
  assumes "tree_rep U t S"
  shows "collect_all [] (root t) = Some (sorted_list_of_set S)" "finite S" "tree_is_empty t \<longleftrightarrow> S = {}"
  using assms collect_members[of t] by (auto simp: tree_rep_def tree_is_empty_def)

end
