(* ===== verification/EntityIndex.thy ===== *)
theory EntityIndex
  imports StateMemory IndexNarrow
begin

text \<open>
  The two index tiers as one relation. A memory represents the relation \<open>R\<close> of triples (entity
  id, annotation key, annotation value) when every pair account holds the ids of its pair and
  every index account holds the tree of the values that are in use and belong to tier 2. The
  lemmas show that inserting and removing an annotation inserts and removes one triple.
\<close>

subsection \<open>The worlds in which the indexes work\<close>

text \<open>
  What the indexes rely on: the hashes of the accounts in use do not collide on their first 20
  bytes, the bitmap format decodes what it encodes and never encodes to nothing, annotation keys
  contain no zero byte, and the values of every tree are an \<open>index_universe\<close>. \<open>U\<close> is the set
  of pairs in use and \<open>typ k v\<close> says whether the pair is maintained in tier 2.
\<close>

definition index_preimages :: "(bytes \<times> bytes) set \<Rightarrow> bytes set" where
  "index_preimages U = (\<Union>(k, v) \<in> U. {pair_preimage k v, index_preimage k})"

definition index_world :: "hostlib \<Rightarrow> (bytes \<times> bytes) set \<Rightarrow> (bytes \<Rightarrow> bytes \<Rightarrow> bool) \<Rightarrow> bool" where
  "index_world H U typ \<longleftrightarrow>
     (\<forall>k v. (k, v) \<in> U \<longrightarrow> 0 \<notin> set k) \<and>
     inj_on (\<lambda>b. take 20 (keccak256 H b)) (index_preimages U) \<and>
     (\<forall>S. roaring_ser H S \<noteq> [] \<and> roaring_de H (roaring_ser H S) = Some S) \<and>
     (\<forall>k. index_universe {v. (k, v) \<in> U \<and> typ k v})"

definition index_addresses :: "hostlib \<Rightarrow> (bytes \<times> bytes) set \<Rightarrow> address set" where
  "index_addresses H U = (\<Union>(k, v) \<in> U. {pair_address H k v, index_address H k})"

lemma bstr_tags: "bstr ''arkiv.pair'' = [97, 114, 107, 105, 118, 46, 112, 97, 105, 114]"
  "bstr ''arkiv.index'' = [97, 114, 107, 105, 118, 46, 105, 110, 100, 101, 120]"
  by (simp_all add: bstr_def)

lemma split_at_zero:
  "0 \<notin> set k \<Longrightarrow> 0 \<notin> set k' \<Longrightarrow> k @ (0::byte) # v = k' @ 0 # v' \<longleftrightarrow> k = k' \<and> v = v'"
proof (induction k arbitrary: k')
  case Nil
  then show ?case by (cases k') auto
next
  case (Cons a k)
  then show ?case by (cases k') auto
qed

lemma preimages_apart:
  "0 \<notin> set k \<Longrightarrow> 0 \<notin> set k' \<Longrightarrow> pair_preimage k v = pair_preimage k' v' \<longleftrightarrow> k = k' \<and> v = v'"
  "index_preimage k = index_preimage k' \<longleftrightarrow> k = k'"
  "pair_preimage k v \<noteq> index_preimage k'"
  by (simp_all add: pair_preimage_def index_preimage_def split_at_zero bstr_tags)

lemma addresses_apart:
  assumes W: "index_world H U typ" and u: "(k, v) \<in> U" "(k', v') \<in> U"
  shows "pair_address H k v = pair_address H k' v' \<longleftrightarrow> k = k' \<and> v = v'"
    "index_address H k = index_address H k' \<longleftrightarrow> k = k'"
    "pair_address H k v \<noteq> index_address H k'"
proof -
  have inj: "take 20 (keccak256 H a) = take 20 (keccak256 H b) \<longleftrightarrow> a = b"
    if "a \<in> index_preimages U" "b \<in> index_preimages U" for a b
    using W that unfolding index_world_def by (meson inj_on_eq_iff)
  have z: "0 \<notin> set k" "0 \<notin> set k'" using W u by (auto simp: index_world_def)
  have p: "pair_preimage k v \<in> index_preimages U" "pair_preimage k' v' \<in> index_preimages U"
    "index_preimage k \<in> index_preimages U" "index_preimage k' \<in> index_preimages U"
    using u by (force simp: index_preimages_def)+
  show "pair_address H k v = pair_address H k' v' \<longleftrightarrow> k = k' \<and> v = v'"
    using inj[OF p(1,2)] preimages_apart(1)[OF z] by (simp add: pair_address_def)
  show "index_address H k = index_address H k' \<longleftrightarrow> k = k'"
    using inj[OF p(3,4)] preimages_apart(2) by (simp add: index_address_def)
  show "pair_address H k v \<noteq> index_address H k'"
    using inj[OF p(1,4)] preimages_apart(3) by (simp add: pair_address_def index_address_def)
qed

lemma in_index_addresses:
  "(k, v) \<in> U \<Longrightarrow> pair_address H k v \<in> index_addresses H U"
  "(k, v) \<in> U \<Longrightarrow> index_address H k \<in> index_addresses H U"
  by (force simp: index_addresses_def)+

subsection \<open>The relation a memory represents\<close>

definition bitmap_code :: "hostlib \<Rightarrow> bytes \<Rightarrow> u64 set \<Rightarrow> bool" where
  "bitmap_code H c S \<longleftrightarrow> c = [] \<and> S = {} \<or> c = roaring_ser H S"

definition tree_code :: "bytes set \<Rightarrow> bytes \<Rightarrow> bytes set \<Rightarrow> bool" where
  "tree_code V c S \<longleftrightarrow> c = [] \<and> S = {} \<or> c \<noteq> [] \<and> (\<exists>t. from_bytes c = Inr t \<and> tree_rep V t S)"

type_synonym index_rel = "(u64 \<times> bytes \<times> bytes) set"

definition ids_of :: "index_rel \<Rightarrow> bytes \<Rightarrow> bytes \<Rightarrow> u64 set" where
  "ids_of R k v = {i. (i, k, v) \<in> R}"

definition values_of :: "(bytes \<Rightarrow> bytes \<Rightarrow> bool) \<Rightarrow> index_rel \<Rightarrow> bytes \<Rightarrow> bytes set" where
  "values_of typ R k = {v. typ k v \<and> ids_of R k v \<noteq> {}}"

definition indexes :: "hostlib \<Rightarrow> (bytes \<times> bytes) set \<Rightarrow> (bytes \<Rightarrow> bytes \<Rightarrow> bool) \<Rightarrow> mem \<Rightarrow>
    index_rel \<Rightarrow> bool" where
  "indexes H U typ m R \<longleftrightarrow>
     snd ` R \<subseteq> U \<and>
     (\<forall>k v. (k, v) \<in> U \<longrightarrow> bitmap_code H (codes m (pair_address H k v)) (ids_of R k v)) \<and>
     (\<forall>k v. (k, v) \<in> U \<longrightarrow>
        tree_code {v. (k, v) \<in> U \<and> typ k v} (codes m (index_address H k)) (values_of typ R k))"

lemma indexesD:
  assumes "indexes H U typ m R"
  shows "(i, k, v) \<in> R \<Longrightarrow> (k, v) \<in> U"
    "(k, v) \<in> U \<Longrightarrow> bitmap_code H (codes m (pair_address H k v)) (ids_of R k v)"
    "(k, v) \<in> U \<Longrightarrow>
        tree_code {v. (k, v) \<in> U \<and> typ k v} (codes m (index_address H k)) (values_of typ R k)"
  using assms by (force simp: indexes_def)+

definition same_but_indexes :: "hostlib \<Rightarrow> (bytes \<times> bytes) set \<Rightarrow> mem \<Rightarrow> mem \<Rightarrow> bool" where
  "same_but_indexes H U m m' \<longleftrightarrow>
     slots m' = slots m \<and> (\<forall>a. a \<notin> index_addresses H U \<longrightarrow> codes m' a = codes m a)"

lemma same_refl [simp]: "same_but_indexes H U m m"
  by (simp add: same_but_indexes_def)

lemma same_trans: "same_but_indexes H U m m' \<Longrightarrow> same_but_indexes H U m' m'' \<Longrightarrow> same_but_indexes H U m m''"
  by (simp add: same_but_indexes_def)

lemma indexes_empty: "indexes H U typ empty_mem {}"
  by (simp add: indexes_def empty_mem_def bitmap_code_def tree_code_def ids_of_def values_of_def)

lemma indexes_frame:
  assumes m: "indexes H U typ m R" and c: "\<And>a. a \<in> index_addresses H U \<Longrightarrow> codes m' a = codes m a"
  shows "indexes H U typ m' R"
  using m c[OF in_index_addresses(1)] c[OF in_index_addresses(2)] by (simp add: indexes_def)

subsection \<open>Reading\<close>

lemma wp_read_bitmap:
  assumes W: "index_world H U typ" and m: "indexes H U typ m R" and u: "(k, v) \<in> U"
  shows "wp (read_pair_bitmap H mem_adapter k v) m Q = Q (ids_of R k v) m"
proof -
  have ser: "roaring_ser H S \<noteq> []" "roaring_de H (roaring_ser H S) = Some S" for S
    using W by (simp_all add: index_world_def)
  have "codes m (pair_address H k v) = [] \<and> ids_of R k v = {} \<or>
      codes m (pair_address H k v) = roaring_ser H (ids_of R k v)"
    using indexesD(2)[OF m u] by (simp add: bitmap_code_def)
  then show ?thesis
    by (elim disjE conjE) (simp_all add: read_pair_bitmap_def wp_simps ser bitmap_from_bytes_def)
qed

lemma wp_read_tree:
  assumes c: "tree_code V (codes m (index_address H k)) S"
    and Q: "\<And>t. tree_rep V t S \<Longrightarrow> Q t m"
  shows "wp (read_index_tree H mem_adapter k) m Q"
  using c Q tree_rep_new by (auto simp: read_index_tree_def wp_simps tree_code_def)

subsection \<open>Writing\<close>

lemma wp_or_panic [wp_simps]:
  "wp (or_panic r) s Q = (case r of None \<Rightarrow> False | Some x \<Rightarrow> Q x s)"
  by (simp add: or_panic_def wp_simps split: option.split)

text \<open>The code of one pair account and of one index account replaced.\<close>

lemma indexes_upd:
  assumes W: "index_world H U typ" and m: "indexes H U typ m R" and u: "(k, v) \<in> U"
    and R': "snd ` R' \<subseteq> U" "\<And>k' v'. (k', v') \<noteq> (k, v) \<Longrightarrow> ids_of R' k' v' = ids_of R k' v'"
    and p: "codes m' (pair_address H k v) = roaring_ser H (ids_of R' k v)"
    and i: "tree_code {v. (k, v) \<in> U \<and> typ k v} (codes m' (index_address H k)) (values_of typ R' k)"
    and rest: "\<And>a. a \<noteq> pair_address H k v \<Longrightarrow> a \<noteq> index_address H k \<Longrightarrow> codes m' a = codes m a"
    and s: "slots m' = slots m"
  shows "indexes H U typ m' R' \<and> same_but_indexes H U m m'"
proof -
  note apart = addresses_apart[OF W _ u]
  have "bitmap_code H (codes m' (pair_address H k' v')) (ids_of R' k' v')" if u': "(k', v') \<in> U" for k' v'
  proof (cases "(k', v') = (k, v)")
    case True
    then show ?thesis using p by (simp add: bitmap_code_def)
  next
    case False
    then have "codes m' (pair_address H k' v') = codes m (pair_address H k' v')"
      using rest apart(1,3)[OF u'] by auto
    then show ?thesis using indexesD(2)[OF m u'] R'(2)[OF False] by simp
  qed
  moreover have "tree_code {v. (k', v) \<in> U \<and> typ k' v} (codes m' (index_address H k'))
      (values_of typ R' k')" if u': "(k', v') \<in> U" for k' v'
  proof (cases "k' = k")
    case False
    then have "codes m' (index_address H k') = codes m (index_address H k')"
      using rest apart(2)[OF u'] addresses_apart(3)[OF W u u'] by auto
    moreover have "values_of typ R' k' = values_of typ R k'"
      using R'(2) False by (simp add: values_of_def)
    ultimately show ?thesis using indexesD(3)[OF m u'] by simp
  qed (use i in simp)
  moreover have "codes m' a = codes m a" if "a \<notin> index_addresses H U" for a
    using rest in_index_addresses[OF u] that by metis
  ultimately show ?thesis using R'(1) s by (auto simp: indexes_def same_but_indexes_def)
qed

lemma wp_insert_index:
  assumes W: "index_world H U typ" and m: "indexes H U typ m R" and u: "(k, v) \<in> U"
  shows "wp (insert_into_indexes H mem_adapter k v e (typ k v)) m
    (\<lambda>_ m'. indexes H U typ m' (insert (e, k, v) R) \<and> same_but_indexes H U m m')"
proof -
  let ?R = "insert (e, k, v) R" and ?V = "{v. (k, v) \<in> U \<and> typ k v}"
  let ?m = "m\<lparr>codes := (codes m)(pair_address H k v := roaring_ser H (insert e (ids_of R k v)))\<rparr>"
  have I: "index_universe ?V" using W by (simp add: index_world_def)
  note ne = addresses_apart(3)[OF W u u]
  have ids: "ids_of ?R k v = insert e (ids_of R k v)"
    "\<And>k' v'. (k', v') \<noteq> (k, v) \<Longrightarrow> ids_of ?R k' v' = ids_of R k' v'"
    by (auto simp: ids_of_def)
  have sub: "snd ` ?R \<subseteq> U" using m u by (auto simp: indexes_def)
  have old: "tree_code ?V (codes m (index_address H k)) (values_of typ R k)"
    using indexesD(3)[OF m u] .
  then have old': "tree_code ?V (codes ?m (index_address H k)) (values_of typ R k)"
    using ne by simp
  show ?thesis
  proof (cases "typ k v \<and> ids_of R k v = {}")
    case True
    have vals: "values_of typ ?R k = insert v (values_of typ R k)"
      using True by (auto simp: values_of_def ids_of_def)
    have step: "wp (sbind (or_panic (tree_insert tree v)) (\<lambda>(tree', _).
         sbind (or_panic (to_bytes tree')) (\<lambda>code. ad_set_code mem_adapter (index_address H k) code))) ?m
       (\<lambda>_ m'. indexes H U typ m' ?R \<and> same_but_indexes H U m m')"
      if t: "tree_rep ?V tree (values_of typ R k)" for tree
    proof -
      have "v \<in> ?V" using u True by simp
      from tree_rep_insert[OF I this t] obtain t' where
        t': "tree_insert tree v = Some (t', v \<notin> values_of typ R k)" "tree_rep ?V t' (insert v (values_of typ R k))" .
      from tree_rep_store[OF I t'(2)] obtain bs t'' where
        bs: "to_bytes t' = Some bs" "bs \<noteq> []" "from_bytes bs = Inr t''"
          "tree_rep ?V t'' (insert v (values_of typ R k))" .
      have "tree_code ?V bs (values_of typ ?R k)" using bs(2,3,4) by (auto simp: tree_code_def vals)
      then have "indexes H U typ (?m\<lparr>codes := (codes ?m)(index_address H k := bs)\<rparr>) ?R \<and>
          same_but_indexes H U m (?m\<lparr>codes := (codes ?m)(index_address H k := bs)\<rparr>)"
        by (intro indexes_upd[OF W m u sub ids(2)]) (use ne ids(1) in auto)
      then show ?thesis using t'(1) bs(1) by (simp add: wp_simps)
    qed
    have "wp (read_index_tree H mem_adapter k) ?m (\<lambda>tree m'. wp (sbind (or_panic (tree_insert tree v)) (\<lambda>(tree', _).
         sbind (or_panic (to_bytes tree')) (\<lambda>code. ad_set_code mem_adapter (index_address H k) code))) m'
       (\<lambda>_ m'. indexes H U typ m' ?R \<and> same_but_indexes H U m m'))"
      by (rule wp_read_tree, rule old', erule step)
    then show ?thesis
      using True by (simp add: insert_into_indexes_def Let_def wp_sbind wp_read_bitmap[OF W m u]
          bitmap_to_bytes_def wp_mem del: fun_upd_apply)
  next
    case False
    have "values_of typ ?R k = values_of typ R k"
      using False by (auto simp: values_of_def ids_of_def)
    then have "indexes H U typ ?m ?R \<and> same_but_indexes H U m ?m"
      by (intro indexes_upd[OF W m u sub ids(2)]) (use old ne ids(1) in auto)
    then show ?thesis
      using False by (auto simp: insert_into_indexes_def Let_def wp_simps wp_read_bitmap[OF W m u]
          bitmap_to_bytes_def)
  qed
qed

lemma wp_remove_index:
  assumes W: "index_world H U typ" and m: "indexes H U typ m R" and u: "(k, v) \<in> U"
  shows "wp (remove_from_indexes H mem_adapter k v e (typ k v)) m
    (\<lambda>_ m'. indexes H U typ m' (R - {(e, k, v)}) \<and> same_but_indexes H U m m')"
proof (cases "ids_of R k v = {}")
  case True
  then have "R - {(e, k, v)} = R" by (auto simp: ids_of_def)
  with True m show ?thesis
    by (simp add: remove_from_indexes_def wp_sbind wp_sret wp_read_bitmap[OF W m u])
next
  case ne0: False
  obtain D where D: "ids_of R k v - {e} = D" by blast
  let ?R = "R - {(e, k, v)}" and ?V = "{v. (k, v) \<in> U \<and> typ k v}"
  let ?m = "m\<lparr>codes := (codes m)(pair_address H k v := roaring_ser H D)\<rparr>"
  have I: "index_universe ?V" using W by (simp add: index_world_def)
  note ne = addresses_apart(3)[OF W u u]
  have ids: "ids_of ?R k v = D"
    "\<And>k' v'. (k', v') \<noteq> (k, v) \<Longrightarrow> ids_of ?R k' v' = ids_of R k' v'"
    by (auto simp: ids_of_def simp flip: D)
  then have idsk: "ids_of ?R k x = (if x = v then D else ids_of R k x)" for x
    by simp
  have sub: "snd ` ?R \<subseteq> U" using m by (auto simp: indexes_def)
  have old: "tree_code ?V (codes m (index_address H k)) (values_of typ R k)"
    using indexesD(3)[OF m u] .
  then have old': "tree_code ?V (codes ?m (index_address H k)) (values_of typ R k)"
    using ne by simp
  show ?thesis
  proof (cases "typ k v \<and> D = {}")
    case True
    have vals: "values_of typ ?R k = values_of typ R k - {v}"
      using True idsk by (auto simp: values_of_def split: if_splits)
    let ?fin = "\<lambda>tree'. if tree_is_empty tree' then ad_tombstone_code mem_adapter (index_address H k)
         else sbind (or_panic (to_bytes tree')) (\<lambda>code. ad_set_code mem_adapter (index_address H k) code)"
    have upd: "indexes H U typ (?m\<lparr>codes := (codes ?m)(index_address H k := c)\<rparr>) ?R \<and>
          same_but_indexes H U m (?m\<lparr>codes := (codes ?m)(index_address H k := c)\<rparr>)"
      if "tree_code ?V c (values_of typ ?R k)" for c
      using that by (intro indexes_upd[OF W m u sub ids(2)]) (use ne ids(1) in auto)
    have step: "wp (sbind (or_panic (tree_remove tree v)) (\<lambda>(tree', _). ?fin tree')) ?m
       (\<lambda>_ m'. indexes H U typ m' ?R \<and> same_but_indexes H U m m')"
      if t: "tree_rep ?V tree (values_of typ R k)" for tree
    proof -
      from tree_rep_remove[OF I t] obtain t' where
        t': "tree_remove tree v = Some (t', v \<in> values_of typ R k)" "tree_rep ?V t' (values_of typ R k - {v})" .
      from tree_rep_store[OF I t'(2)] obtain bs t'' where
        bs: "to_bytes t' = Some bs" "bs \<noteq> []" "from_bytes bs = Inr t''"
          "tree_rep ?V t'' (values_of typ R k - {v})" .
      have e: "tree_is_empty t' \<longleftrightarrow> values_of typ R k - {v} = {}" using tree_rep_scan(3)[OF t'(2)] .
      have "tree_code ?V bs (values_of typ ?R k)" using bs(2,3,4) by (auto simp: tree_code_def vals)
      moreover have "tree_code ?V [] (values_of typ ?R k)" if "tree_is_empty t'"
        using that e by (simp add: tree_code_def vals)
      ultimately show ?thesis
        using t'(1) bs(1) upd[of bs] upd[of "[]"] by (simp add: wp_simps)
    qed
    have "wp (read_index_tree H mem_adapter k) ?m
      (\<lambda>tree m'. wp (sbind (or_panic (tree_remove tree v)) (\<lambda>(tree', _). ?fin tree')) m'
       (\<lambda>_ m'. indexes H U typ m' ?R \<and> same_but_indexes H U m m'))"
      by (rule wp_read_tree, rule old', erule step)
    then show ?thesis
      using True ne0 by (simp add: remove_from_indexes_def Let_def wp_sbind wp_read_bitmap[OF W m u]
          bitmap_to_bytes_def wp_mem D del: fun_upd_apply)
  next
    case False
    have "values_of typ ?R k = values_of typ R k"
      using False ne0 idsk by (auto simp: values_of_def split: if_splits)
    then have "indexes H U typ ?m ?R \<and> same_but_indexes H U m ?m"
      by (intro indexes_upd[OF W m u sub ids(2)]) (use old ne ids(1) in auto)
    then show ?thesis
      using False ne0 by (auto simp: remove_from_indexes_def Let_def wp_simps wp_read_bitmap[OF W m u]
          bitmap_to_bytes_def D)
  qed
qed

subsection \<open>Lists of annotations\<close>

definition ann_pairs :: "annotation list \<Rightarrow> (bytes \<times> bytes) set" where
  "ann_pairs as = (\<lambda>a. (ann_key a, ann_value a)) ` set as"

definition well_tiered :: "(bytes \<Rightarrow> bytes \<Rightarrow> bool) \<Rightarrow> annotation list \<Rightarrow> bool" where
  "well_tiered typ as \<longleftrightarrow> (\<forall>a \<in> set as. ann_tier2 a = typ (ann_key a) (ann_value a))"

lemma ann_simps [simp]:
  "ann_pairs [] = {}" "ann_pairs (a # as) = insert (ann_key a, ann_value a) (ann_pairs as)"
  "ann_pairs (as @ bs) = ann_pairs as \<union> ann_pairs bs"
  "well_tiered typ []" "well_tiered typ (as @ bs) \<longleftrightarrow> well_tiered typ as \<and> well_tiered typ bs"
  "well_tiered typ (a # as) \<longleftrightarrow> ann_tier2 a = typ (ann_key a) (ann_value a) \<and> well_tiered typ as"
  by (auto simp: ann_pairs_def well_tiered_def)

lemma wp_insert_annotations:
  assumes W: "index_world H U typ" and m: "indexes H U typ m R"
    and as: "ann_pairs as \<subseteq> U" "well_tiered typ as"
  shows "wp (insert_annotations H mem_adapter e as) m
    (\<lambda>_ m'. indexes H U typ m' (R \<union> {e} \<times> ann_pairs as) \<and> same_but_indexes H U m m')"
  using m as
proof (induction as arbitrary: m R)
  case Nil
  then show ?case by (simp add: insert_annotations_def wp_simps)
next
  case (Cons a as)
  have t: "ann_tier2 a = typ (ann_key a) (ann_value a)" using Cons.prems by simp
  have "wp (insert_into_indexes H mem_adapter (ann_key a) (ann_value a) e (ann_tier2 a)) m
    (\<lambda>_ m'. indexes H U typ m' (insert (e, ann_key a, ann_value a) R) \<and> same_but_indexes H U m m')"
    unfolding t by (rule wp_insert_index[OF W Cons.prems(1)]) (use Cons.prems in simp)
  then have "wp (insert_into_indexes H mem_adapter (ann_key a) (ann_value a) e (ann_tier2 a)) m
    (\<lambda>_ m'. wp (insert_annotations H mem_adapter e as) m'
       (\<lambda>_ m'. indexes H U typ m' (R \<union> {e} \<times> ann_pairs (a # as)) \<and> same_but_indexes H U m m'))"
  proof (rule wp_mono, elim conjE)
    fix m'
    assume m': "indexes H U typ m' (insert (e, ann_key a, ann_value a) R)" "same_but_indexes H U m m'"
    have "insert (e, ann_key a, ann_value a) R \<union> {e} \<times> ann_pairs as = R \<union> {e} \<times> ann_pairs (a # as)"
      by auto
    then show "wp (insert_annotations H mem_adapter e as) m'
       (\<lambda>_ m'. indexes H U typ m' (R \<union> {e} \<times> ann_pairs (a # as)) \<and> same_but_indexes H U m m')"
      using Cons.IH[OF m'(1)] Cons.prems m'(2) same_trans wp_mono by fastforce
  qed
  then show ?case by (simp add: insert_annotations_def wp_simps)
qed

lemma wp_remove_annotations:
  assumes W: "index_world H U typ" and m: "indexes H U typ m R"
    and as: "ann_pairs as \<subseteq> U" "well_tiered typ as"
  shows "wp (remove_annotations H mem_adapter e as) m
    (\<lambda>_ m'. indexes H U typ m' (R - {e} \<times> ann_pairs as) \<and> same_but_indexes H U m m')"
  using m as
proof (induction as arbitrary: m R)
  case Nil
  then show ?case by (simp add: remove_annotations_def wp_simps)
next
  case (Cons a as)
  have t: "ann_tier2 a = typ (ann_key a) (ann_value a)" using Cons.prems by simp
  have "wp (remove_from_indexes H mem_adapter (ann_key a) (ann_value a) e (ann_tier2 a)) m
    (\<lambda>_ m'. indexes H U typ m' (R - {(e, ann_key a, ann_value a)}) \<and> same_but_indexes H U m m')"
    unfolding t by (rule wp_remove_index[OF W Cons.prems(1)]) (use Cons.prems in simp)
  then have "wp (remove_from_indexes H mem_adapter (ann_key a) (ann_value a) e (ann_tier2 a)) m
    (\<lambda>_ m'. wp (remove_annotations H mem_adapter e as) m'
       (\<lambda>_ m'. indexes H U typ m' (R - {e} \<times> ann_pairs (a # as)) \<and> same_but_indexes H U m m'))"
  proof (rule wp_mono, elim conjE)
    fix m'
    assume m': "indexes H U typ m' (R - {(e, ann_key a, ann_value a)})" "same_but_indexes H U m m'"
    have "R - {(e, ann_key a, ann_value a)} - {e} \<times> ann_pairs as = R - {e} \<times> ann_pairs (a # as)"
      by auto
    then show "wp (remove_annotations H mem_adapter e as) m'
       (\<lambda>_ m'. indexes H U typ m' (R - {e} \<times> ann_pairs (a # as)) \<and> same_but_indexes H U m m')"
      using Cons.IH[OF m'(1)] Cons.prems m'(2) same_trans wp_mono by fastforce
  qed
  then show ?case by (simp add: remove_annotations_def wp_simps)
qed

end
