(* ===== verification/EntityStore.thy ===== *)
theory EntityStore
  imports EntityIndex
begin

text \<open>
  The database as an abstract map from entity keys to entity ids and entities, and the proof that
  every handler of the crate carries out one step of this map: \<open>store_rep\<close> relates a memory to the
  entities, \<open>indexes\<close> relates it to their annotations.
\<close>

subsection \<open>The worlds in which the database works\<close>

text \<open>
  \<open>pairs\<close> and \<open>tiered\<close> are the annotation pairs of the index; \<open>ekeys\<close> are the entity keys and
  \<open>max_ids\<close> bounds the entity ids of a history; \<open>other_slots\<close> are the preimages of the further
  slots of the system account (the nonces).
\<close>

record universe =
  pairs :: "(bytes \<times> bytes) set"
  tiered :: "bytes \<Rightarrow> bytes \<Rightarrow> bool"
  ekeys :: "b256 set"
  max_ids :: nat
  other_slots :: "bytes set"

definition wf_entity :: "entity_rlp \<Rightarrow> bool" where
  "wf_entity e \<longleftrightarrow> length (ent_creator e) = 20 \<and> length (ent_owner e) = 20 \<and> length (ent_key e) = 32"

definition db_slots :: "universe \<Rightarrow> bytes set" where
  "db_slots w = {bstr ''entity_count''} \<union>
     (\<lambda>i. bstr ''id_to_addr'' @ u64_be (of_nat i)) ` {..<max_ids w} \<union>
     (\<lambda>key. bstr ''addr_to_id'' @ entity_address key) ` ekeys w"

definition db_world :: "hostlib \<Rightarrow> universe \<Rightarrow> bool" where
  "db_world H w \<longleftrightarrow>
     index_world H (pairs w) (tiered w) \<and>
     (\<forall>e. wf_entity e \<longrightarrow> rlp_decode H (rlp_encode H e) = Some e) \<and>
     inj_on (keccak256 H) (db_slots w \<union> other_slots w) \<and> db_slots w \<inter> other_slots w = {} \<and>
     inj_on entity_address (ekeys w) \<and>
     (\<forall>key \<in> ekeys w. length key = 32 \<and> entity_address key \<noteq> zero_address \<and>
        entity_address key \<notin> index_addresses H (pairs w)) \<and>
     max_ids w < 2 ^ 64"

subsection \<open>Storage words\<close>

lemma storage_roundtrips [simp]:
  "storage_to_u64 (u64_to_storage n) = n" "storage_to_u32 (u32_to_storage i) = i"
  "u64_to_storage n = u64_to_storage n' \<longleftrightarrow> n = n'"
  by (simp_all add: storage_to_u64_def u64_to_storage_def storage_to_u32_def u32_to_storage_def)

lemma u64_be_zero: "u64_be 0 = replicate 8 0"
proof -
  have "be_bytes n 0 = replicate n 0" for n
    by (induction n) (auto simp: replicate_append_same)
  then show ?thesis by (simp add: u64_be_def)
qed

lemma u64_to_storage_zero: "u64_to_storage 0 = zero_b256"
  by (simp add: u64_to_storage_def u64_be_zero zero_b256_def flip: replicate_add)

lemma address_to_storage_zero:
  "address_to_storage a = zero_b256 \<longleftrightarrow> a = zero_address"
proof -
  have "zero_b256 = replicate 12 0 @ zero_address"
    by (simp add: zero_b256_def zero_address_def flip: replicate_add)
  then show ?thesis unfolding address_to_storage_def by (metis same_append_eq)
qed

lemma drop_address_to_storage [simp]: "drop 12 (address_to_storage a) = a"
  by (simp add: address_to_storage_def)

lemma address_to_storage_inj [simp]: "address_to_storage a = address_to_storage b \<longleftrightarrow> a = b"
  by (simp add: address_to_storage_def)

subsection \<open>Slots do not collide\<close>

lemma bstr_slots:
  "bstr ''entity_count'' = [101, 110, 116, 105, 116, 121, 95, 99, 111, 117, 110, 116]"
  "bstr ''id_to_addr'' = [105, 100, 95, 116, 111, 95, 97, 100, 100, 114]"
  "bstr ''addr_to_id'' = [97, 100, 100, 114, 95, 116, 111, 95, 105, 100]"
  by (simp_all add: bstr_def)

lemma db_slotsI:
  "bstr ''entity_count'' \<in> db_slots w"
  "unat i < max_ids w \<Longrightarrow> bstr ''id_to_addr'' @ u64_be i \<in> db_slots w"
  "key \<in> ekeys w \<Longrightarrow> bstr ''addr_to_id'' @ entity_address key \<in> db_slots w"
  by (auto simp: db_slots_def intro!: image_eqI[of _ _ "unat i"])

lemma slots_apart:
  assumes W: "db_world H w"
  shows "unat i < max_ids w \<Longrightarrow> slot_entity_count H \<noteq> slot_id_to_addr H i"
    "key \<in> ekeys w \<Longrightarrow> slot_entity_count H \<noteq> slot_addr_to_id H (entity_address key)"
    "unat i < max_ids w \<Longrightarrow> key \<in> ekeys w \<Longrightarrow> slot_id_to_addr H i \<noteq> slot_addr_to_id H (entity_address key)"
    "unat i < max_ids w \<Longrightarrow> unat j < max_ids w \<Longrightarrow> slot_id_to_addr H i = slot_id_to_addr H j \<longleftrightarrow> i = j"
    "key \<in> ekeys w \<Longrightarrow> key' \<in> ekeys w \<Longrightarrow>
       slot_addr_to_id H (entity_address key) = slot_addr_to_id H (entity_address key') \<longleftrightarrow> key = key'"
    "x \<in> other_slots w \<Longrightarrow> keccak256 H x \<noteq> slot_entity_count H"
    "x \<in> other_slots w \<Longrightarrow> unat i < max_ids w \<Longrightarrow> keccak256 H x \<noteq> slot_id_to_addr H i"
    "x \<in> other_slots w \<Longrightarrow> key \<in> ekeys w \<Longrightarrow> keccak256 H x \<noteq> slot_addr_to_id H (entity_address key)"
proof -
  have inj: "keccak256 H a = keccak256 H b \<longleftrightarrow> a = b" if "a \<in> db_slots w" "b \<in> db_slots w" for a b
    using W that unfolding db_world_def by (meson UnI1 inj_on_eq_iff)
  have oth: "keccak256 H a \<noteq> keccak256 H b" if "a \<in> other_slots w" "b \<in> db_slots w" for a b
    using W that unfolding db_world_def by (metis (no_types, lifting) UnI1 UnI2 disjoint_iff inj_on_eq_iff)
  note I = db_slotsI[where w = w]
  show "unat i < max_ids w \<Longrightarrow> slot_entity_count H \<noteq> slot_id_to_addr H i"
    "key \<in> ekeys w \<Longrightarrow> slot_entity_count H \<noteq> slot_addr_to_id H (entity_address key)"
    "unat i < max_ids w \<Longrightarrow> key \<in> ekeys w \<Longrightarrow> slot_id_to_addr H i \<noteq> slot_addr_to_id H (entity_address key)"
    "unat i < max_ids w \<Longrightarrow> unat j < max_ids w \<Longrightarrow> slot_id_to_addr H i = slot_id_to_addr H j \<longleftrightarrow> i = j"
    unfolding slot_entity_count_def slot_id_to_addr_def slot_addr_to_id_def
    using inj[OF I(1,2)] inj[OF I(1,3)] inj[OF I(2,3)] inj[OF I(2,2)] by (simp_all add: bstr_slots)
  show "key \<in> ekeys w \<Longrightarrow> key' \<in> ekeys w \<Longrightarrow>
       slot_addr_to_id H (entity_address key) = slot_addr_to_id H (entity_address key') \<longleftrightarrow> key = key'"
    unfolding slot_addr_to_id_def using inj[OF I(3,3)] W
    by (auto simp: db_world_def dest: inj_onD)
  show "x \<in> other_slots w \<Longrightarrow> keccak256 H x \<noteq> slot_entity_count H"
    "x \<in> other_slots w \<Longrightarrow> unat i < max_ids w \<Longrightarrow> keccak256 H x \<noteq> slot_id_to_addr H i"
    "x \<in> other_slots w \<Longrightarrow> key \<in> ekeys w \<Longrightarrow> keccak256 H x \<noteq> slot_addr_to_id H (entity_address key)"
    unfolding slot_entity_count_def slot_id_to_addr_def slot_addr_to_id_def
    using oth I by blast+
qed

subsection \<open>The abstract database\<close>

type_synonym entity_map = "b256 \<rightharpoonup> u64 \<times> entity_rlp"

definition entity_annotations :: "entity_rlp \<Rightarrow> annotation list" where
  "entity_annotations e =
     built_in_annotations (ent_creator e) (ent_owner e) (ent_key e) (ent_created_at_block e)
       (ent_expires_at e) (ent_content_type e) @ user_annotations (ent_attributes e)"

definition entity_pairs :: "entity_rlp \<Rightarrow> (bytes \<times> bytes) set" where
  "entity_pairs e = ann_pairs (entity_annotations e)"

definition map_rel :: "entity_map \<Rightarrow> index_rel" where
  "map_rel M = {(i, k, v). \<exists>key e. M key = Some (i, e) \<and> (k, v) \<in> entity_pairs e}"

definition builtin_keys :: "bytes set" where
  "builtin_keys = {ANNOT_ALL, ANNOT_CREATOR, ANNOT_CREATED_AT_BLOCK, ANNOT_OWNER, ANNOT_KEY,
     ANNOT_EXPIRATION, ANNOT_CONTENT_TYPE}"

text \<open>
  \<open>entity_ok\<close>: the entity's arrays have their lengths, no attribute takes the name of a built-in
  annotation, and its annotations are pairs of the universe with the universe's tiers.
\<close>

definition user_keys_ok :: "attribute list \<Rightarrow> bool" where
  "user_keys_ok attrs \<longleftrightarrow> (\<forall>a \<in> set attrs. attr_key a \<notin> builtin_keys)"

definition entity_ok :: "universe \<Rightarrow> entity_rlp \<Rightarrow> bool" where
  "entity_ok w e \<longleftrightarrow> wf_entity e \<and> user_keys_ok (ent_attributes e) \<and> entity_pairs e \<subseteq> pairs w \<and> well_tiered (tiered w) (entity_annotations e)"

definition entity_at :: "hostlib \<Rightarrow> universe \<Rightarrow> mem \<Rightarrow> nat \<Rightarrow> b256 \<Rightarrow> u64 \<Rightarrow> entity_rlp \<Rightarrow> bool" where
  "entity_at H w m n key i e \<longleftrightarrow>
     codes m (entity_address key) = encode_as_code H e \<and> ent_key e = key \<and> entity_ok w e \<and> unat i < n \<and>
     slots m SYSTEM_ACCOUNT_ADDRESS (slot_addr_to_id H (entity_address key)) = u64_to_storage i \<and>
     slots m SYSTEM_ACCOUNT_ADDRESS (slot_id_to_addr H i) = address_to_storage (entity_address key)"

definition store_rep :: "hostlib \<Rightarrow> universe \<Rightarrow> mem \<Rightarrow> entity_map \<Rightarrow> nat \<Rightarrow> bool" where
  "store_rep H w m M n \<longleftrightarrow>
     n \<le> max_ids w \<and> dom M \<subseteq> ekeys w \<and>
     slots m SYSTEM_ACCOUNT_ADDRESS (slot_entity_count H) = u64_to_storage (of_nat n) \<and>
     (\<forall>key \<in> ekeys w. M key = None \<longrightarrow> codes m (entity_address key) = []) \<and>
     (\<forall>key i e. M key = Some (i, e) \<longrightarrow> entity_at H w m n key i e) \<and>
     (\<forall>i. unat i < max_ids w \<longrightarrow> (\<forall>key e. M key \<noteq> Some (i, e)) \<longrightarrow>
        slots m SYSTEM_ACCOUNT_ADDRESS (slot_id_to_addr H i) = zero_b256)"

definition db_rep :: "hostlib \<Rightarrow> universe \<Rightarrow> mem \<Rightarrow> entity_map \<Rightarrow> nat \<Rightarrow> bool" where
  "db_rep H w m M n \<longleftrightarrow> store_rep H w m M n \<and> indexes H (pairs w) (tiered w) m (map_rel M)"

text \<open>What a handler leaves alone: every other account's storage and the other slots.\<close>

definition keeps_others :: "hostlib \<Rightarrow> universe \<Rightarrow> mem \<Rightarrow> mem \<Rightarrow> bool" where
  "keeps_others H w m m' \<longleftrightarrow>
     (\<forall>a. a \<noteq> SYSTEM_ACCOUNT_ADDRESS \<longrightarrow> slots m' a = slots m a) \<and>
     (\<forall>x \<in> other_slots w. slots m' SYSTEM_ACCOUNT_ADDRESS (keccak256 H x) =
        slots m SYSTEM_ACCOUNT_ADDRESS (keccak256 H x))"

lemma store_repD:
  assumes "store_rep H w m M n"
  shows "n \<le> max_ids w" "M key = Some (i, e) \<Longrightarrow> key \<in> ekeys w"
    "slots m SYSTEM_ACCOUNT_ADDRESS (slot_entity_count H) = u64_to_storage (of_nat n)"
    "key \<in> ekeys w \<Longrightarrow> M key = None \<Longrightarrow> codes m (entity_address key) = []"
    "M key = Some (i, e) \<Longrightarrow> entity_at H w m n key i e"
    "unat i < max_ids w \<Longrightarrow> (\<And>key e. M key \<noteq> Some (i, e)) \<Longrightarrow>
        slots m SYSTEM_ACCOUNT_ADDRESS (slot_id_to_addr H i) = zero_b256"
  using assms by (auto simp: store_rep_def)

lemma db_rep_empty: "db_rep H w empty_mem Map.empty 0"
proof -
  have "map_rel Map.empty = {}" by (simp add: map_rel_def)
  then show ?thesis
    using indexes_empty[of H "pairs w" "tiered w"]
    by (simp add: db_rep_def store_rep_def empty_mem_def u64_to_storage_zero)
qed

text \<open>Ids determine keys.\<close>

lemma id_unique:
  assumes W: "db_world H w" and s: "store_rep H w m M n" and M: "M key = Some (i, e)" "M key' = Some (i, e')"
  shows "key = key'"
proof -
  have "entity_address key = entity_address key'"
    using store_repD(5)[OF s M(1)] store_repD(5)[OF s M(2)] by (simp add: entity_at_def)
  then show ?thesis
    using W store_repD(2)[OF s M(1)] store_repD(2)[OF s M(2)] by (auto simp: db_world_def dest: inj_onD)
qed

lemma store_rep_same:
  assumes W: "db_world H w" and s: "store_rep H w m M n" and same: "same_but_indexes H (pairs w) m m'"
  shows "store_rep H w m' M n"
proof -
  have c: "codes m' (entity_address key) = codes m (entity_address key)" if "key \<in> ekeys w" for key
    using W same that by (simp add: db_world_def same_but_indexes_def)
  have l: "slots m' = slots m" using same by (simp add: same_but_indexes_def)
  have "entity_at H w m' n key i e" if "M key = Some (i, e)" for key i e
    using store_repD(5)[OF s that] c[OF store_repD(2)[OF s that]] l by (simp add: entity_at_def)
  then show ?thesis using s c unfolding store_rep_def l by simp
qed

subsection \<open>The annotations of one entity in the relation\<close>

lemma map_rel_put: "map_rel (M(key \<mapsto> (i, e))) = map_rel (M(key := None)) \<union> {i} \<times> entity_pairs e"
  by (auto simp: map_rel_def split: if_splits)

definition id_only :: "entity_map \<Rightarrow> u64 \<Rightarrow> b256 \<Rightarrow> bool" where
  "id_only M i key \<longleftrightarrow> (\<forall>key' e. M key' = Some (i, e) \<longrightarrow> key' = key)"

lemma map_rel_drop:
  assumes "M key = Some (i, e)" "id_only M i key"
  shows "map_rel (M(key := None)) = map_rel M - {i} \<times> entity_pairs e"
    "map_rel M = map_rel (M(key := None)) \<union> {i} \<times> entity_pairs e"
    "(i, k, v) \<notin> map_rel (M(key := None))"
proof -
  show n: "(i, k, v) \<notin> map_rel (M(key := None))" for k v
    using assms(2) by (auto simp: map_rel_def id_only_def split: if_splits)
  have "M(key \<mapsto> (i, e)) = M" using assms(1) by auto
  then show e: "map_rel M = map_rel (M(key := None)) \<union> {i} \<times> entity_pairs e"
    using map_rel_put[of M key i e] by simp
  show "map_rel (M(key := None)) = map_rel M - {i} \<times> entity_pairs e"
    unfolding e using n by auto
qed

lemma map_rel_change:
  assumes "M key = Some (i, e)" "id_only M i key"
    and "entity_pairs e' = entity_pairs e - A \<union> B"
  shows "map_rel M - {i} \<times> A \<union> {i} \<times> B = map_rel (M(key \<mapsto> (i, e')))"
  unfolding map_rel_drop(2)[OF assms(1,2)] map_rel_put assms(3)
  using map_rel_drop(3)[OF assms(1,2)] by auto

lemma annot_sel [simp]: "ann_key (annot k v t) = k" "ann_value (annot k v t) = v" "ann_tier2 (annot k v t) = t"
  by (simp_all add: annot_def)

lemma builtin_distinct:
  "distinct [ANNOT_ALL, ANNOT_CREATOR, ANNOT_CREATED_AT_BLOCK, ANNOT_OWNER, ANNOT_KEY,
     ANNOT_EXPIRATION, ANNOT_CONTENT_TYPE]"
  by code_simp

lemma builtin_neq [simp]:
  "ANNOT_OWNER \<noteq> ANNOT_ALL" "ANNOT_OWNER \<noteq> ANNOT_CREATOR" "ANNOT_OWNER \<noteq> ANNOT_CREATED_AT_BLOCK"
  "ANNOT_OWNER \<noteq> ANNOT_KEY" "ANNOT_OWNER \<noteq> ANNOT_EXPIRATION" "ANNOT_OWNER \<noteq> ANNOT_CONTENT_TYPE"
  "ANNOT_EXPIRATION \<noteq> ANNOT_ALL" "ANNOT_EXPIRATION \<noteq> ANNOT_CREATOR"
  "ANNOT_EXPIRATION \<noteq> ANNOT_CREATED_AT_BLOCK" "ANNOT_EXPIRATION \<noteq> ANNOT_OWNER"
  "ANNOT_EXPIRATION \<noteq> ANNOT_KEY" "ANNOT_EXPIRATION \<noteq> ANNOT_CONTENT_TYPE"
  "ANNOT_CONTENT_TYPE \<noteq> ANNOT_ALL" "ANNOT_CONTENT_TYPE \<noteq> ANNOT_CREATOR"
  "ANNOT_CONTENT_TYPE \<noteq> ANNOT_CREATED_AT_BLOCK" "ANNOT_CONTENT_TYPE \<noteq> ANNOT_OWNER"
  "ANNOT_CONTENT_TYPE \<noteq> ANNOT_KEY" "ANNOT_CONTENT_TYPE \<noteq> ANNOT_EXPIRATION"
  using builtin_distinct by auto

lemmas builtin_neq' [simp] = builtin_neq[symmetric]

lemma user_not_builtin:
  "user_keys_ok attrs \<Longrightarrow> (k, v) \<in> ann_pairs (user_annotations attrs) \<Longrightarrow> k \<notin> builtin_keys"
  by (auto simp: user_keys_ok_def ann_pairs_def user_annotations_def)

lemma entity_pairs_eq:
  "entity_pairs e =
     {(ANNOT_ALL, []), (ANNOT_CREATOR, ent_creator e),
      (ANNOT_CREATED_AT_BLOCK, u64_be (ent_created_at_block e)), (ANNOT_OWNER, ent_owner e),
      (ANNOT_KEY, ent_key e), (ANNOT_EXPIRATION, u64_be (ent_expires_at e)),
      (ANNOT_CONTENT_TYPE, ent_content_type e)} \<union> ann_pairs (user_annotations (ent_attributes e))"
  by (auto simp: entity_pairs_def entity_annotations_def built_in_annotations_def
      encode_address_def encode_u64_be_def encode_b256_def)

lemma pairs_extend:
  assumes "user_keys_ok (ent_attributes e)"
  shows "entity_pairs (e\<lparr>ent_expires_at := x, ent_last_modified_at_block := b\<rparr>) =
    entity_pairs e - {(ANNOT_EXPIRATION, u64_be (ent_expires_at e))} \<union> {(ANNOT_EXPIRATION, u64_be x)}"
  using user_not_builtin[OF assms] by (auto simp: entity_pairs_eq builtin_keys_def)

lemma pairs_transfer:
  assumes "user_keys_ok (ent_attributes e)"
  shows "entity_pairs (e\<lparr>ent_owner := x, ent_last_modified_at_block := b\<rparr>) =
    entity_pairs e - {(ANNOT_OWNER, ent_owner e)} \<union> {(ANNOT_OWNER, x)}"
  using user_not_builtin[OF assms] by (auto simp: entity_pairs_eq builtin_keys_def)

text \<open>The two lists \<open>apply_annotation_diff\<close> works through.\<close>

lemma ann_pairs_diff:
  assumes "well_tiered typ as" "well_tiered typ bs"
  shows "ann_pairs (filter (\<lambda>a. a \<notin> set bs) as) = ann_pairs as - ann_pairs bs"
proof -
  have eq: "a = b" if "a \<in> set as" "b \<in> set bs" "ann_key a = ann_key b" "ann_value a = ann_value b" for a b
    using assms that by (auto simp: well_tiered_def intro: annotation.equality)
  show ?thesis by (auto simp: ann_pairs_def dest: eq)
qed

lemma well_tiered_filter: "well_tiered typ as \<Longrightarrow> well_tiered typ (filter P as)"
  by (auto simp: well_tiered_def)

lemma pairs_update:
  assumes "user_keys_ok (ent_attributes e)" "user_keys_ok attrs"
    and old: "old = ann_pairs (updatable_annotations (ent_content_type e) (ent_attributes e))"
    and new: "new = ann_pairs (updatable_annotations ct attrs)"
  shows "entity_pairs (e\<lparr>ent_payload := p, ent_content_type := ct, ent_attributes := attrs,
      ent_last_modified_at_block := b\<rparr>) = entity_pairs e - (old - new) \<union> (new - old)"
  using user_not_builtin[OF assms(1)] user_not_builtin[OF assms(2)]
  by (auto simp: entity_pairs_eq builtin_keys_def old new updatable_annotations_def)

end
