(* ===== verification/EntityOps.thy ===== *)
theory EntityOps
  imports EntityStore
begin

text \<open>
  Each handler of the crate on a memory that represents an abstract database: it succeeds exactly
  when the entity exists, and the memory then represents the database after the operation.
\<close>

subsection \<open>Reading an entity\<close>

lemma decode_encode:
  "db_world H w \<Longrightarrow> wf_entity e \<Longrightarrow> decode_from_code H (encode_as_code H e) = Inr e"
  by (simp add: decode_from_code_def encode_as_code_def db_world_def)

lemma encode_not_empty [simp]: "encode_as_code H e \<noteq> []"
  by (simp add: encode_as_code_def)

lemma wp_read_entity:
  assumes W: "db_world H w" and s: "store_rep H w m M n" and M: "M key = Some (i, e)"
  shows "wp (read_entity H mem_adapter (entity_address key)) m Q = Q e m"
    "wp (read_entity_id H mem_adapter (entity_address key)) m Q' = Q' i m"
proof -
  have a: "entity_at H w m n key i e" using store_repD(5)[OF s M] .
  then show "wp (read_entity H mem_adapter (entity_address key)) m Q = Q e m"
    using decode_encode[OF W, of e]
    by (simp add: read_entity_def wp_simps entity_at_def entity_ok_def)
  show "wp (read_entity_id H mem_adapter (entity_address key)) m Q' = Q' i m"
    using a by (simp add: read_entity_id_def wp_simps entity_at_def)
qed

lemma read_missing:
  assumes s: "store_rep H w m M n" and M: "M key = None" "key \<in> ekeys w"
  shows "read_entity_id H mem_adapter (entity_address key) m =
      Inr (storage_to_u64 (slots m SYSTEM_ACCOUNT_ADDRESS (slot_addr_to_id H (entity_address key))), m)"
    "read_entity H mem_adapter (entity_address key) m = Inl (NoEntity (entity_address key))"
  using store_repD(4)[OF s M(2,1)]
  by (simp_all add: read_entity_id_def read_entity_def sbind_def sret_def sfail_def mem_adapter_def)

text \<open>The handlers that change an entity fail on a key without an entity.\<close>

lemma missing_fails:
  assumes s: "store_rep H w m M n" and M: "M key = None" "key \<in> ekeys w"
  shows "entitydb_update H mem_adapter key b p ct attrs m = Inl (NoEntity (entity_address key))"
    "entitydb_extend H mem_adapter key b x m = Inl (NoEntity (entity_address key))"
    "entitydb_transfer H mem_adapter key b a m = Inl (NoEntity (entity_address key))"
    "entitydb_delete H mem_adapter key m = Inl (NoEntity (entity_address key))"
  using read_missing[OF assms]
  by (simp_all add: entitydb_update_def entitydb_extend_def entitydb_transfer_def
      entitydb_delete_def Let_def sbind_def)

subsection \<open>Writing an entity\<close>

lemma id_onlyI:
  "db_world H w \<Longrightarrow> store_rep H w m M n \<Longrightarrow> M key = Some (i, e) \<Longrightarrow> id_only M i key"
  unfolding id_only_def using id_unique by blast

lemma entity_address_inj:
  "db_world H w \<Longrightarrow> key \<in> ekeys w \<Longrightarrow> key' \<in> ekeys w \<Longrightarrow>
    entity_address key = entity_address key' \<longleftrightarrow> key = key'"
  by (auto simp: db_world_def dest: inj_onD)

lemma store_put:
  assumes W: "db_world H w" and s: "store_rep H w m M n" and M: "M key = Some (i, e)"
    and e': "entity_ok w e'" "ent_key e' = key"
  shows "store_rep H w (m\<lparr>codes := (codes m)(entity_address key := encode_as_code H e')\<rparr>)
    (M(key \<mapsto> (i, e'))) n"
proof -
  have k: "key \<in> ekeys w" using store_repD(2)[OF s M] .
  note inj = entity_address_inj[OF W _ k]
  let ?m = "m\<lparr>codes := (codes m)(entity_address key := encode_as_code H e')\<rparr>"
  have "entity_at H w ?m n key' j f" if f: "(M(key \<mapsto> (i, e'))) key' = Some (j, f)" for key' j f
  proof (cases "key' = key")
    case True
    then show ?thesis using f store_repD(5)[OF s M] e' by (simp add: entity_at_def)
  next
    case False
    then have g: "M key' = Some (j, f)" using f by simp
    show ?thesis
      using store_repD(5)[OF s g] inj[OF store_repD(2)[OF s g]] False by (simp add: entity_at_def)
  qed
  moreover have "codes ?m (entity_address key') = []" if "key' \<in> ekeys w" "(M(key \<mapsto> (i, e'))) key' = None" for key'
    using store_repD(4)[OF s that(1)] inj[OF that(1)] that(2) by (simp split: if_splits)
  moreover have "slots ?m SYSTEM_ACCOUNT_ADDRESS (slot_id_to_addr H j) = zero_b256"
    if "unat j < max_ids w" "\<And>key' f. (M(key \<mapsto> (i, e'))) key' \<noteq> Some (j, f)" for j
  proof -
    have "j \<noteq> i" using that(2)[of key e'] by auto
    then have "M key' \<noteq> Some (j, f)" for key' f using that(2)[of key' f] M by (cases "key' = key") auto
    then show ?thesis using store_repD(6)[OF s that(1)] by simp
  qed
  moreover have "dom (M(key \<mapsto> (i, e'))) \<subseteq> ekeys w" using s k by (auto simp: store_rep_def)
  ultimately show ?thesis
    using store_repD(1,3)[OF s] unfolding store_rep_def by simp
qed

lemma indexes_put:
  assumes W: "db_world H w" and k: "key \<in> ekeys w" and m: "indexes H (pairs w) (tiered w) m R"
  shows "indexes H (pairs w) (tiered w) (m\<lparr>codes := (codes m)(entity_address key := c)\<rparr>) R"
  using W k by (intro indexes_frame[OF m]) (auto simp: db_world_def)

text \<open>A handler that replaces the entity after moving its annotations from \<open>A\<close> to \<open>B\<close>.\<close>

lemma db_put:
  assumes W: "db_world H w" and s: "db_rep H w m M n" and M: "M key = Some (i, e)"
    and e': "entity_ok w e'" "ent_key e' = key" "entity_pairs e' = entity_pairs e - A \<union> B"
    and m': "indexes H (pairs w) (tiered w) m' (map_rel M - {i} \<times> A \<union> {i} \<times> B)"
      "same_but_indexes H (pairs w) m m'"
  shows "db_rep H w (m'\<lparr>codes := (codes m')(entity_address key := encode_as_code H e')\<rparr>)
      (M(key \<mapsto> (i, e'))) n \<and>
    keeps_others H w m (m'\<lparr>codes := (codes m')(entity_address key := encode_as_code H e')\<rparr>)"
proof -
  have st: "store_rep H w m M n" using s by (simp add: db_rep_def)
  have "map_rel M - {i} \<times> A \<union> {i} \<times> B = map_rel (M(key \<mapsto> (i, e')))"
    by (rule map_rel_change[OF M id_onlyI[OF W st M] e'(3)])
  then show ?thesis
    using store_put[OF W store_rep_same[OF W st m'(2)] M e'(1,2)]
      indexes_put[OF W store_repD(2)[OF st M] m'(1)] m'(2)
    by (simp add: db_rep_def keeps_others_def same_but_indexes_def)
qed

subsection \<open>Extend and transfer\<close>

text \<open>Moving one annotation.\<close>

lemma wp_move_index:
  assumes W: "index_world H U typ" and m: "indexes H U typ m R" and u: "(k, v) \<in> U" "(k, v') \<in> U"
    and t: "t = typ k v" "t = typ k v'"
  shows "wp (sbind (remove_from_indexes H mem_adapter k v i t) (\<lambda>_.
      insert_into_indexes H mem_adapter k v' i t)) m
    (\<lambda>_ m'. indexes H U typ m' (R - {i} \<times> {(k, v)} \<union> {i} \<times> {(k, v')}) \<and> same_but_indexes H U m m')"
proof -
  have "wp (remove_from_indexes H mem_adapter k v i t) m (\<lambda>_ m'.
      wp (insert_into_indexes H mem_adapter k v' i t) m' (\<lambda>_ m'.
        indexes H U typ m' (R - {i} \<times> {(k, v)} \<union> {i} \<times> {(k, v')}) \<and> same_but_indexes H U m m'))"
    unfolding t(1)
  proof (rule wp_mono[OF wp_remove_index[OF W m u(1), where e = i]], elim conjE)
    fix m1
    assume m1: "indexes H U typ m1 (R - {(i, k, v)})" "same_but_indexes H U m m1"
    have "R - {i} \<times> {(k, v)} \<union> {i} \<times> {(k, v')} = insert (i, k, v') (R - {(i, k, v)})" by auto
    moreover have "wp (insert_into_indexes H mem_adapter k v' i (typ k v)) m1 (\<lambda>_ m'.
        indexes H U typ m' (insert (i, k, v') (R - {(i, k, v)})) \<and> same_but_indexes H U m1 m')"
      using wp_insert_index[OF W m1(1) u(2), where e = i] by (simp flip: t(2) add: t(1)[symmetric])
    ultimately show "wp (insert_into_indexes H mem_adapter k v' i (typ k v)) m1 (\<lambda>_ m'.
        indexes H U typ m' (R - {i} \<times> {(k, v)} \<union> {i} \<times> {(k, v')}) \<and> same_but_indexes H U m m')"
      by (auto elim!: wp_mono intro: same_trans[OF m1(2)])
  qed
  then show ?thesis by (simp add: wp_sbind)
qed

lemma entity_ok_pair:
  "entity_ok w e \<Longrightarrow> a \<in> set (entity_annotations e) \<Longrightarrow>
    (ann_key a, ann_value a) \<in> pairs w \<and> tiered w (ann_key a) (ann_value a) = ann_tier2 a"
  by (auto simp: entity_ok_def entity_pairs_def ann_pairs_def well_tiered_def)

lemma builtin_members:
  "annot ANNOT_OWNER (ent_owner e) False \<in> set (entity_annotations e)"
  "annot ANNOT_EXPIRATION (u64_be (ent_expires_at e)) True \<in> set (entity_annotations e)"
  by (simp_all add: entity_annotations_def built_in_annotations_def encode_address_def encode_u64_be_def)

lemma wp_extend:
  assumes W: "db_world H w" and s: "db_rep H w m M n" and M: "M key = Some (i, e)"
    and ok: "entity_ok w (e\<lparr>ent_expires_at := x, ent_last_modified_at_block := b\<rparr>)"
  shows "wp (entitydb_extend H mem_adapter key b x) m (\<lambda>_ m'.
    db_rep H w m' (M(key \<mapsto> (i, e\<lparr>ent_expires_at := x, ent_last_modified_at_block := b\<rparr>))) n \<and>
    keeps_others H w m m')"
proof -
  let ?e = "e\<lparr>ent_expires_at := x, ent_last_modified_at_block := b\<rparr>"
  have st: "store_rep H w m M n" and ix: "indexes H (pairs w) (tiered w) m (map_rel M)"
    using s by (simp_all add: db_rep_def)
  have e: "entity_ok w e" "ent_key e = key" using store_repD(5)[OF st M] by (simp_all add: entity_at_def)
  have IW: "index_world H (pairs w) (tiered w)" using W by (simp add: db_world_def)
  have u: "(ANNOT_EXPIRATION, u64_be (ent_expires_at e)) \<in> pairs w" "(ANNOT_EXPIRATION, u64_be x) \<in> pairs w"
    "True = tiered w ANNOT_EXPIRATION (u64_be (ent_expires_at e))" "True = tiered w ANNOT_EXPIRATION (u64_be x)"
    using entity_ok_pair[OF e(1) builtin_members(2)] entity_ok_pair[OF ok builtin_members(2)] by simp_all
  have p: "entity_pairs ?e = entity_pairs e - {(ANNOT_EXPIRATION, u64_be (ent_expires_at e))} \<union>
      {(ANNOT_EXPIRATION, u64_be x)}"
    using pairs_extend e(1) by (simp add: entity_ok_def)
  have "wp (sbind (remove_from_indexes H mem_adapter ANNOT_EXPIRATION (u64_be (ent_expires_at e)) i True)
      (\<lambda>_. insert_into_indexes H mem_adapter ANNOT_EXPIRATION (u64_be x) i True)) m
    (\<lambda>_ m'. wp (ad_set_code mem_adapter (entity_address key) (encode_as_code H ?e)) m' (\<lambda>_ m'.
       db_rep H w m' (M(key \<mapsto> (i, ?e))) n \<and> keeps_others H w m m'))"
    by (rule wp_mono[OF wp_move_index[OF IW ix u]])
      (use db_put[OF W s M ok _ p] e(2) in \<open>simp add: wp_mem\<close>)
  then show ?thesis
    by (simp add: entitydb_extend_def Let_def wp_sbind wp_read_entity[OF W st M] encode_u64_be_def)
qed

lemma wp_transfer:
  assumes W: "db_world H w" and s: "db_rep H w m M n" and M: "M key = Some (i, e)"
    and ok: "entity_ok w (e\<lparr>ent_owner := x, ent_last_modified_at_block := b\<rparr>)"
  shows "wp (entitydb_transfer H mem_adapter key b x) m (\<lambda>_ m'.
    db_rep H w m' (M(key \<mapsto> (i, e\<lparr>ent_owner := x, ent_last_modified_at_block := b\<rparr>))) n \<and>
    keeps_others H w m m')"
proof -
  let ?e = "e\<lparr>ent_owner := x, ent_last_modified_at_block := b\<rparr>"
  have st: "store_rep H w m M n" and ix: "indexes H (pairs w) (tiered w) m (map_rel M)"
    using s by (simp_all add: db_rep_def)
  have e: "entity_ok w e" "ent_key e = key" using store_repD(5)[OF st M] by (simp_all add: entity_at_def)
  have IW: "index_world H (pairs w) (tiered w)" using W by (simp add: db_world_def)
  have u: "(ANNOT_OWNER, ent_owner e) \<in> pairs w" "(ANNOT_OWNER, x) \<in> pairs w"
    "False = tiered w ANNOT_OWNER (ent_owner e)" "False = tiered w ANNOT_OWNER x"
    using entity_ok_pair[OF e(1) builtin_members(1)] entity_ok_pair[OF ok builtin_members(1)] by simp_all
  have p: "entity_pairs ?e = entity_pairs e - {(ANNOT_OWNER, ent_owner e)} \<union> {(ANNOT_OWNER, x)}"
    using pairs_transfer e(1) by (simp add: entity_ok_def)
  have "wp (sbind (remove_from_indexes H mem_adapter ANNOT_OWNER (ent_owner e) i False)
      (\<lambda>_. insert_into_indexes H mem_adapter ANNOT_OWNER x i False)) m
    (\<lambda>_ m'. wp (ad_set_code mem_adapter (entity_address key) (encode_as_code H ?e)) m' (\<lambda>_ m'.
       db_rep H w m' (M(key \<mapsto> (i, ?e))) n \<and> keeps_others H w m m'))"
    by (rule wp_mono[OF wp_move_index[OF IW ix u]])
      (use db_put[OF W s M ok _ p] e(2) in \<open>simp add: wp_mem\<close>)
  then show ?thesis
    by (simp add: entitydb_transfer_def Let_def wp_sbind wp_read_entity[OF W st M] encode_address_def)
qed

subsection \<open>Update\<close>

lemma wp_diff:
  assumes W: "index_world H U typ" and m: "indexes H U typ m R"
    and old: "ann_pairs old \<subseteq> U" "well_tiered typ old" and new: "ann_pairs new \<subseteq> U" "well_tiered typ new"
  shows "wp (apply_annotation_diff H mem_adapter old new i) m (\<lambda>_ m'.
    indexes H U typ m' (R - {i} \<times> (ann_pairs old - ann_pairs new) \<union> {i} \<times> (ann_pairs new - ann_pairs old)) \<and>
    same_but_indexes H U m m')"
proof -
  let ?rem = "filter (\<lambda>a. a \<notin> set new) old" and ?ins = "filter (\<lambda>a. a \<notin> set old) new"
  note D = ann_pairs_diff[OF old(2) new(2)] ann_pairs_diff[OF new(2) old(2)]
  have sub: "ann_pairs ?rem \<subseteq> U" "ann_pairs ?ins \<subseteq> U" using D old(1) new(1) by auto
  have "wp (remove_annotations H mem_adapter i ?rem) m (\<lambda>_ m'.
      wp (insert_annotations H mem_adapter i ?ins) m' (\<lambda>_ m''.
        indexes H U typ m'' (R - {i} \<times> ann_pairs ?rem \<union> {i} \<times> ann_pairs ?ins) \<and>
        same_but_indexes H U m m''))"
  proof (rule wp_mono[OF wp_remove_annotations[OF W m sub(1) well_tiered_filter[OF old(2)], where e = i]], elim conjE)
    fix m1
    assume m1: "indexes H U typ m1 (R - {i} \<times> ann_pairs ?rem)" "same_but_indexes H U m m1"
    show "wp (insert_annotations H mem_adapter i ?ins) m1 (\<lambda>_ m''.
        indexes H U typ m'' (R - {i} \<times> ann_pairs ?rem \<union> {i} \<times> ann_pairs ?ins) \<and>
        same_but_indexes H U m m'')"
      by (rule wp_mono[OF wp_insert_annotations[OF W m1(1) sub(2) well_tiered_filter[OF new(2)], where e = i]])
        (auto intro: same_trans[OF m1(2)])
  qed
  then show ?thesis by (simp add: apply_annotation_diff_def wp_sbind D)
qed

lemma updatable_ok:
  assumes "entity_ok w e"
  shows "ann_pairs (updatable_annotations (ent_content_type e) (ent_attributes e)) \<subseteq> pairs w"
    "well_tiered (tiered w) (updatable_annotations (ent_content_type e) (ent_attributes e))"
  using assms by (auto simp: entity_ok_def entity_pairs_def entity_annotations_def
      built_in_annotations_def updatable_annotations_def)

lemma wp_update:
  assumes W: "db_world H w" and s: "db_rep H w m M n" and M: "M key = Some (i, e)"
    and ok: "entity_ok w (e\<lparr>ent_payload := p, ent_content_type := ct, ent_attributes := attrs,
      ent_last_modified_at_block := b\<rparr>)"
  shows "wp (entitydb_update H mem_adapter key b p ct attrs) m (\<lambda>_ m'.
    db_rep H w m' (M(key \<mapsto> (i, e\<lparr>ent_payload := p, ent_content_type := ct, ent_attributes := attrs,
      ent_last_modified_at_block := b\<rparr>))) n \<and> keeps_others H w m m')"
proof -
  let ?e = "e\<lparr>ent_payload := p, ent_content_type := ct, ent_attributes := attrs,
    ent_last_modified_at_block := b\<rparr>"
  let ?old = "updatable_annotations (ent_content_type e) (ent_attributes e)"
  let ?new = "updatable_annotations ct attrs"
  have st: "store_rep H w m M n" and ix: "indexes H (pairs w) (tiered w) m (map_rel M)"
    using s by (simp_all add: db_rep_def)
  have e: "entity_ok w e" "ent_key e = key" using store_repD(5)[OF st M] by (simp_all add: entity_at_def)
  have IW: "index_world H (pairs w) (tiered w)" using W by (simp add: db_world_def)
  have q: "entity_pairs ?e = entity_pairs e - (ann_pairs ?old - ann_pairs ?new) \<union> (ann_pairs ?new - ann_pairs ?old)"
    using e(1) ok by (intro pairs_update) (simp_all add: entity_ok_def)
  have new: "ann_pairs ?new \<subseteq> pairs w" "well_tiered (tiered w) ?new"
    using updatable_ok[OF ok] by simp_all
  have "wp (apply_annotation_diff H mem_adapter ?old ?new i) m
    (\<lambda>_ m'. wp (ad_set_code mem_adapter (entity_address key) (encode_as_code H ?e)) m' (\<lambda>_ m'.
       db_rep H w m' (M(key \<mapsto> (i, ?e))) n \<and> keeps_others H w m m'))"
    by (rule wp_mono[OF wp_diff[OF IW ix updatable_ok[OF e(1)] new]])
      (use db_put[OF W s M ok _ q] e(2) in \<open>simp add: wp_mem\<close>)
  then show ?thesis
    by (simp add: entitydb_update_def Let_def wp_sbind wp_read_entity[OF W st M])
qed

subsection \<open>Delete and expire\<close>

lemma keeps_codes [simp]: "keeps_others H w m (m'\<lparr>codes := c\<rparr>) = keeps_others H w m m'"
  by (simp add: keeps_others_def)

lemma keeps_same: "same_but_indexes H U m m' \<Longrightarrow> keeps_others H w m m'"
  by (simp add: keeps_others_def same_but_indexes_def)

lemma keeps_trans: "keeps_others H w m m' \<Longrightarrow> keeps_others H w m' m'' \<Longrightarrow> keeps_others H w m m''"
  by (simp add: keeps_others_def)

abbreviation sys_write :: "mem \<Rightarrow> b256 \<Rightarrow> b256 \<Rightarrow> mem" where
  "sys_write m slot v \<equiv> m\<lparr>slots := (slots m)(SYSTEM_ACCOUNT_ADDRESS :=
     (slots m SYSTEM_ACCOUNT_ADDRESS)(slot := v))\<rparr>"

lemma store_delete:
  assumes W: "db_world H w" and s: "store_rep H w m M n" and M: "M key = Some (i, e)"
  defines "m1 \<equiv> sys_write m (slot_id_to_addr H i) zero_b256"
  defines "m2 \<equiv> sys_write m1 (slot_addr_to_id H (entity_address key)) zero_b256"
  shows "store_rep H w (m2\<lparr>codes := (codes m2)(entity_address key := [])\<rparr>) (M(key := None)) n \<and>
    keeps_others H w m m2"
proof -
  have k: "key \<in> ekeys w" using store_repD(2)[OF s M] .
  have lt: "unat i < max_ids w" if "M key = Some (i, e)" for key i e
    using store_repD(1)[OF s] store_repD(5)[OF s that] by (simp add: entity_at_def)
  note inj = entity_address_inj[OF W _ k] and A = slots_apart[OF W]
  let ?m = "m2\<lparr>codes := (codes m2)(entity_address key := [])\<rparr>"
  have only: "id_only M i key" by (rule id_onlyI[OF W s M])
  have "entity_at H w ?m n key' j f" if f: "(M(key := None)) key' = Some (j, f)" for key' j f
  proof -
    have g: "M key' = Some (j, f)" "key' \<noteq> key" using f by (auto split: if_splits)
    then have "j \<noteq> i" using only by (auto simp: id_only_def)
    then show ?thesis
      using store_repD(5)[OF s g(1)] inj[OF store_repD(2)[OF s g(1)]] g(2)
        A(4)[OF lt[OF g(1)] lt[OF M]] A(3)[OF lt[OF g(1)] k] A(3)[OF lt[OF M] store_repD(2)[OF s g(1)]]
        A(5)[OF store_repD(2)[OF s g(1)] k]
      by (simp add: entity_at_def m1_def m2_def)
  qed
  moreover have "codes ?m (entity_address key') = []" if "key' \<in> ekeys w" "(M(key := None)) key' = None" for key'
    using store_repD(4)[OF s that(1)] inj[OF that(1)] that(2) by (simp add: m1_def m2_def split: if_splits)
  moreover have "slots ?m SYSTEM_ACCOUNT_ADDRESS (slot_id_to_addr H j) = zero_b256"
    if j: "unat j < max_ids w" "\<And>key' f. (M(key := None)) key' \<noteq> Some (j, f)" for j
  proof (cases "j = i")
    case True
    then show ?thesis using A(3)[OF j(1) k] by (simp add: m1_def m2_def)
  next
    case False
    then have "M key' \<noteq> Some (j, f)" for key' f using j(2)[of key' f] M by (cases "key' = key") auto
    then show ?thesis
      using store_repD(6)[OF s j(1)] A(4)[OF j(1) lt[OF M]] A(3)[OF j(1) k] False by (simp add: m1_def m2_def)
  qed
  moreover have "dom (M(key := None)) \<subseteq> ekeys w" using s by (auto simp: store_rep_def)
  ultimately have "store_rep H w ?m (M(key := None)) n"
    using store_repD(1,3)[OF s] A(1)[OF lt[OF M]] A(2)[OF k]
    unfolding store_rep_def by (simp add: m1_def m2_def)
  then show ?thesis
    using A(7)[OF _ lt[OF M]] A(8)[OF _ k] by (simp add: keeps_others_def m1_def m2_def)
qed

lemma wp_delete:
  assumes W: "db_world H w" and s: "db_rep H w m M n" and M: "M key = Some (i, e)"
  shows "wp (entitydb_delete H mem_adapter key) m (\<lambda>_ m'.
    db_rep H w m' (M(key := None)) n \<and> keeps_others H w m m')"
proof -
  have st: "store_rep H w m M n" and ix: "indexes H (pairs w) (tiered w) m (map_rel M)"
    using s by (simp_all add: db_rep_def)
  have e: "entity_ok w e" "ent_key e = key" using store_repD(5)[OF st M] by (simp_all add: entity_at_def)
  have IW: "index_world H (pairs w) (tiered w)" using W by (simp add: db_world_def)
  have sub: "ann_pairs (entity_annotations e) \<subseteq> pairs w" "well_tiered (tiered w) (entity_annotations e)"
    using e(1) by (simp_all add: entity_ok_def entity_pairs_def)
  have drop: "map_rel M - {i} \<times> ann_pairs (entity_annotations e) = map_rel (M(key := None))"
    using map_rel_drop(1)[OF M id_onlyI[OF W st M]] by (simp add: entity_pairs_def)
  let ?fin = "\<lambda>m1. let m2 = sys_write (sys_write m1 (slot_id_to_addr H i) zero_b256)
      (slot_addr_to_id H (entity_address key)) zero_b256
    in m2\<lparr>codes := (codes m2)(entity_address key := [])\<rparr>"
  have "wp (remove_annotations H mem_adapter i (entity_annotations e)) m (\<lambda>_ m1.
      db_rep H w (?fin m1) (M(key := None)) n \<and> keeps_others H w m (?fin m1))"
  proof (rule wp_mono[OF wp_remove_annotations[OF IW ix sub, where e = i]], elim conjE)
    fix m1
    assume m1: "indexes H (pairs w) (tiered w) m1 (map_rel M - {i} \<times> ann_pairs (entity_annotations e))"
      "same_but_indexes H (pairs w) m m1"
    have "indexes H (pairs w) (tiered w) (?fin m1) (map_rel (M(key := None)))"
      using W store_repD(2)[OF st M]
      by (intro indexes_frame[OF m1(1)[unfolded drop]]) (auto simp: db_world_def Let_def)
    moreover have "store_rep H w (?fin m1) (M(key := None)) n" "keeps_others H w m1 (?fin m1)"
      using store_delete[OF W store_rep_same[OF W st m1(2)] M] by (simp_all add: Let_def)
    ultimately show "db_rep H w (?fin m1) (M(key := None)) n \<and> keeps_others H w m (?fin m1)"
      using keeps_trans[OF keeps_same[OF m1(2)]] by (simp add: db_rep_def)
  qed
  then show ?thesis
    unfolding entitydb_delete_def Let_def wp_sbind wp_read_entity[OF W st M]
      entity_annotations_def e(2) by (simp only: wp_mem Let_def)
qed

subsection \<open>Create\<close>

definition new_entity :: "address \<Rightarrow> b256 \<Rightarrow> u64 \<Rightarrow> u64 \<Rightarrow> bytes \<Rightarrow> bytes \<Rightarrow> attribute list \<Rightarrow> entity_rlp" where
  "new_entity sender key ex b p ct attrs =
     \<lparr>ent_payload = p, ent_creator = sender, ent_created_at_block = b, ent_owner = sender,
      ent_expires_at = ex, ent_content_type = ct, ent_key = key, ent_attributes = attrs,
      ent_last_modified_at_block = b\<rparr>"

lemma store_create:
  assumes W: "db_world H w" and s: "store_rep H w m M n" and k: "key \<in> ekeys w" "M key = None"
    and n: "n < max_ids w" and e: "entity_ok w e" "ent_key e = key"
    and m1: "m1 = sys_write (sys_write (sys_write m (slot_entity_count H) (u64_to_storage (of_nat n + 1)))
      (slot_id_to_addr H (of_nat n)) (address_to_storage (entity_address key)))
      (slot_addr_to_id H (entity_address key)) (u64_to_storage (of_nat n))"
    and same: "same_but_indexes H (pairs w) m1 m2"
  shows "store_rep H w (m2\<lparr>codes := (codes m2)(entity_address key := encode_as_code H e)\<rparr>)
      (M(key \<mapsto> (of_nat n, e))) (Suc n) \<and> keeps_others H w m m2"
proof -
  have b: "max_ids w < 2 ^ 64" using W by (simp add: db_world_def)
  then have un: "unat (of_nat n :: u64) = n" using n by (simp add: unat_of_nat)
  then have lt: "unat (of_nat n :: u64) < max_ids w" using n by simp
  have ltM: "unat j < n" "unat j < max_ids w" "j \<noteq> of_nat n" if "M key' = Some (j, f)" for key' j f
    using n un store_repD(5)[OF s that] by (auto simp: entity_at_def)
  note A = slots_apart[OF W] and inj = entity_address_inj[OF W _ k(1)]
  let ?m = "m2\<lparr>codes := (codes m2)(entity_address key := encode_as_code H e)\<rparr>"
  have c: "codes m2 (entity_address key') = codes m (entity_address key')" if "key' \<in> ekeys w" for key'
    using W same that by (simp add: db_world_def same_but_indexes_def m1)
  have sl: "slots m2 = slots m1" using same by (simp add: same_but_indexes_def)
  have "entity_at H w ?m (Suc n) key' j f" if f: "(M(key \<mapsto> (of_nat n, e))) key' = Some (j, f)" for key' j f
  proof (cases "key' = key")
    case True
    then show ?thesis
      using f e un A(3)[OF lt k(1)] by (auto simp: entity_at_def sl m1)
  next
    case False
    then have g: "M key' = Some (j, f)" using f by simp
    have k': "key' \<in> ekeys w" using store_repD(2)[OF s g] .
    show ?thesis
      using store_repD(5)[OF s g] False inj[OF k'] c[OF k'] ltM[OF g] A(1)[OF ltM(2)[OF g]] A(2)[OF k']
        A(3)[OF ltM(2)[OF g] k(1)] A(3)[OF lt k'] A(4)[OF ltM(2)[OF g] lt] A(5)[OF k' k(1)]
      by (simp add: entity_at_def sl m1)
  qed
  moreover have "codes ?m (entity_address key') = []"
    if "key' \<in> ekeys w" "(M(key \<mapsto> (of_nat n, e))) key' = None" for key'
    using store_repD(4)[OF s that(1)] inj[OF that(1)] that c[OF that(1)] by (simp split: if_splits)
  moreover have "slots ?m SYSTEM_ACCOUNT_ADDRESS (slot_id_to_addr H j) = zero_b256"
    if j: "unat j < max_ids w" "\<And>key' f. (M(key \<mapsto> (of_nat n, e))) key' \<noteq> Some (j, f)" for j
  proof -
    have "j \<noteq> of_nat n" using j(2)[of key e] by auto
    moreover have "M key' \<noteq> Some (j, f)" for key' f
      using j(2)[of key' f] k(2) by (cases "key' = key") auto
    ultimately show ?thesis
      using store_repD(6)[OF s j(1)] A(1)[OF j(1)] A(3)[OF j(1) k(1)] A(4)[OF j(1) lt]
      by (simp add: sl m1)
  qed
  moreover have "dom (M(key \<mapsto> (of_nat n, e))) \<subseteq> ekeys w" using s k by (auto simp: store_rep_def)
  moreover have "slots ?m SYSTEM_ACCOUNT_ADDRESS (slot_entity_count H) = u64_to_storage (of_nat (Suc n))"
    using A(1)[OF lt] A(2)[OF k(1)] by (simp add: sl m1 add.commute)
  ultimately have "store_rep H w ?m (M(key \<mapsto> (of_nat n, e))) (Suc n)"
    using n unfolding store_rep_def by simp
  then show ?thesis
    using A(6) A(7)[OF _ lt] A(8)[OF _ k(1)] by (simp add: keeps_others_def sl m1)
qed

lemma wp_create:
  assumes W: "db_world H w" and s: "db_rep H w m M n" and k: "key \<in> ekeys w" "M key = None"
    and n: "n < max_ids w" and ok: "entity_ok w (new_entity sender key ex b p ct attrs)"
  shows "wp (entitydb_create H mem_adapter sender key ex b p ct attrs) m (\<lambda>_ m'.
    db_rep H w m' (M(key \<mapsto> (of_nat n, new_entity sender key ex b p ct attrs))) (Suc n) \<and>
    keeps_others H w m m')"
proof -
  let ?e = "new_entity sender key ex b p ct attrs" and ?i = "of_nat n :: u64"
  have st: "store_rep H w m M n" and ix: "indexes H (pairs w) (tiered w) m (map_rel M)"
    using s by (simp_all add: db_rep_def)
  have IW: "index_world H (pairs w) (tiered w)" using W by (simp add: db_world_def)
  let ?m1 = "sys_write (sys_write (sys_write m (slot_entity_count H) (u64_to_storage (?i + 1)))
      (slot_id_to_addr H ?i) (address_to_storage (entity_address key)))
      (slot_addr_to_id H (entity_address key)) (u64_to_storage ?i)"
  have ix1: "indexes H (pairs w) (tiered w) ?m1 (map_rel M)"
    by (rule indexes_frame[OF ix]) simp
  have sub: "ann_pairs (entity_annotations ?e) \<subseteq> pairs w" "well_tiered (tiered w) (entity_annotations ?e)"
    using ok by (simp_all add: entity_ok_def entity_pairs_def)
  have "M(key := None) = M" using k(2) by auto
  then have rel: "map_rel M \<union> {?i} \<times> ann_pairs (entity_annotations ?e) = map_rel (M(key \<mapsto> (?i, ?e)))"
    by (simp add: map_rel_put entity_pairs_def)
  have "wp (insert_annotations H mem_adapter ?i (entity_annotations ?e)) ?m1 (\<lambda>_ m2.
      wp (ad_set_code mem_adapter (entity_address key) (encode_as_code H ?e)) m2 (\<lambda>_ m'.
        db_rep H w m' (M(key \<mapsto> (?i, ?e))) (Suc n) \<and> keeps_others H w m m'))"
  proof (rule wp_mono[OF wp_insert_annotations[OF IW ix1 sub, where e = ?i]], elim conjE)
    fix m2
    assume m2: "indexes H (pairs w) (tiered w) m2 (map_rel M \<union> {?i} \<times> ann_pairs (entity_annotations ?e))"
      "same_but_indexes H (pairs w) ?m1 m2"
    have "store_rep H w (m2\<lparr>codes := (codes m2)(entity_address key := encode_as_code H ?e)\<rparr>)
        (M(key \<mapsto> (?i, ?e))) (Suc n) \<and> keeps_others H w m m2"
      by (rule store_create[OF W st k n ok _ refl m2(2)]) (simp add: new_entity_def)
    then show "wp (ad_set_code mem_adapter (entity_address key) (encode_as_code H ?e)) m2 (\<lambda>_ m'.
        db_rep H w m' (M(key \<mapsto> (?i, ?e))) (Suc n) \<and> keeps_others H w m m')"
      using indexes_put[OF W k(1) m2(1)[unfolded rel]]
      by (simp add: wp_mem db_rep_def keeps_others_def)
  qed
  then show ?thesis
    unfolding entitydb_create_def Let_def wp_sbind wp_mem store_repD(3)[OF st]
    by (simp add: entity_annotations_def new_entity_def)
qed

end
