(* ===== verification/EntityHistory.thy ===== *)
theory EntityHistory
  imports EntityOps
begin

text \<open>
  Histories of database operations. \<open>spec_op\<close> is the abstract specification of one operation on
  the map from entity keys to entities; \<open>run_op\<close> is the handler of the crate. A history run by the
  crate on its in-memory state has the outcome the specification gives, and every read of the
  crate afterwards answers from the abstract map.
\<close>

subsection \<open>Operations and their specification\<close>

datatype db_op =
    OpCreate address b256 u64 u64 bytes bytes "attribute list"
  | OpUpdate b256 u64 bytes bytes "attribute list"
  | OpExtend b256 u64 u64
  | OpTransfer b256 u64 address
  | OpDelete b256
  | OpExpire b256

fun run_op :: "hostlib \<Rightarrow> 's state_adapter \<Rightarrow> db_op \<Rightarrow> ('s, db_error, unit) sm" where
  "run_op H A (OpCreate sender key ex b p ct attrs) = entitydb_create H A sender key ex b p ct attrs"
| "run_op H A (OpUpdate key b p ct attrs) = entitydb_update H A key b p ct attrs"
| "run_op H A (OpExtend key b x) = entitydb_extend H A key b x"
| "run_op H A (OpTransfer key b a) = entitydb_transfer H A key b a"
| "run_op H A (OpDelete key) = entitydb_delete H A key"
| "run_op H A (OpExpire key) = entitydb_expire H A key"

definition run_history :: "hostlib \<Rightarrow> 's state_adapter \<Rightarrow> db_op list \<Rightarrow> ('s, db_error, unit) sm" where
  "run_history H A ops = sfor (run_op H A) ops"

type_synonym spec_state = "entity_map \<times> nat"

definition at_key :: "b256 \<Rightarrow> (entity_rlp \<Rightarrow> entity_rlp) \<Rightarrow> spec_state \<Rightarrow> db_error + spec_state" where
  "at_key key f s =
     (case fst s key of
        None \<Rightarrow> Inl (NoEntity (entity_address key))
      | Some (i, e) \<Rightarrow> Inr ((fst s)(key \<mapsto> (i, f e)), snd s))"

definition drop_entity :: "b256 \<Rightarrow> spec_state \<Rightarrow> db_error + spec_state" where
  "drop_entity key s =
     (case fst s key of
        None \<Rightarrow> Inl (NoEntity (entity_address key))
      | Some _ \<Rightarrow> Inr ((fst s)(key := None), snd s))"

fun spec_op :: "db_op \<Rightarrow> spec_state \<Rightarrow> db_error + spec_state" where
  "spec_op (OpCreate sender key ex b p ct attrs) s =
     Inr ((fst s)(key \<mapsto> (of_nat (snd s), new_entity sender key ex b p ct attrs)), Suc (snd s))"
| "spec_op (OpUpdate key b p ct attrs) s =
     at_key key (\<lambda>e. e\<lparr>ent_payload := p, ent_content_type := ct, ent_attributes := attrs,
       ent_last_modified_at_block := b\<rparr>) s"
| "spec_op (OpExtend key b x) s =
     at_key key (\<lambda>e. e\<lparr>ent_expires_at := x, ent_last_modified_at_block := b\<rparr>) s"
| "spec_op (OpTransfer key b a) s =
     at_key key (\<lambda>e. e\<lparr>ent_owner := a, ent_last_modified_at_block := b\<rparr>) s"
| "spec_op (OpDelete key) s = drop_entity key s"
| "spec_op (OpExpire key) s = drop_entity key s"

fun spec_history :: "db_op list \<Rightarrow> spec_state \<Rightarrow> db_error + spec_state" where
  "spec_history [] s = Inr s"
| "spec_history (op # ops) s = (case spec_op op s of Inl e \<Rightarrow> Inl e | Inr s' \<Rightarrow> spec_history ops s')"

subsection \<open>Operations within a universe\<close>

fun db_op_key :: "db_op \<Rightarrow> b256" where
  "db_op_key (OpCreate sender key ex b p ct attrs) = key"
| "db_op_key (OpUpdate key b p ct attrs) = key"
| "db_op_key (OpExtend key b x) = key"
| "db_op_key (OpTransfer key b a) = key"
| "db_op_key (OpDelete key) = key"
| "db_op_key (OpExpire key) = key"

fun op_annotations :: "db_op \<Rightarrow> annotation list" where
  "op_annotations (OpCreate sender key ex b p ct attrs) =
     entity_annotations (new_entity sender key ex b p ct attrs)"
| "op_annotations (OpUpdate key b p ct attrs) = updatable_annotations ct attrs"
| "op_annotations (OpExtend key b x) = [annot ANNOT_EXPIRATION (u64_be x) True]"
| "op_annotations (OpTransfer key b a) = [annot ANNOT_OWNER a False]"
| "op_annotations _ = []"

fun op_arguments_ok :: "db_op \<Rightarrow> bool" where
  "op_arguments_ok (OpCreate sender key ex b p ct attrs) \<longleftrightarrow>
     length sender = 20 \<and> length key = 32 \<and> user_keys_ok attrs"
| "op_arguments_ok (OpUpdate key b p ct attrs) \<longleftrightarrow> user_keys_ok attrs"
| "op_arguments_ok (OpTransfer key b a) \<longleftrightarrow> length a = 20"
| "op_arguments_ok _ \<longleftrightarrow> True"

definition op_ok :: "universe \<Rightarrow> db_op \<Rightarrow> bool" where
  "op_ok w op \<longleftrightarrow> db_op_key op \<in> ekeys w \<and> ann_pairs (op_annotations op) \<subseteq> pairs w \<and>
     well_tiered (tiered w) (op_annotations op) \<and> op_arguments_ok op"

fun created :: "db_op \<Rightarrow> b256 list" where
  "created (OpCreate sender key ex b p ct attrs) = [key]"
| "created _ = []"

definition created_keys :: "db_op list \<Rightarrow> b256 list" where
  "created_keys ops = concat (map created ops)"

lemma entity_ok_updates:
  assumes e: "entity_ok w e" "ent_key e = key"
  shows "op_ok w (OpUpdate key b p ct attrs) \<Longrightarrow> entity_ok w (e\<lparr>ent_payload := p,
      ent_content_type := ct, ent_attributes := attrs, ent_last_modified_at_block := b\<rparr>)"
    "op_ok w (OpExtend key b x) \<Longrightarrow> entity_ok w (e\<lparr>ent_expires_at := x, ent_last_modified_at_block := b\<rparr>)"
    "op_ok w (OpTransfer key b a) \<Longrightarrow> entity_ok w (e\<lparr>ent_owner := a, ent_last_modified_at_block := b\<rparr>)"
  using e by (auto simp: entity_ok_def op_ok_def entity_pairs_def entity_annotations_def
      built_in_annotations_def updatable_annotations_def wf_entity_def encode_address_def
      encode_u64_be_def)

lemma entity_ok_new:
  "op_ok w (OpCreate sender key ex b p ct attrs) \<Longrightarrow> entity_ok w (new_entity sender key ex b p ct attrs)"
  by (auto simp: entity_ok_def op_ok_def entity_pairs_def wf_entity_def new_entity_def)

subsection \<open>One operation\<close>

definition fresh_creates :: "db_op list \<Rightarrow> entity_map \<Rightarrow> bool" where
  "fresh_creates ops M \<longleftrightarrow> distinct (created_keys ops) \<and> set (created_keys ops) \<inter> dom M = {}"

lemma run_op_ok:
  assumes W: "db_world H w" and s: "db_rep H w m M n" and op: "op_ok w op"
    and new: "set (created op) \<inter> dom M = {}" "n + length (created op) \<le> max_ids w"
  shows "case spec_op op (M, n) of
      Inl e \<Rightarrow> run_op H mem_adapter op m = Inl e
    | Inr (M', n') \<Rightarrow> wp (run_op H mem_adapter op) m (\<lambda>_ m'. db_rep H w m' M' n' \<and> keeps_others H w m m')"
proof -
  have st: "store_rep H w m M n" using s by (simp add: db_rep_def)
  have E: "entity_ok w e" "ent_key e = key" if "M key = Some (i, e)" for key i e
    using store_repD(5)[OF st that] by (simp_all add: entity_at_def)
  have k: "db_op_key op \<in> ekeys w" using op by (simp add: op_ok_def)
  show ?thesis
  proof (cases op)
    case (OpCreate sender key ex b p ct attrs)
    then have "M key = None" "n < max_ids w" "key \<in> ekeys w" using new k
      by (cases "M key"; auto simp: domIff)+
    then show ?thesis
      using wp_create[OF W s _ _ _ entity_ok_new] op OpCreate by simp
  next
    case (OpUpdate key b p ct attrs)
    then show ?thesis
      using wp_update[OF W s] entity_ok_updates(1)[OF E] op missing_fails(1)[OF st] k
      by (auto simp: at_key_def split: option.split)
  next
    case (OpExtend key b x)
    then show ?thesis
      using wp_extend[OF W s] entity_ok_updates(2)[OF E] op missing_fails(2)[OF st] k
      by (auto simp: at_key_def split: option.split)
  next
    case (OpTransfer key b a)
    then show ?thesis
      using wp_transfer[OF W s] entity_ok_updates(3)[OF E] op missing_fails(3)[OF st] k
      by (auto simp: at_key_def split: option.split)
  next
    case (OpDelete key)
    then show ?thesis
      using wp_delete[OF W s] missing_fails(4)[OF st] k by (auto simp: drop_entity_def split: option.split)
  next
    case (OpExpire key)
    then show ?thesis
      using wp_delete[OF W s] missing_fails(4)[OF st] k
      by (auto simp: drop_entity_def entitydb_expire_def split: option.split)
  qed
qed

lemma spec_op_dom:
  "spec_op op (M, n) = Inr (M', n') \<Longrightarrow> dom M' \<subseteq> dom M \<union> set (created op) \<and> n' = n + length (created op)"
  by (cases op) (auto simp: at_key_def drop_entity_def split: option.splits if_splits)

subsection \<open>Histories\<close>

lemma run_history_ok:
  assumes W: "db_world H w" and s: "db_rep H w m M n" and ops: "\<And>op. op \<in> set ops \<Longrightarrow> op_ok w op"
    and new: "fresh_creates ops M" "n + length (created_keys ops) \<le> max_ids w"
  shows "case spec_history ops (M, n) of
      Inl e \<Rightarrow> run_history H mem_adapter ops m = Inl e
    | Inr (M', n') \<Rightarrow> wp (run_history H mem_adapter ops) m (\<lambda>_ m'. db_rep H w m' M' n' \<and> keeps_others H w m m')"
  using s ops new
proof (induction ops arbitrary: m M n)
  case Nil
  then show ?case by (simp add: run_history_def wp_simps keeps_others_def)
next
  case (Cons op ops)
  have c: "created_keys (op # ops) = created op @ created_keys ops" by (simp add: created_keys_def)
  have new: "set (created op) \<inter> dom M = {}" "n + length (created op) \<le> max_ids w"
    using Cons.prems(3,4) by (auto simp: fresh_creates_def c)
  note step = run_op_ok[OF W Cons.prems(1) Cons.prems(2)[of op] new]
  show ?case
  proof (cases "spec_op op (M, n)")
    case (Inl e)
    then show ?thesis using step by (simp add: run_history_def sbind_def)
  next
    case (Inr s')
    obtain M1 n1 where s': "s' = (M1, n1)" by (cases s')
    then have sp: "spec_op op (M, n) = Inr (M1, n1)" using Inr by simp
    from step sp obtain m1 where m1: "run_op H mem_adapter op m = Inr ((), m1)" "db_rep H w m1 M1 n1"
      "keeps_others H w m m1" by (auto simp: wp_iff)
    have "fresh_creates ops M1" "n1 + length (created_keys ops) \<le> max_ids w"
      using Cons.prems(3,4) spec_op_dom[OF sp] by (auto simp: fresh_creates_def c)
    note IH = Cons.IH[OF m1(2) Cons.prems(2) this]
    have run: "run_history H mem_adapter (op # ops) m = run_history H mem_adapter ops m1"
      using m1(1) by (simp add: run_history_def sbind_def)
    show ?thesis
      using IH m1(3) sp keeps_trans unfolding wp_def run by (fastforce split: sum.splits)
  qed
qed

context adapter_laws
begin

lemma sim_run_op: "sim (run_op H A op) (run_op H mem_adapter op)"
  by (cases op) (simp_all add: sim_intros)

lemma sim_history: "sim (run_history H A ops) (run_history H mem_adapter ops)"
  unfolding run_history_def by (rule sim_sfor) (rule sim_run_op)

end

subsection \<open>What the reads answer\<close>

definition matching_ids :: "entity_map \<Rightarrow> (entity_rlp \<Rightarrow> bool) \<Rightarrow> u64 set" where
  "matching_ids M P = {i. \<exists>key e. M key = Some (i, e) \<and> P e}"

definition used_values :: "universe \<Rightarrow> entity_map \<Rightarrow> bytes \<Rightarrow> bytes set" where
  "used_values w M k = {v. tiered w k v \<and> matching_ids M (\<lambda>e. (k, v) \<in> entity_pairs e) \<noteq> {}}"

lemma map_rel_ids: "ids_of (map_rel M) k v = matching_ids M (\<lambda>e. (k, v) \<in> entity_pairs e)"
  by (auto simp: ids_of_def map_rel_def matching_ids_def)

lemma map_rel_values: "values_of (tiered w) (map_rel M) k = used_values w M k"
  by (simp add: values_of_def used_values_def map_rel_ids)

text \<open>
  \<open>answers H A w s M\<close>: in the state \<open>s\<close>, the reads of the crate through the adapter \<open>A\<close> answer
  from \<open>M\<close>: the bitmap of a pair holds the ids of the entities with that annotation, the tree of
  a key lists in ascending order the values of that key in use, and keys and ids lead to the
  entities.
\<close>

definition answers :: "hostlib \<Rightarrow> 's state_adapter \<Rightarrow> universe \<Rightarrow> 's \<Rightarrow> entity_map \<Rightarrow> bool" where
  "answers H A w s M \<longleftrightarrow>
     (\<forall>k v. (k, v) \<in> pairs w \<longrightarrow> wp (read_pair_bitmap H A k v) s
        (\<lambda>b _. b = matching_ids M (\<lambda>e. (k, v) \<in> entity_pairs e))) \<and>
     (\<forall>k v. (k, v) \<in> pairs w \<longrightarrow> wp (read_index_tree H A k) s
        (\<lambda>t _. collect_all [] (root t) = Some (sorted_list_of_set (used_values w M k)))) \<and>
     (\<forall>key i e. M key = Some (i, e) \<longrightarrow> ent_key e = key \<and>
        wp (read_entity H A (entity_address key)) s (\<lambda>e' _. e' = e) \<and>
        wp (resolve_id H A i) s (\<lambda>r _. r = Some e)) \<and>
     (\<forall>key \<in> ekeys w. M key = None \<longrightarrow>
        read_entity H A (entity_address key) s = Inl (NoEntity (entity_address key))) \<and>
     (\<forall>i. unat i < max_ids w \<longrightarrow> (\<forall>key e. M key \<noteq> Some (i, e)) \<longrightarrow>
        wp (resolve_id H A i) s (\<lambda>r _. r = None))"

lemma answers_bitmap:
  "answers H A w s M \<Longrightarrow> (k, v) \<in> pairs w \<Longrightarrow>
    wp (read_pair_bitmap H A k v) s (\<lambda>b _. b = matching_ids M (\<lambda>e. (k, v) \<in> entity_pairs e))"
  unfolding answers_def by blast

lemma wp_read_used_tree:
  assumes s: "db_rep H w m M n" and u: "(k, v) \<in> pairs w"
    and Q: "\<And>t. collect_all [] (root t) = Some (sorted_list_of_set (used_values w M k)) \<Longrightarrow> Q t m"
  shows "wp (read_index_tree H mem_adapter k) m Q"
proof (rule wp_read_tree)
  show "tree_code {v. (k, v) \<in> pairs w \<and> tiered w k v} (codes m (index_address H k))
      (used_values w M k)"
    using indexesD(3)[of H "pairs w" "tiered w" m "map_rel M", OF _ u] s
    by (simp add: db_rep_def map_rel_values)
  show "Q t m" if "tree_rep {v. (k, v) \<in> pairs w \<and> tiered w k v} t (used_values w M k)" for t
    using Q tree_rep_scan(1)[OF that] .
qed

lemma wp_resolve:
  assumes W: "db_world H w" and s: "store_rep H w m M n" and M: "M key = Some (i, e)"
  shows "wp (resolve_id H mem_adapter i) m Q = Q (Some e) m"
proof -
  have "entity_address key \<noteq> zero_address" using W store_repD(2)[OF s M] by (simp add: db_world_def)
  then show ?thesis
    using store_repD(5)[OF s M] decode_encode[OF W, of e]
    by (simp add: resolve_id_def wp_simps entity_at_def entity_ok_def address_to_storage_zero)
qed

lemma answers_mem:
  assumes W: "db_world H w" and s: "db_rep H w m M n"
  shows "answers H mem_adapter w m M"
proof -
  have st: "store_rep H w m M n" and ix: "indexes H (pairs w) (tiered w) m (map_rel M)"
    and IW: "index_world H (pairs w) (tiered w)"
    using s W by (simp_all add: db_rep_def db_world_def)
  show ?thesis
    unfolding answers_def
  proof (intro conjI allI impI ballI)
    fix key i e assume M: "M key = Some (i, e)"
    show "ent_key e = key" using store_repD(5)[OF st M] by (simp add: entity_at_def)
    show "wp (read_entity H mem_adapter (entity_address key)) m (\<lambda>e' _. e' = e)"
      by (simp add: wp_read_entity[OF W st M])
    show "wp (resolve_id H mem_adapter i) m (\<lambda>r _. r = Some e)"
      by (simp add: wp_resolve[OF W st M])
  next
    fix key assume "key \<in> ekeys w" "M key = None"
    then show "read_entity H mem_adapter (entity_address key) m = Inl (NoEntity (entity_address key))"
      using read_missing(2)[OF st] by blast
  next
    fix k v assume u: "(k, v) \<in> pairs w"
    show "wp (read_pair_bitmap H mem_adapter k v) m
        (\<lambda>b _. b = matching_ids M (\<lambda>e. (k, v) \<in> entity_pairs e))"
      by (simp add: wp_read_bitmap[OF IW ix u] map_rel_ids)
    show "wp (read_index_tree H mem_adapter k) m
        (\<lambda>t _. collect_all [] (root t) = Some (sorted_list_of_set (used_values w M k)))"
      by (rule wp_read_used_tree[OF s u])
  next
    fix i assume "unat i < max_ids w" "\<forall>key e. M key \<noteq> Some (i, e)"
    then show "wp (resolve_id H mem_adapter i) m (\<lambda>r _. r = None)"
      using store_repD(6)[OF st] by (simp add: resolve_id_def wp_simps)
  qed
qed

context reader_laws
begin

lemma answers_view:
  assumes a: "answers H mem_adapter w (view s) M" and s: "ok s"
  shows "answers H A w s M"
  unfolding answers_def
proof (intro conjI allI impI ballI)
  fix key i e assume M: "M key = Some (i, e)"
  then show "ent_key e = key" using a by (simp add: answers_def)
  show "wp (read_entity H A (entity_address key)) s (\<lambda>e' _. e' = e)"
    by (rule sim_result[OF sim_readers(7) s]) (use a M in \<open>simp add: answers_def\<close>)
  show "wp (resolve_id H A i) s (\<lambda>r _. r = Some e)"
    by (rule sim_result[OF sim_readers(6) s]) (use a M in \<open>simp add: answers_def\<close>)
next
  fix key assume k: "key \<in> ekeys w" "M key = None"
  show "read_entity H A (entity_address key) s = Inl (NoEntity (entity_address key))"
    by (rule sim_Inl[OF sim_readers(7) s]) (use a k in \<open>simp add: answers_def\<close>)
next
  fix k v assume u: "(k, v) \<in> pairs w"
  show "wp (read_pair_bitmap H A k v) s (\<lambda>b _. b = matching_ids M (\<lambda>e. (k, v) \<in> entity_pairs e))"
    by (rule sim_result[OF sim_readers(3) s]) (use a u in \<open>simp add: answers_def\<close>)
  show "wp (read_index_tree H A k) s
      (\<lambda>t _. collect_all [] (root t) = Some (sorted_list_of_set (used_values w M k)))"
    by (rule sim_result[OF sim_readers(5) s]) (use a u in \<open>unfold answers_def, blast\<close>)
next
  fix i assume i: "unat i < max_ids w" "\<forall>key e. M key \<noteq> Some (i, e)"
  show "wp (resolve_id H A i) s (\<lambda>r _. r = None)"
    by (rule sim_result[OF sim_readers(6) s]) (use a i in \<open>simp add: answers_def\<close>)
qed

end

lemma history_rep:
  assumes "db_world H w" "\<And>op. op \<in> set ops \<Longrightarrow> op_ok w op"
    and "distinct (created_keys ops)" "length (created_keys ops) \<le> max_ids w"
  shows "case spec_history ops (Map.empty, 0) of
      Inl e \<Rightarrow> run_history H in_memory_adapter ops Map.empty = Inl e
    | Inr (M, n) \<Rightarrow> \<exists>db. run_history H in_memory_adapter ops Map.empty = Inr ((), db) \<and>
        db_rep H w (db_view db) M n"
proof -
  have run: "case spec_history ops (Map.empty, 0) of
      Inl e \<Rightarrow> run_history H mem_adapter ops (db_view Map.empty) = Inl e
    | Inr (M, n) \<Rightarrow> wp (run_history H mem_adapter ops) (db_view Map.empty)
        (\<lambda>_ m. db_rep H w m M n \<and> keeps_others H w empty_mem m)"
    using run_history_ok[OF assms(1) db_rep_empty assms(2), of ops] assms(3,4)
    by (simp only: db_view_empty fresh_creates_def) simp
  show ?thesis
  proof (cases "spec_history ops (Map.empty, 0)")
    case (Inl e)
    then show ?thesis using run db.sim_Inl[OF db.sim_history TrueI] by simp
  next
    case (Inr s)
    obtain M n where s: "s = (M, n)" by (cases s)
    have "wp (run_history H mem_adapter ops) (db_view Map.empty) (\<lambda>_ m. db_rep H w m M n)"
      using run Inr s by (auto elim: wp_mono)
    from db.sim_wp[OF db.sim_history TrueI this]
    show ?thesis using Inr s by (auto simp: wp_iff)
  qed
qed


end
