(* ===== verification/Parser.thy ===== *)
theory Parser
  imports Lexer
begin

text \<open>
  The recursive-descent parser of \<open>crates/arkiv-entitydb/src/query/parser.rs\<close>. The parser state
  is the list of tokens still to read; every function returns its result with the rest, or the
  error of the \<open>bail!\<close> it ran into. Literals are encoded to the bytes of the pair account when
  they are parsed, as in the source.
\<close>

datatype builtin = Owner | Creator | Key | Expiration | ContentType | CreatedAtBlock

datatype annot_key = BuiltIn builtin | User ustring

type_synonym annot_val = bytes

datatype query =
    QAll
  | QEq annot_key annot_val
  | QNeq annot_key annot_val
  | QIn annot_key "annot_val list"
  | QNotIn annot_key "annot_val list"
  | QGt annot_key annot_val
  | QGte annot_key annot_val
  | QLt annot_key annot_val
  | QLte annot_key annot_val
  | QGlob annot_key annot_val
  | QNotGlob annot_key annot_val
  | QAnd query query
  | QOr query query
  | QNot query

fun pair_key :: "builtin \<Rightarrow> bytes" where
  "pair_key Owner = utf8 (ascii ''$owner'')"
| "pair_key Creator = utf8 (ascii ''$creator'')"
| "pair_key Key = utf8 (ascii ''$key'')"
| "pair_key Expiration = utf8 (ascii ''$expiration'')"
| "pair_key ContentType = utf8 (ascii ''$contentType'')"
| "pair_key CreatedAtBlock = utf8 (ascii ''$createdAtBlock'')"

fun pair_key_bytes :: "annot_key \<Rightarrow> bytes" where
  "pair_key_bytes (BuiltIn b) = pair_key b"
| "pair_key_bytes (User s) = utf8 s"

datatype literal = LNumber u64 | LString ustring | LAddress bytes | LEntityKey bytes

datatype parse_error =
    Expected token "token option"
  | AfterAll token
  | EndOfInput token
  | NoOperator "token option"
  | RangeOnAddress
  | RangeOnEntityKey
  | GlobOnBuiltIn builtin
  | GlobNotString
  | GlobNoStar ustring
  | GlobInnerStar ustring
  | NoKey "token option"
  | EmptyList
  | NoLiteral "token option"
  | BadLiteral builtin literal
  | KeyNoPrefix ustring
  | KeyLength ustring nat
  | KeyHex ustring

subsection \<open>Literals\<close>

definition decode_entity_key_string :: "lexenv \<Rightarrow> ustring \<Rightarrow> parse_error + bytes" where
  "decode_entity_key_string env s =
     (if take 2 s = ascii ''0x'' \<or> take 2 s = ascii ''0X'' then
        let stripped = drop 2 s
        in if length (utf8 stripped) \<noteq> 64 then Inl (KeyLength s (length (utf8 stripped)))
           else (case hex_decode env stripped of None \<Rightarrow> Inl (KeyHex s) | Some b \<Rightarrow> Inr b)
      else Inl (KeyNoPrefix s))"

fun encode_for_key :: "lexenv \<Rightarrow> annot_key \<Rightarrow> literal \<Rightarrow> parse_error + annot_val" where
  "encode_for_key env (BuiltIn Owner) (LAddress a) = Inr a"
| "encode_for_key env (BuiltIn Creator) (LAddress a) = Inr a"
| "encode_for_key env (BuiltIn Key) (LEntityKey b) = Inr b"
| "encode_for_key env (BuiltIn Key) (LString s) = decode_entity_key_string env s"
| "encode_for_key env (BuiltIn Expiration) (LNumber n) = Inr (u64_be n)"
| "encode_for_key env (BuiltIn CreatedAtBlock) (LNumber n) = Inr (u64_be n)"
| "encode_for_key env (BuiltIn ContentType) (LString s) = Inr (utf8 s)"
| "encode_for_key env (BuiltIn b) l = Inl (BadLiteral b l)"
| "encode_for_key env (User _) (LNumber n) = Inr (replicate 24 0 @ u64_be n)"
| "encode_for_key env (User _) (LString s) = Inr (utf8 s)"
| "encode_for_key env (User _) (LAddress a) = Inr a"
| "encode_for_key env (User _) (LEntityKey b) = Inr b"

type_synonym 'a parser = "token list \<Rightarrow> parse_error + 'a \<times> token list"

fun expect_tok :: "token \<Rightarrow> unit parser" where
  "expect_tok t [] = Inl (Expected t None)"
| "expect_tok t (u # ts) = (if u = t then Inr ((), ts) else Inl (Expected t (Some u)))"

fun parse_literal :: "literal parser" where
  "parse_literal (TNumber n # ts) = Inr (LNumber n, ts)"
| "parse_literal (TStringLit s # ts) = Inr (LString s, ts)"
| "parse_literal (TAddress a # ts) = Inr (LAddress a, ts)"
| "parse_literal (TEntityKey b # ts) = Inr (LEntityKey b, ts)"
| "parse_literal (t # ts) = Inl (NoLiteral (Some t))"
| "parse_literal [] = Inl (NoLiteral None)"

definition parse_value :: "lexenv \<Rightarrow> annot_key \<Rightarrow> annot_val parser" where
  "parse_value env key ts =
     (case parse_literal ts of
        Inl e \<Rightarrow> Inl e
      | Inr (lit, r) \<Rightarrow>
          (case encode_for_key env key lit of Inl e \<Rightarrow> Inl e | Inr v \<Rightarrow> Inr (v, r)))"

fun parse_annot_key :: "annot_key parser" where
  "parse_annot_key (TDollarOwner # ts) = Inr (BuiltIn Owner, ts)"
| "parse_annot_key (TDollarCreator # ts) = Inr (BuiltIn Creator, ts)"
| "parse_annot_key (TDollarKey # ts) = Inr (BuiltIn Key, ts)"
| "parse_annot_key (TDollarExpiration # ts) = Inr (BuiltIn Expiration, ts)"
| "parse_annot_key (TDollarContentType # ts) = Inr (BuiltIn ContentType, ts)"
| "parse_annot_key (TDollarCreatedAtBlock # ts) = Inr (BuiltIn CreatedAtBlock, ts)"
| "parse_annot_key (TIdent s # ts) = Inr (User s, ts)"
| "parse_annot_key (t # ts) = Inl (NoKey (Some t))"
| "parse_annot_key [] = Inl (NoKey None)"

text \<open>The values up to the closing parenthesis, and then the non-empty list between parentheses.\<close>

lemma parse_literal_length: "parse_literal ts = Inr (l, r) \<Longrightarrow> length r < length ts"
  by (cases ts rule: parse_literal.cases) auto

lemma parse_value_length: "parse_value env key ts = Inr (v, r) \<Longrightarrow> length r < length ts"
  by (auto simp: parse_value_def split: sum.splits dest: parse_literal_length)

function parse_values :: "lexenv \<Rightarrow> annot_key \<Rightarrow> annot_val list parser" where
  "parse_values env key ts =
     (if ts \<noteq> [] \<and> hd ts = TRParen then Inr ([], ts)
      else
        (case parse_value env key ts of
           Inl e \<Rightarrow> Inl e
         | Inr (v, r) \<Rightarrow>
             (case parse_values env key r of
                Inl e \<Rightarrow> Inl e
              | Inr (vs, r') \<Rightarrow> Inr (v # vs, r'))))"
  by pat_completeness auto
termination
  by (relation "measure (\<lambda>(env, key, ts). length ts)") (auto dest: parse_value_length)

declare parse_values.simps [simp del]

definition parse_value_list :: "lexenv \<Rightarrow> annot_key \<Rightarrow> annot_val list parser" where
  "parse_value_list env key ts =
     (case expect_tok TLParen ts of
        Inl e \<Rightarrow> Inl e
      | Inr (_, r) \<Rightarrow>
          (case parse_values env key r of
             Inl e \<Rightarrow> Inl e
           | Inr (vs, r') \<Rightarrow>
               (case expect_tok TRParen r' of
                  Inl e \<Rightarrow> Inl e
                | Inr (_, r'') \<Rightarrow> if vs = [] then Inl EmptyList else Inr (vs, r''))))"

definition reject_range :: "token list \<Rightarrow> parse_error + unit" where
  "reject_range ts =
     (case ts of
        TAddress _ # _ \<Rightarrow> Inl RangeOnAddress
      | TEntityKey _ # _ \<Rightarrow> Inl RangeOnEntityKey
      | _ \<Rightarrow> Inr ())"

definition glob_key :: "annot_key \<Rightarrow> parse_error + unit" where
  "glob_key key =
     (case key of
        BuiltIn ContentType \<Rightarrow> Inr ()
      | User _ \<Rightarrow> Inr ()
      | BuiltIn b \<Rightarrow> Inl (GlobOnBuiltIn b))"

definition glob_prefix :: "ustring \<Rightarrow> parse_error + annot_val" where
  "glob_prefix s =
     (if s = [] \<or> last s \<noteq> 0x2A then Inl (GlobNoStar s)
      else if 0x2A \<in> set (butlast s) then Inl (GlobInnerStar s)
      else Inr (utf8 (butlast s)))"

definition parse_glob_pattern :: "annot_key \<Rightarrow> annot_val parser" where
  "parse_glob_pattern key ts =
     (case glob_key key of
        Inl e \<Rightarrow> Inl e
      | Inr () \<Rightarrow>
          (case parse_literal ts of
             Inl e \<Rightarrow> Inl e
           | Inr (LString s, r) \<Rightarrow>
               (case glob_prefix s of Inl e \<Rightarrow> Inl e | Inr v \<Rightarrow> Inr (v, r))
           | Inr _ \<Rightarrow> Inl GlobNotString))"

definition parse_range :: "lexenv \<Rightarrow> annot_key \<Rightarrow> (annot_key \<Rightarrow> annot_val \<Rightarrow> query) \<Rightarrow> query parser" where
  "parse_range env key mk ts =
     (case reject_range ts of
        Inl e \<Rightarrow> Inl e
      | Inr () \<Rightarrow> map_sum id (\<lambda>(v, r). (mk key v, r)) (parse_value env key ts))"

definition parse_predicate :: "lexenv \<Rightarrow> query parser" where
  "parse_predicate env ts =
     (case parse_annot_key ts of
        Inl e \<Rightarrow> Inl e
      | Inr (key, ops) \<Rightarrow>
          (case ops of
             TEq # r \<Rightarrow> map_sum id (\<lambda>(v, r). (QEq key v, r)) (parse_value env key r)
           | TNeq # r \<Rightarrow> map_sum id (\<lambda>(v, r). (QNeq key v, r)) (parse_value env key r)
           | TNot # r \<Rightarrow>
               (case expect_tok TIn r of
                  Inl e \<Rightarrow> Inl e
                | Inr (_, r') \<Rightarrow> map_sum id (\<lambda>(vs, r). (QNotIn key vs, r)) (parse_value_list env key r'))
           | TIn # r \<Rightarrow> map_sum id (\<lambda>(vs, r). (QIn key vs, r)) (parse_value_list env key r)
           | TGt # r \<Rightarrow> parse_range env key QGt r
           | TGte # r \<Rightarrow> parse_range env key QGte r
           | TLt # r \<Rightarrow> parse_range env key QLt r
           | TLte # r \<Rightarrow> parse_range env key QLte r
           | TTilde # r \<Rightarrow> map_sum id (\<lambda>(v, r). (QGlob key v, r)) (parse_glob_pattern key r)
           | TNotTilde # r \<Rightarrow> map_sum id (\<lambda>(v, r). (QNotGlob key v, r)) (parse_glob_pattern key r)
           | t # _ \<Rightarrow> Inl (NoOperator (Some t))
           | [] \<Rightarrow> Inl (NoOperator None)))"

subsection \<open>Expressions\<close>

text \<open>The \<open>while\<close> loops of \<open>parse_or\<close> and \<open>parse_and\<close> are \<open>or_loop\<close> and \<open>and_loop\<close>.\<close>

definition peek :: "token list \<Rightarrow> token option" where
  "peek ts = (case ts of [] \<Rightarrow> None | t # _ \<Rightarrow> Some t)"

function parse_or :: "lexenv \<Rightarrow> query parser"
  and or_loop :: "lexenv \<Rightarrow> query \<Rightarrow> query parser"
  and parse_and :: "lexenv \<Rightarrow> query parser"
  and and_loop :: "lexenv \<Rightarrow> query \<Rightarrow> query parser"
  and parse_term :: "lexenv \<Rightarrow> query parser" where
  "parse_or env ts =
     (case parse_and env ts of Inl e \<Rightarrow> Inl e | Inr (q, r) \<Rightarrow> or_loop env q r)"
| "or_loop env q ts =
     (if peek ts = Some TOr then
        (case parse_and env (tl ts) of Inl e \<Rightarrow> Inl e | Inr (rhs, r) \<Rightarrow> or_loop env (QOr q rhs) r)
      else Inr (q, ts))"
| "parse_and env ts =
     (case parse_term env ts of Inl e \<Rightarrow> Inl e | Inr (q, r) \<Rightarrow> and_loop env q r)"
| "and_loop env q ts =
     (if peek ts = Some TAnd then
        (case parse_term env (tl ts) of Inl e \<Rightarrow> Inl e | Inr (rhs, r) \<Rightarrow> and_loop env (QAnd q rhs) r)
      else Inr (q, ts))"
| "parse_term env ts =
     (if peek ts = Some TNot then
        (case expect_tok TLParen (tl ts) of
           Inl e \<Rightarrow> Inl e
         | Inr (_, r) \<Rightarrow>
             (case parse_or env r of
                Inl e \<Rightarrow> Inl e
              | Inr (inner, r') \<Rightarrow>
                  (case expect_tok TRParen r' of Inl e \<Rightarrow> Inl e | Inr (_, r'') \<Rightarrow> Inr (QNot inner, r''))))
      else if peek ts = Some TLParen then
        (case parse_or env (tl ts) of
           Inl e \<Rightarrow> Inl e
         | Inr (inner, r) \<Rightarrow>
             (case expect_tok TRParen r of Inl e \<Rightarrow> Inl e | Inr (_, r') \<Rightarrow> Inr (inner, r')))
      else parse_predicate env ts)"
  by pat_completeness auto

lemma expect_length: "expect_tok t ts = Inr (u, r) \<Longrightarrow> length r < length ts"
  by (cases ts) (auto split: if_splits)

lemma parse_values_length: "parse_values env key ts = Inr (vs, r) \<Longrightarrow> length r \<le> length ts"
proof (induction env key ts arbitrary: vs rule: parse_values.induct)
  case (1 env key ts)
  show ?case
  proof (cases "ts \<noteq> [] \<and> hd ts = TRParen")
    case True
    then show ?thesis using "1.prems" by (simp add: parse_values.simps[of env key ts])
  next
    case False
    then obtain v r' vs' where v: "parse_value env key ts = Inr (v, r')" "parse_values env key r' = Inr (vs', r)"
      using "1.prems" by (auto simp: parse_values.simps[of env key ts] split: sum.splits)
    then show ?thesis using "1.IH"[OF False v(1) refl v(2)] parse_value_length[OF v(1)] by simp
  qed
qed

lemma parse_value_list_length: "parse_value_list env key ts = Inr (vs, r) \<Longrightarrow> length r < length ts"
  by (fastforce simp: parse_value_list_def split: sum.splits if_splits
      dest: expect_length parse_values_length)

lemma parse_key_length: "parse_annot_key ts = Inr (k, r) \<Longrightarrow> length r < length ts"
  by (cases ts rule: parse_annot_key.cases) auto

lemma parse_glob_length: "parse_glob_pattern key ts = Inr (v, r) \<Longrightarrow> length r < length ts"
  by (auto simp: parse_glob_pattern_def split: sum.splits literal.splits unit.splits
      dest: parse_literal_length)

lemma parse_range_length: "parse_range env key mk ts = Inr (q, r) \<Longrightarrow> length r < length ts"
  by (auto simp: parse_range_def map_sum_def split: sum.splits unit.splits dest: parse_value_length)

lemma parse_predicate_length:
  assumes "parse_predicate env ts = Inr (q, r)"
  shows "length r < length ts"
proof -
  obtain key ops where k: "parse_annot_key ts = Inr (key, ops)"
    using assms by (auto simp: parse_predicate_def split: sum.splits)
  obtain t s where ops: "ops = t # s"
    using assms k by (cases ops) (auto simp: parse_predicate_def)
  have "length r < length ops"
    using assms k unfolding ops
    by (cases t) (auto simp: parse_predicate_def map_sum_def split: sum.splits
        dest!: expect_length parse_value_length parse_value_list_length parse_glob_length parse_range_length)
  with parse_key_length[OF k] show ?thesis by simp
qed

lemma peek_Some: "peek ts = Some t \<longleftrightarrow> (\<exists>r. ts = t # r)"
  by (cases ts) (auto simp: peek_def)

lemma peek_tl: "peek ts = Some t \<Longrightarrow> length (tl ts) < length ts"
  by (cases ts) (auto simp: peek_def)

abbreviation "expr_dom \<equiv> parse_or_or_loop_parse_and_and_loop_parse_term_dom"

lemma expr_length:
  "expr_dom (Inl (Inl (env, ts))) \<Longrightarrow> (\<And>q r. parse_or env ts = Inr (q, r) \<Longrightarrow> length r < length ts)"
  "expr_dom (Inl (Inr (env, q0, ts2))) \<Longrightarrow> (\<And>q r. or_loop env q0 ts2 = Inr (q, r) \<Longrightarrow> length r \<le> length ts2)"
  "expr_dom (Inr (Inl (env, ts3))) \<Longrightarrow> (\<And>q r. parse_and env ts3 = Inr (q, r) \<Longrightarrow> length r < length ts3)"
  "expr_dom (Inr (Inr (Inl (env, q1, ts4)))) \<Longrightarrow>
    (\<And>q r. and_loop env q1 ts4 = Inr (q, r) \<Longrightarrow> length r \<le> length ts4)"
  "expr_dom (Inr (Inr (Inr (env, ts5)))) \<Longrightarrow>
    (\<And>q r. parse_term env ts5 = Inr (q, r) \<Longrightarrow> length r < length ts5)"
proof (induction env ts and env q0 ts2 and env ts3 and env q1 ts4 and env ts5
    rule: parse_or_or_loop_parse_and_and_loop_parse_term.pinduct)
  case (1 env ts)
  then show ?case by (fastforce simp: parse_or.psimps split: sum.splits)
next
  case (2 env q ts)
  then show ?case
    by (fastforce simp: or_loop.psimps split: sum.splits if_splits dest: peek_tl)
next
  case (3 env ts)
  then show ?case by (fastforce simp: parse_and.psimps split: sum.splits)
next
  case (4 env q ts)
  then show ?case
    by (fastforce simp: and_loop.psimps split: sum.splits if_splits dest: peek_tl)
next
  case (5 env ts)
  show ?case
    using 5(2-) peek_tl[of ts TNot] peek_tl[of ts TLParen]
    by (fastforce simp: parse_term.psimps[OF 5(1)] split: sum.splits if_splits
        dest: expect_length parse_predicate_length)
qed

termination parse_or
proof (relation "inv_image (less_than <*lex*> less_than)
    (\<lambda>x. case x of
        Inl (Inl (env, ts)) \<Rightarrow> (length ts, 3 :: nat)
      | Inl (Inr (env, q, ts)) \<Rightarrow> (length ts, 0)
      | Inr (Inl (env, ts)) \<Rightarrow> (length ts, 2)
      | Inr (Inr (Inl (env, q, ts))) \<Rightarrow> (length ts, 0)
      | Inr (Inr (Inr (env, ts))) \<Rightarrow> (length ts, 1))", goal_cases)
  case 1
  show ?case by (intro wf_inv_image wf_lex_prod wf_less_than)
qed (auto dest: expr_length peek_tl expect_length intro: order_less_trans)

declare parse_or.simps [simp del] or_loop.simps [simp del] parse_and.simps [simp del]
  and_loop.simps [simp del] parse_term.simps [simp del]

text \<open>
  The whole input is one expression, or \<open>*\<close> or \<open>$all\<close> alone.
\<close>

definition parse_top_level :: "lexenv \<Rightarrow> token list \<Rightarrow> parse_error + query" where
  "parse_top_level env ts =
     (if peek ts = Some TStar \<or> peek ts = Some TDollarAll then
        (case peek (tl ts) of Some t \<Rightarrow> Inl (AfterAll t) | None \<Rightarrow> Inr QAll)
      else
        (case parse_or env ts of
           Inl e \<Rightarrow> Inl e
         | Inr (q, r) \<Rightarrow> (case peek r of Some t \<Rightarrow> Inl (EndOfInput t) | None \<Rightarrow> Inr q)))"

definition parse :: "lexenv \<Rightarrow> ustring \<Rightarrow> (lex_error + parse_error) + query" where
  "parse env input =
     (case tokenize env input of
        Inl e \<Rightarrow> Inl (Inl e)
      | Inr ts \<Rightarrow> map_sum Inr id (parse_top_level env ts))"

end
