(* ===== verification/QueryGrammar.thy ===== *)
theory QueryGrammar
  imports Parser
begin

text \<open>
  The grammar of the header comment of \<open>parser.rs\<close> as an inductive relation between token lists and
  queries, and the proof that the parser accepts exactly the grammar and returns the query the
  grammar gives.
\<close>

subsection \<open>The grammar\<close>

fun literal_of :: "token \<Rightarrow> literal option" where
  "literal_of (TNumber n) = Some (LNumber n)"
| "literal_of (TStringLit s) = Some (LString s)"
| "literal_of (TAddress a) = Some (LAddress a)"
| "literal_of (TEntityKey b) = Some (LEntityKey b)"
| "literal_of _ = None"

fun key_of :: "token \<Rightarrow> annot_key option" where
  "key_of TDollarOwner = Some (BuiltIn Owner)"
| "key_of TDollarCreator = Some (BuiltIn Creator)"
| "key_of TDollarKey = Some (BuiltIn Key)"
| "key_of TDollarExpiration = Some (BuiltIn Expiration)"
| "key_of TDollarContentType = Some (BuiltIn ContentType)"
| "key_of TDollarCreatedAtBlock = Some (BuiltIn CreatedAtBlock)"
| "key_of (TIdent s) = Some (User s)"
| "key_of _ = None"

definition is_value :: "lexenv \<Rightarrow> annot_key \<Rightarrow> token \<Rightarrow> annot_val \<Rightarrow> bool" where
  "is_value env key t v \<longleftrightarrow> (\<exists>l. literal_of t = Some l \<and> encode_for_key env key l = Inr v)"

fun ordered_literal :: "token \<Rightarrow> bool" where
  "ordered_literal (TAddress a) = False"
| "ordered_literal (TEntityKey b) = False"
| "ordered_literal _ = True"

fun range_op :: "token \<Rightarrow> (annot_key \<Rightarrow> annot_val \<Rightarrow> query) option" where
  "range_op TGt = Some QGt"
| "range_op TGte = Some QGte"
| "range_op TLt = Some QLt"
| "range_op TLte = Some QLte"
| "range_op _ = None"

inductive g_pred :: "lexenv \<Rightarrow> token list \<Rightarrow> query \<Rightarrow> bool" for env where
  g_eq: "key_of k = Some key \<Longrightarrow> is_value env key t v \<Longrightarrow> g_pred env [k, TEq, t] (QEq key v)"
| g_neq: "key_of k = Some key \<Longrightarrow> is_value env key t v \<Longrightarrow> g_pred env [k, TNeq, t] (QNeq key v)"
| g_in: "key_of k = Some key \<Longrightarrow> list_all2 (is_value env key) ts vs \<Longrightarrow> vs \<noteq> [] \<Longrightarrow>
    g_pred env (k # TIn # TLParen # ts @ [TRParen]) (QIn key vs)"
| g_not_in: "key_of k = Some key \<Longrightarrow> list_all2 (is_value env key) ts vs \<Longrightarrow> vs \<noteq> [] \<Longrightarrow>
    g_pred env (k # TNot # TIn # TLParen # ts @ [TRParen]) (QNotIn key vs)"
| g_range: "key_of k = Some key \<Longrightarrow> range_op f = Some mk \<Longrightarrow> ordered_literal t \<Longrightarrow>
    is_value env key t v \<Longrightarrow> g_pred env [k, f, t] (mk key v)"
| g_glob: "key_of k = Some key \<Longrightarrow> glob_key key = Inr () \<Longrightarrow> glob_prefix s = Inr v \<Longrightarrow>
    g_pred env [k, TTilde, TStringLit s] (QGlob key v)"
| g_not_glob: "key_of k = Some key \<Longrightarrow> glob_key key = Inr () \<Longrightarrow> glob_prefix s = Inr v \<Longrightarrow>
    g_pred env [k, TNotTilde, TStringLit s] (QNotGlob key v)"

inductive g_or :: "lexenv \<Rightarrow> token list \<Rightarrow> query \<Rightarrow> bool"
  and g_and :: "lexenv \<Rightarrow> token list \<Rightarrow> query \<Rightarrow> bool"
  and g_term :: "lexenv \<Rightarrow> token list \<Rightarrow> query \<Rightarrow> bool" for env where
  or_one: "g_and env ts q \<Longrightarrow> g_or env ts q"
| or_more: "g_or env ts p \<Longrightarrow> g_and env us q \<Longrightarrow> g_or env (ts @ TOr # us) (QOr p q)"
| and_one: "g_term env ts q \<Longrightarrow> g_and env ts q"
| and_more: "g_and env ts p \<Longrightarrow> g_term env us q \<Longrightarrow> g_and env (ts @ TAnd # us) (QAnd p q)"
| term_paren: "g_or env ts q \<Longrightarrow> g_term env (TLParen # ts @ [TRParen]) q"
| term_not: "g_or env ts q \<Longrightarrow> g_term env (TNot # TLParen # ts @ [TRParen]) (QNot q)"
| term_pred: "g_pred env ts q \<Longrightarrow> g_term env ts q"

inductive g_top :: "lexenv \<Rightarrow> token list \<Rightarrow> query \<Rightarrow> bool" for env where
  top_star: "g_top env [TStar] QAll"
| top_all: "g_top env [TDollarAll] QAll"
| top_or: "g_or env ts q \<Longrightarrow> g_top env ts q"

subsection \<open>The small parsers\<close>

named_theorems parse_iff "what the small parsers accept"

lemma bind_Inr:
  "(case x of Inl e \<Rightarrow> Inl e | Inr p \<Rightarrow> F p) = Inr y \<longleftrightarrow> (\<exists>p. x = Inr p \<and> F p = Inr y)"
  by (cases x) auto

lemma map_sum_Inr: "map_sum id f x = Inr y \<longleftrightarrow> (\<exists>z. x = Inr z \<and> y = f z)"
  by (cases x) auto

lemma no_value [simp]: "\<not> is_value env key TRParen v"
  by (simp add: is_value_def)

lemma expect_iff [parse_iff]: "expect_tok t ts = Inr (u, r) \<longleftrightarrow> ts = t # r"
  by (cases ts) auto

lemma literal_iff [parse_iff]: "parse_literal ts = Inr (l, r) \<longleftrightarrow> (\<exists>t. ts = t # r \<and> literal_of t = Some l)"
  by (cases ts rule: parse_literal.cases) auto

lemma key_iff [parse_iff]: "parse_annot_key ts = Inr (k, r) \<longleftrightarrow> (\<exists>t. ts = t # r \<and> key_of t = Some k)"
  by (cases ts rule: parse_annot_key.cases) auto

lemma value_iff [parse_iff]: "parse_value env key ts = Inr (v, r) \<longleftrightarrow> (\<exists>t. ts = t # r \<and> is_value env key t v)"
  by (auto simp: parse_value_def is_value_def bind_Inr parse_iff)

lemma values_iff [parse_iff]:
  "parse_values env key ts = Inr (vs, r) \<longleftrightarrow>
    (\<exists>p s. ts = p @ r \<and> r = TRParen # s \<and> list_all2 (is_value env key) p vs)"
proof (induction env key ts arbitrary: vs rule: parse_values.induct)
  case (1 env key ts)
  show ?case
  proof (cases "ts \<noteq> [] \<and> hd ts = TRParen")
    case True
    then obtain s where ts: "ts = TRParen # s" by (cases ts) auto
    have "TRParen # s = p @ r \<and> r = TRParen # s' \<and> list_all2 (is_value env key) p vs \<longleftrightarrow>
        p = [] \<and> vs = [] \<and> r = TRParen # s \<and> s' = s" for p s'
      by (cases p) (auto simp: list_all2_Cons1)
    then show ?thesis unfolding ts parse_values.simps[of env key "TRParen # s"] by auto
  next
    case False
    have step: "parse_values env key ts = (case parse_value env key ts of
        Inl e \<Rightarrow> Inl e
      | Inr (v, r) \<Rightarrow> (case parse_values env key r of Inl e \<Rightarrow> Inl e | Inr (vs, r') \<Rightarrow> Inr (v # vs, r')))"
      using False by (simp only: parse_values.simps[of env key ts] if_False simp_thms)
    show ?thesis
    proof
      assume "parse_values env key ts = Inr (vs, r)"
      then obtain v s vs' where v: "parse_value env key ts = Inr (v, s)" "parse_values env key s = Inr (vs', r)"
        "vs = v # vs'" unfolding step by (auto simp: bind_Inr)
      from "1.IH"[OF False v(1) refl] v(2) obtain p s' where
        "s = p @ r" "r = TRParen # s'" "list_all2 (is_value env key) p vs'" by blast
      moreover obtain t where "ts = t # s" "is_value env key t v" using v(1) by (auto simp: value_iff)
      ultimately show "\<exists>p s. ts = p @ r \<and> r = TRParen # s \<and> list_all2 (is_value env key) p vs"
        using v(3) by (intro exI[of _ "t # p"] exI[of _ s']) simp
    next
      assume "\<exists>p s. ts = p @ r \<and> r = TRParen # s \<and> list_all2 (is_value env key) p vs"
      then obtain p s where p: "ts = p @ r" "r = TRParen # s" "list_all2 (is_value env key) p vs" by blast
      with False obtain t p' where t: "p = t # p'" by (cases p) auto
      with p(3) obtain v vs' where v: "vs = v # vs'" "is_value env key t v" "list_all2 (is_value env key) p' vs'"
        by (auto simp: list_all2_Cons1)
      have pv: "parse_value env key ts = Inr (v, p' @ r)" using p t v(2) by (simp add: value_iff)
      have "parse_values env key (p' @ r) = Inr (vs', r)"
        using "1.IH"[OF False pv refl] p(2) v(3) by blast
      with pv v(1) show "parse_values env key ts = Inr (vs, r)" unfolding step by simp
    qed
  qed
qed

lemma value_list_iff [parse_iff]:
  "parse_value_list env key ts = Inr (vs, r) \<longleftrightarrow>
    vs \<noteq> [] \<and> (\<exists>p. ts = TLParen # p @ TRParen # r \<and> list_all2 (is_value env key) p vs)"
proof
  assume "parse_value_list env key ts = Inr (vs, r)"
  then show "vs \<noteq> [] \<and> (\<exists>p. ts = TLParen # p @ TRParen # r \<and> list_all2 (is_value env key) p vs)"
    by (auto simp: parse_value_list_def bind_Inr parse_iff split: if_splits)
next
  assume "vs \<noteq> [] \<and> (\<exists>p. ts = TLParen # p @ TRParen # r \<and> list_all2 (is_value env key) p vs)"
  then obtain p where p: "vs \<noteq> []" "ts = TLParen # p @ TRParen # r" "list_all2 (is_value env key) p vs" by blast
  then have "parse_values env key (p @ TRParen # r) = Inr (vs, TRParen # r)" by (auto simp: values_iff)
  with p show "parse_value_list env key ts = Inr (vs, r)" by (simp add: parse_value_list_def)
qed

lemma glob_iff [parse_iff]:
  "parse_glob_pattern key ts = Inr (v, r) \<longleftrightarrow>
    glob_key key = Inr () \<and> (\<exists>s. ts = TStringLit s # r \<and> glob_prefix s = Inr v)"
proof -
  have l: "literal_of t = Some (LString s) \<longleftrightarrow> t = TStringLit s" for t s by (cases t) auto
  have c: "(case l of LString s \<Rightarrow> F s | _ \<Rightarrow> Inl e) = Inr y \<longleftrightarrow> (\<exists>s. l = LString s \<and> F s = Inr y)"
    for l and F :: "ustring \<Rightarrow> parse_error + annot_val \<times> token list" and e y by (cases l) auto
  show ?thesis
    by (auto simp: parse_glob_pattern_def bind_Inr parse_iff l c split: unit.splits)
qed

lemma range_iff [parse_iff]:
  "parse_range env key mk ts = Inr (q, r) \<longleftrightarrow>
    (\<exists>t v. ts = t # r \<and> ordered_literal t \<and> is_value env key t v \<and> q = mk key v)"
proof -
  have "reject_range ts = Inr () \<longleftrightarrow> (\<forall>t s. ts = t # s \<longrightarrow> ordered_literal t)"
    by (cases ts; cases "hd ts") (auto simp: reject_range_def)
  then show ?thesis
    by (auto simp: parse_range_def bind_Inr map_sum_Inr parse_iff split: unit.splits)
qed

text \<open>What follows a key token, by the operator token.\<close>

lemma predicate_cases:
  assumes "key_of k = Some key"
  shows "parse_predicate env (k # ops) =
    (case ops of
       TEq # r \<Rightarrow> map_sum id (\<lambda>(v, r). (QEq key v, r)) (parse_value env key r)
     | TNeq # r \<Rightarrow> map_sum id (\<lambda>(v, r). (QNeq key v, r)) (parse_value env key r)
     | TNot # r \<Rightarrow>
         (case expect_tok TIn r of
            Inl e \<Rightarrow> Inl e
          | Inr (_, r') \<Rightarrow> map_sum id (\<lambda>(vs, r). (QNotIn key vs, r)) (parse_value_list env key r'))
     | TIn # r \<Rightarrow> map_sum id (\<lambda>(vs, r). (QIn key vs, r)) (parse_value_list env key r)
     | TGt # r \<Rightarrow> parse_range env key QGt r
     | TGte # r \<Rightarrow> parse_range env key QGte r
     | TLt # r \<Rightarrow> parse_range env key QLt r
     | TLte # r \<Rightarrow> parse_range env key QLte r
     | TTilde # r \<Rightarrow> map_sum id (\<lambda>(v, r). (QGlob key v, r)) (parse_glob_pattern key r)
     | TNotTilde # r \<Rightarrow> map_sum id (\<lambda>(v, r). (QNotGlob key v, r)) (parse_glob_pattern key r)
     | t # _ \<Rightarrow> Inl (NoOperator (Some t))
     | [] \<Rightarrow> Inl (NoOperator None))"
proof -
  have "parse_annot_key (k # ops) = Inr (key, ops)" using assms by (simp add: parse_iff)
  then show ?thesis by (simp only: parse_predicate_def sum.case prod.case)
qed

text \<open>The token lists each operator accepts after the key.\<close>

fun op_tail :: "lexenv \<Rightarrow> annot_key \<Rightarrow> token list \<Rightarrow> query \<Rightarrow> token list \<Rightarrow> bool" where
  "op_tail env key (t # s) q r =
     (if t = TEq then \<exists>u v. s = u # r \<and> is_value env key u v \<and> q = QEq key v
      else if t = TNeq then \<exists>u v. s = u # r \<and> is_value env key u v \<and> q = QNeq key v
      else if t = TNot then \<exists>p vs. s = TIn # TLParen # p @ TRParen # r \<and> vs \<noteq> [] \<and>
        list_all2 (is_value env key) p vs \<and> q = QNotIn key vs
      else if t = TIn then \<exists>p vs. s = TLParen # p @ TRParen # r \<and> vs \<noteq> [] \<and>
        list_all2 (is_value env key) p vs \<and> q = QIn key vs
      else if t = TTilde then \<exists>u v. s = TStringLit u # r \<and> glob_key key = Inr () \<and>
        glob_prefix u = Inr v \<and> q = QGlob key v
      else if t = TNotTilde then \<exists>u v. s = TStringLit u # r \<and> glob_key key = Inr () \<and>
        glob_prefix u = Inr v \<and> q = QNotGlob key v
      else \<exists>mk u v. range_op t = Some mk \<and> s = u # r \<and> ordered_literal u \<and>
        is_value env key u v \<and> q = mk key v)"
| "op_tail env key [] q r = False"

lemma predicate_tail:
  assumes "key_of k = Some key"
  shows "parse_predicate env (k # ops) = Inr (q, r) \<longleftrightarrow> op_tail env key ops q r"
proof (cases ops)
  case Nil
  then show ?thesis by (simp add: predicate_cases[OF assms])
next
  case (Cons t s)
  then show ?thesis
    by (cases t) (auto simp: predicate_cases[OF assms] map_sum_Inr bind_Inr parse_iff)
qed

lemma tail_grammar:
  assumes "key_of k = Some key"
  shows "op_tail env key ops q r \<longleftrightarrow> (\<exists>p. k # ops = p @ r \<and> g_pred env p q)"
proof
  assume "op_tail env key ops q r"
  then obtain t s where ops: "ops = t # s" and o: "op_tail env key (t # s) q r"
    by (cases ops) auto
  have rng: "\<exists>p. k # t # s = p @ r \<and> g_pred env p q"
    if "\<exists>mk u v. range_op t = Some mk \<and> s = u # r \<and> ordered_literal u \<and> is_value env key u v \<and> q = mk key v"
  proof -
    obtain mk u v where "range_op t = Some mk" "s = u # r" "ordered_literal u" "is_value env key u v" "q = mk key v"
      using \<open>\<exists>mk u v. _\<close> by blast
    then show ?thesis using g_range[OF assms] by (intro exI[of _ "[k, t, u]"]) simp
  qed
  show "\<exists>p. k # ops = p @ r \<and> g_pred env p q"
    unfolding ops
  proof (cases "t \<in> {TNot, TIn}")
    case True
    with o obtain p vs where p: "vs \<noteq> []" "list_all2 (is_value env key) p vs"
      "t = TNot \<and> s = TIn # TLParen # p @ TRParen # r \<and> q = QNotIn key vs \<or>
       t = TIn \<and> s = TLParen # p @ TRParen # r \<and> q = QIn key vs" by auto
    from p(3) show "\<exists>p. k # t # s = p @ r \<and> g_pred env p q"
    proof (elim disjE conjE)
      assume "t = TNot" "s = TIn # TLParen # p @ TRParen # r" "q = QNotIn key vs"
      with g_not_in[OF assms p(2,1)] show ?thesis
        by (intro exI[of _ "k # TNot # TIn # TLParen # p @ [TRParen]"]) simp
    next
      assume "t = TIn" "s = TLParen # p @ TRParen # r" "q = QIn key vs"
      with g_in[OF assms p(2,1)] show ?thesis
        by (intro exI[of _ "k # TIn # TLParen # p @ [TRParen]"]) simp
    qed
  next
    case False
    show "\<exists>p. k # t # s = p @ r \<and> g_pred env p q"
    proof (cases "t \<in> {TEq, TNeq, TTilde, TNotTilde}")
      case True
      with o show ?thesis
        using g_eq[OF assms, of env] g_neq[OF assms, of env] g_glob[OF assms, of _ _ env]
          g_not_glob[OF assms, of _ _ env]
        by (auto intro!: exI[of _ "[k, t, hd s]"])
    next
      case F: False
      then show ?thesis using False o rng by auto
    qed
  qed
next
  assume "\<exists>p. k # ops = p @ r \<and> g_pred env p q"
  then obtain p where p: "k # ops = p @ r" "g_pred env p q" by blast
  from p(2) show "op_tail env key ops q r"
  proof cases
    case (g_range k' key' f mk t v)
    with p(1) assms show ?thesis by (cases f) auto
  qed (use p(1) assms in auto)
qed

lemma predicate_iff: "parse_predicate env ts = Inr (q, r) \<longleftrightarrow> (\<exists>p. ts = p @ r \<and> g_pred env p q)"
proof (cases "\<exists>k key ops. ts = k # ops \<and> key_of k = Some key")
  case True
  then obtain k key ops where "ts = k # ops" "key_of k = Some key" by blast
  then show ?thesis using predicate_tail tail_grammar by simp
next
  case False
  have "parse_predicate env ts \<noteq> Inr (q, r)"
    using False by (auto simp: parse_predicate_def bind_Inr parse_iff)
  moreover have "\<exists>k key ops. p = k # ops \<and> key_of k = Some key" if "g_pred env p q" for p
    using that by cases auto
  ultimately show ?thesis using False by fastforce
qed

subsection \<open>Expressions\<close>

lemma expr_sound:
  "parse_or env ts = Inr (q, r) \<Longrightarrow> \<exists>p. ts = p @ r \<and> g_or env p q"
  "or_loop env q0 ts0 = Inr (q, r) \<Longrightarrow> (\<forall>p0. g_or env p0 q0 \<longrightarrow> (\<exists>p. ts0 = p @ r \<and> g_or env (p0 @ p) q))"
  "parse_and env ts1 = Inr (q, r) \<Longrightarrow> \<exists>p. ts1 = p @ r \<and> g_and env p q"
  "and_loop env q1 ts2 = Inr (q, r) \<Longrightarrow> (\<forall>p0. g_and env p0 q1 \<longrightarrow> (\<exists>p. ts2 = p @ r \<and> g_and env (p0 @ p) q))"
  "parse_term env ts3 = Inr (q, r) \<Longrightarrow> \<exists>p. ts3 = p @ r \<and> g_term env p q"
proof (induction env ts and env q0 ts0 and env ts1 and env q1 ts2 and env ts3
    arbitrary: q r and q r and q r and q r and q r
    rule: parse_or_or_loop_parse_and_and_loop_parse_term.induct)
  case (1 env ts)
  from "1.prems" obtain p s where a: "parse_and env ts = Inr (p, s)" "or_loop env p s = Inr (q, r)"
    by (auto simp: parse_or.simps[of env ts] bind_Inr)
  obtain u where u: "ts = u @ s" "g_and env u p" using "1.IH"(1)[OF a(1)] by blast
  obtain w where "s = w @ r" "g_or env (u @ w) q"
    using "1.IH"(2)[OF a(1) refl a(2)] or_one[OF u(2)] by blast
  with u show ?case by (intro exI[of _ "u @ w"]) simp
next
  case (2 env q0 ts)
  show ?case
  proof (cases "peek ts = Some TOr")
    case False
    with "2.prems" show ?thesis by (simp add: or_loop.simps[of env q0 ts])
  next
    case True
    then obtain s where ts: "ts = TOr # s" by (auto simp: peek_Some)
    from "2.prems" True obtain p w where a: "parse_and env (tl ts) = Inr (p, w)"
      "or_loop env (QOr q0 p) w = Inr (q, r)" by (auto simp: or_loop.simps[of env q0 ts] bind_Inr)
    obtain u where u: "tl ts = u @ w" "g_and env u p" using "2.IH"(1)[OF True a(1)] by blast
    show ?thesis
    proof (intro allI impI)
      fix p0 assume "g_or env p0 q0"
      then have "g_or env (p0 @ TOr # u) (QOr q0 p)" using u(2) by (rule or_more)
      then obtain v where "w = v @ r" "g_or env ((p0 @ TOr # u) @ v) q"
        using "2.IH"(2)[OF True a(1) refl a(2)] by blast
      with u ts show "\<exists>p. ts = p @ r \<and> g_or env (p0 @ p) q" by (intro exI[of _ "TOr # u @ v"]) simp
    qed
  qed
next
  case (3 env ts)
  from "3.prems" obtain p s where a: "parse_term env ts = Inr (p, s)" "and_loop env p s = Inr (q, r)"
    by (auto simp: parse_and.simps[of env ts] bind_Inr)
  obtain u where u: "ts = u @ s" "g_term env u p" using "3.IH"(1)[OF a(1)] by blast
  obtain w where "s = w @ r" "g_and env (u @ w) q"
    using "3.IH"(2)[OF a(1) refl a(2)] and_one[OF u(2)] by blast
  with u show ?case by (intro exI[of _ "u @ w"]) simp
next
  case (4 env q0 ts)
  show ?case
  proof (cases "peek ts = Some TAnd")
    case False
    with "4.prems" show ?thesis by (simp add: and_loop.simps[of env q0 ts])
  next
    case True
    then obtain s where ts: "ts = TAnd # s" by (auto simp: peek_Some)
    from "4.prems" True obtain p w where a: "parse_term env (tl ts) = Inr (p, w)"
      "and_loop env (QAnd q0 p) w = Inr (q, r)" by (auto simp: and_loop.simps[of env q0 ts] bind_Inr)
    obtain u where u: "tl ts = u @ w" "g_term env u p" using "4.IH"(1)[OF True a(1)] by blast
    show ?thesis
    proof (intro allI impI)
      fix p0 assume "g_and env p0 q0"
      then have "g_and env (p0 @ TAnd # u) (QAnd q0 p)" using u(2) by (rule and_more)
      then obtain v where "w = v @ r" "g_and env ((p0 @ TAnd # u) @ v) q"
        using "4.IH"(2)[OF True a(1) refl a(2)] by blast
      with u ts show "\<exists>p. ts = p @ r \<and> g_and env (p0 @ p) q" by (intro exI[of _ "TAnd # u @ v"]) simp
    qed
  qed
next
  case (5 env ts)
  consider "peek ts = Some TNot" | "peek ts = Some TLParen" | "peek ts \<noteq> Some TNot" "peek ts \<noteq> Some TLParen"
    by blast
  then show ?case
  proof cases
    case 1
    then obtain s where ts: "ts = TNot # s" by (auto simp: peek_Some)
    from "5.prems" 1 obtain s' i where a: "expect_tok TLParen (tl ts) = Inr ((), s')"
      "parse_or env s' = Inr (i, TRParen # r)" "q = QNot i"
      by (auto simp: parse_term.simps[of env ts] bind_Inr expect_iff)
    obtain u where "s' = u @ TRParen # r" "g_or env u i" using "5.IH"(1)[OF 1 a(1) refl a(2)] by blast
    then show ?thesis using a ts term_not[of env u i]
      by (intro exI[of _ "TNot # TLParen # u @ [TRParen]"]) (simp add: expect_iff)
  next
    case 2
    then obtain s where ts: "ts = TLParen # s" by (auto simp: peek_Some)
    from "5.prems" 2 have a: "parse_or env (tl ts) = Inr (q, TRParen # r)"
      by (auto simp: parse_term.simps[of env ts] bind_Inr expect_iff)
    have n: "peek ts \<noteq> Some TNot" using 2 by simp
    obtain u where "tl ts = u @ TRParen # r" "g_or env u q" using "5.IH"(2)[OF n 2 a] by blast
    then show ?thesis using ts term_paren[of env u q]
      by (intro exI[of _ "TLParen # u @ [TRParen]"]) simp
  next
    case 3
    with "5.prems" have "parse_predicate env ts = Inr (q, r)" by (simp add: parse_term.simps[of env ts])
    then show ?thesis using term_pred by (auto simp: predicate_iff)
  qed
qed

lemma expr_complete:
  "g_or env p q \<Longrightarrow> (\<forall>rest. peek rest \<noteq> Some TAnd \<longrightarrow> parse_or env (p @ rest) = or_loop env q rest)"
  "g_and env p q \<Longrightarrow> (\<forall>rest. parse_and env (p @ rest) = and_loop env q rest)"
  "g_term env p q \<Longrightarrow> (\<forall>rest. parse_term env (p @ rest) = Inr (q, rest))"
proof (induction rule: g_or_g_and_g_term.inducts)
  case (or_one ts q)
  then show ?case by (simp add: parse_or.simps and_loop.simps)
next
  case (or_more ts p us q)
  then show ?case
    by (simp add: or_loop.simps[of env p "TOr # _"] and_loop.simps[of env q] peek_def)
next
  case (and_one ts q)
  then show ?case by (simp add: parse_and.simps)
next
  case (and_more ts p us q)
  then show ?case by (simp add: and_loop.simps[of env p "TAnd # _"] peek_def)
next
  case (term_paren ts q)
  then show ?case
    by (simp add: parse_term.simps[of env "TLParen # _"] or_loop.simps[of env q "TRParen # _"] peek_def)
next
  case (term_not ts q)
  then show ?case
    by (simp add: parse_term.simps[of env "TNot # _"] or_loop.simps[of env q "TRParen # _"] peek_def)
next
  case (term_pred ts q)
  show ?case
  proof
    fix rest
    have "ts \<noteq> [] \<and> key_of (hd ts) \<noteq> None" using term_pred by cases auto
    then have "peek (ts @ rest) \<noteq> Some TNot" "peek (ts @ rest) \<noteq> Some TLParen"
      by (cases ts; auto simp: peek_def)+
    moreover have "parse_predicate env (ts @ rest) = Inr (q, rest)"
      using term_pred by (auto simp: predicate_iff)
    ultimately show "parse_term env (ts @ rest) = Inr (q, rest)"
      by (simp add: parse_term.simps[of env "ts @ rest"])
  qed
qed

text \<open>
  C16. The parser is the grammar: a token list parses to a query if and only if the grammar of the
  parser's documentation derives that query from it. (So the grammar is unambiguous on token
  lists, \<open>&&\<close> binds tighter than \<open>||\<close>, both associate to the left, and nothing else is accepted.)
\<close>

theorem parse_iff_grammar:
  "parse_top_level env ts = Inr q \<longleftrightarrow> g_top env ts q"
proof
  assume a: "parse_top_level env ts = Inr q"
  show "g_top env ts q"
  proof (cases "peek ts = Some TStar \<or> peek ts = Some TDollarAll")
    case True
    then obtain t where t: "ts = [t]" "t = TStar \<or> t = TDollarAll" "q = QAll"
      using a by (cases ts; cases "tl ts") (auto simp: parse_top_level_def peek_def)
    then show ?thesis using top_star top_all by auto
  next
    case False
    with a obtain r where "parse_or env ts = Inr (q, r)" "peek r = None"
      by (auto simp: parse_top_level_def bind_Inr split: option.splits)
    moreover from this have "r = []" by (cases r) (auto simp: peek_def)
    ultimately show ?thesis using expr_sound(1)[of env ts q r] top_or by auto
  qed
next
  assume "g_top env ts q"
  then show "parse_top_level env ts = Inr q"
  proof cases
    case top_or
    have "peek (ts @ []) \<noteq> Some TStar \<and> peek (ts @ []) \<noteq> Some TDollarAll"
    proof -
      have "\<exists>t s. p = t # s \<and> t \<noteq> TStar \<and> t \<noteq> TDollarAll" if "g_pred env p q" for p q
        using that by cases auto
      then have "g_or env p q \<Longrightarrow> \<exists>t s. p = t # s \<and> t \<noteq> TStar \<and> t \<noteq> TDollarAll"
        "g_and env p q \<Longrightarrow> \<exists>t s. p = t # s \<and> t \<noteq> TStar \<and> t \<noteq> TDollarAll"
        "g_term env p q \<Longrightarrow> \<exists>t s. p = t # s \<and> t \<noteq> TStar \<and> t \<noteq> TDollarAll" for p q
        by (induction rule: g_or_g_and_g_term.inducts) auto
      with top_or show ?thesis by (fastforce simp: peek_def)
    qed
    moreover have "parse_or env (ts @ []) = or_loop env q []"
      using expr_complete(1)[OF top_or, rule_format, of "[]"] by (simp add: peek_def)
    ultimately show ?thesis by (simp add: parse_top_level_def or_loop.simps peek_def)
  qed (simp_all add: parse_top_level_def peek_def)
qed

end
