(* ===== verification/Interp.thy ===== *)
theory Interp
  imports EntityHistory QueryGrammar
begin

text \<open>
  The evaluator of \<open>crates/arkiv-entitydb/src/query/interpreter.rs\<close>: queries become bitmaps of
  entity ids by point reads, and \<open>execute\<close> parses, evaluates, pages and resolves.
\<close>

subsection \<open>Evaluation\<close>

text \<open>The loops that unite the bitmaps of a list of values.\<close>

fun union_bitmaps ::
  "hostlib \<Rightarrow> 's state_adapter \<Rightarrow> bytes \<Rightarrow> bytes list \<Rightarrow> bitmap \<Rightarrow> ('s, db_error, bitmap) sm" where
  "union_bitmaps H A k [] acc = sret acc"
| "union_bitmaps H A k (v # vs) acc =
     sbind (read_pair_bitmap H A k v) (\<lambda>b. union_bitmaps H A k vs (union_with acc b))"

definition read_eq ::
  "hostlib \<Rightarrow> 's state_adapter \<Rightarrow> annot_key \<Rightarrow> annot_val \<Rightarrow> ('s, db_error, bitmap) sm" where
  "read_eq H A key value = read_pair_bitmap H A (pair_key_bytes key) value"

definition read_in ::
  "hostlib \<Rightarrow> 's state_adapter \<Rightarrow> annot_key \<Rightarrow> annot_val list \<Rightarrow> ('s, db_error, bitmap) sm" where
  "read_in H A key values = union_bitmaps H A (pair_key_bytes key) values bitmap_new"

definition read_range ::
  "hostlib \<Rightarrow> 's state_adapter \<Rightarrow> (index_tree \<Rightarrow> bytes list option) \<Rightarrow> annot_key \<Rightarrow>
    ('s, db_error, bitmap) sm" where
  "read_range H A scan key =
     sbind (read_index_tree H A (pair_key_bytes key)) (\<lambda>tree.
     sbind (or_panic (scan tree)) (\<lambda>vals.
     union_bitmaps H A (pair_key_bytes key) vals bitmap_new))"

definition minus_from_all ::
  "hostlib \<Rightarrow> 's state_adapter \<Rightarrow> ('s, db_error, bitmap) sm \<Rightarrow> ('s, db_error, bitmap) sm" where
  "minus_from_all H A m =
     sbind (all_entities H A) (\<lambda>all. sbind m (\<lambda>hit. sret (subtract all hit)))"

fun eval :: "hostlib \<Rightarrow> 's state_adapter \<Rightarrow> query \<Rightarrow> ('s, db_error, bitmap) sm" where
  "eval H A QAll = all_entities H A"
| "eval H A (QEq key value) = read_eq H A key value"
| "eval H A (QNeq key value) = minus_from_all H A (read_eq H A key value)"
| "eval H A (QIn key values) = read_in H A key values"
| "eval H A (QNotIn key values) = minus_from_all H A (read_in H A key values)"
| "eval H A (QAnd left right) =
     sbind (eval H A left) (\<lambda>l.
     if bitmap_is_empty l then sret l
     else sbind (eval H A right) (\<lambda>r. sret (intersect_with l r)))"
| "eval H A (QOr left right) =
     sbind (eval H A left) (\<lambda>l. sbind (eval H A right) (\<lambda>r. sret (union_with l r)))"
| "eval H A (QNot inner) = minus_from_all H A (eval H A inner)"
| "eval H A (QGt key value) = read_range H A (\<lambda>t. iter_gt t value) key"
| "eval H A (QGte key value) = read_range H A (\<lambda>t. iter_gte t value) key"
| "eval H A (QLt key value) = read_range H A (\<lambda>t. iter_lt t value) key"
| "eval H A (QLte key value) = read_range H A (\<lambda>t. iter_lte t value) key"
| "eval H A (QGlob key value) = read_range H A (\<lambda>t. iter_prefix t value) key"
| "eval H A (QNotGlob key value) =
     minus_from_all H A (read_range H A (\<lambda>t. iter_prefix t value) key)"

subsection \<open>Pages\<close>

datatype exec_error = PageSizeZero | QueryError "lex_error + parse_error" | DbError db_error

record page =
  entries :: "entity_rlp list"
  next_cursor :: "u64 option"

text \<open>\<open>ids\<close> in ascending order; those at or above the cursor are popped off the end.\<close>

definition pop_above :: "u64 option \<Rightarrow> u64 list \<Rightarrow> u64 list" where
  "pop_above cursor ids =
     (case cursor of None \<Rightarrow> ids | Some c \<Rightarrow> rev (dropWhile (\<lambda>i. c \<le> i) (rev ids)))"

fun page_loop ::
  "hostlib \<Rightarrow> 's state_adapter \<Rightarrow> nat \<Rightarrow> u64 list \<Rightarrow> entity_rlp list \<Rightarrow> u64 option \<Rightarrow>
    ('s, db_error, entity_rlp list \<times> u64 option \<times> bool) sm" where
  "page_loop H A page_size [] es last_returned = sret (es, last_returned, False)"
| "page_loop H A page_size (i # ids) es last_returned =
     (if page_size \<le> length es then sret (es, last_returned, True)
      else
        sbind (resolve_id H A i) (\<lambda>r.
        case r of
          None \<Rightarrow> page_loop H A page_size ids es last_returned
        | Some e \<Rightarrow> page_loop H A page_size ids (es @ [e]) (Some i)))"

definition execute ::
  "lexenv \<Rightarrow> hostlib \<Rightarrow> 's state_adapter \<Rightarrow> ustring \<Rightarrow> u64 \<Rightarrow> u64 option \<Rightarrow> ('s, exec_error, page) sm" where
  "execute env H A query page_size cursor =
     (if page_size = 0 then sfail PageSizeZero
      else
        sbind (smap_err QueryError (slift (parse env query))) (\<lambda>parsed.
        sbind (smap_err DbError (eval H A parsed)) (\<lambda>bitmap.
        let ids = pop_above cursor (sort (bitmap_iter bitmap)) in
        sbind (smap_err DbError (page_loop H A (unat page_size) (rev ids) [] None))
          (\<lambda>(es, last_returned, has_more).
        sret \<lparr>entries = es, next_cursor = (if has_more then last_returned else None)\<rparr>))))"

subsection \<open>Running on any adapter\<close>

context reader_laws
begin

lemma sim_union_bitmaps [sim_intros]:
  "sim (union_bitmaps H A k vs acc) (union_bitmaps H mem_adapter k vs acc)"
  by (induction vs arbitrary: acc) (auto intro!: sim_intros)

lemma sim_minus_from_all [sim_intros]:
  "sim m n \<Longrightarrow> sim (minus_from_all H A m) (minus_from_all H mem_adapter n)"
  unfolding minus_from_all_def by (intro sim_intros)

lemma sim_read_queries [sim_intros]:
  "sim (read_eq H A k v) (read_eq H mem_adapter k v)"
  "sim (read_in H A k vs) (read_in H mem_adapter k vs)"
  "sim (read_range H A scan k) (read_range H mem_adapter scan k)"
  unfolding read_eq_def read_in_def read_range_def by (intro sim_intros)+

lemma sim_eval [sim_intros]: "sim (eval H A q) (eval H mem_adapter q)"
proof (induction q)
  case (QAnd l r)
  then show ?case unfolding eval.simps by (intro sim_intros)
next
  case (QOr l r)
  then show ?case unfolding eval.simps by (intro sim_intros)
qed (simp_all add: sim_intros)

lemma sim_page_loop [sim_intros]:
  "sim (page_loop H A p ids es l) (page_loop H mem_adapter p ids es l)"
proof (induction ids arbitrary: es l)
  case Nil
  then show ?case by (simp add: sim_intros)
next
  case (Cons i ids)
  then show ?case unfolding page_loop.simps by (intro sim_intros)
qed

lemma sim_execute: "sim (execute env H A q p c) (execute env H mem_adapter q p c)"
  unfolding execute_def Let_def by (intro sim_intros)

end

subsection \<open>The meaning of a query\<close>

text \<open>\<open>satisfies w q e\<close>: the entity \<open>e\<close> is a match of \<open>q\<close>; ranges look at the values of tier 2.\<close>

definition has_value :: "universe \<Rightarrow> annot_key \<Rightarrow> (bytes \<Rightarrow> bool) \<Rightarrow> entity_rlp \<Rightarrow> bool" where
  "has_value w key P e \<longleftrightarrow> (\<exists>v. (pair_key_bytes key, v) \<in> entity_pairs e \<and> tiered w (pair_key_bytes key) v \<and> P v)"

fun satisfies :: "universe \<Rightarrow> query \<Rightarrow> entity_rlp \<Rightarrow> bool" where
  "satisfies w QAll e \<longleftrightarrow> True"
| "satisfies w (QEq key value) e \<longleftrightarrow> (pair_key_bytes key, value) \<in> entity_pairs e"
| "satisfies w (QNeq key value) e \<longleftrightarrow> (pair_key_bytes key, value) \<notin> entity_pairs e"
| "satisfies w (QIn key values) e \<longleftrightarrow> (\<exists>v \<in> set values. (pair_key_bytes key, v) \<in> entity_pairs e)"
| "satisfies w (QNotIn key values) e \<longleftrightarrow> (\<forall>v \<in> set values. (pair_key_bytes key, v) \<notin> entity_pairs e)"
| "satisfies w (QAnd l r) e \<longleftrightarrow> satisfies w l e \<and> satisfies w r e"
| "satisfies w (QOr l r) e \<longleftrightarrow> satisfies w l e \<or> satisfies w r e"
| "satisfies w (QNot q) e \<longleftrightarrow> \<not> satisfies w q e"
| "satisfies w (QGt key x) e \<longleftrightarrow> has_value w key (\<lambda>v. x < v) e"
| "satisfies w (QGte key x) e \<longleftrightarrow> has_value w key (\<lambda>v. x \<le> v) e"
| "satisfies w (QLt key x) e \<longleftrightarrow> has_value w key (\<lambda>v. v < x) e"
| "satisfies w (QLte key x) e \<longleftrightarrow> has_value w key (\<lambda>v. v \<le> x) e"
| "satisfies w (QGlob key p) e \<longleftrightarrow> has_value w key (\<lambda>v. take (length p) v = p) e"
| "satisfies w (QNotGlob key p) e \<longleftrightarrow> \<not> has_value w key (\<lambda>v. take (length p) v = p) e"

text \<open>The pairs and keys a query reads are in the universe.\<close>

fun query_ok :: "universe \<Rightarrow> query \<Rightarrow> bool" where
  "query_ok w QAll \<longleftrightarrow> True"
| "query_ok w (QEq key value) \<longleftrightarrow> (pair_key_bytes key, value) \<in> pairs w"
| "query_ok w (QNeq key value) \<longleftrightarrow> (pair_key_bytes key, value) \<in> pairs w"
| "query_ok w (QIn key values) \<longleftrightarrow> (\<forall>v \<in> set values. (pair_key_bytes key, v) \<in> pairs w)"
| "query_ok w (QNotIn key values) \<longleftrightarrow> (\<forall>v \<in> set values. (pair_key_bytes key, v) \<in> pairs w)"
| "query_ok w (QAnd l r) \<longleftrightarrow> query_ok w l \<and> query_ok w r"
| "query_ok w (QOr l r) \<longleftrightarrow> query_ok w l \<and> query_ok w r"
| "query_ok w (QNot q) \<longleftrightarrow> query_ok w q"
| "query_ok w (QGt key x) \<longleftrightarrow> pair_key_bytes key \<in> fst ` pairs w"
| "query_ok w (QGte key x) \<longleftrightarrow> pair_key_bytes key \<in> fst ` pairs w"
| "query_ok w (QLt key x) \<longleftrightarrow> pair_key_bytes key \<in> fst ` pairs w"
| "query_ok w (QLte key x) \<longleftrightarrow> pair_key_bytes key \<in> fst ` pairs w"
| "query_ok w (QGlob key p) \<longleftrightarrow> pair_key_bytes key \<in> fst ` pairs w"
| "query_ok w (QNotGlob key p) \<longleftrightarrow> pair_key_bytes key \<in> fst ` pairs w"

end
