(* ===== verification/TableHost.thy ===== *)
theory TableHost
  imports EntityHistory
begin

text \<open>
  A concrete \<open>hostlib\<close> on which the hypotheses of the database theorems hold: a hash that numbers
  the preimages of a given table (and reverses any other text), and simple self-delimiting codecs for bitmaps and entities. The
  theorems are applied to it by their witnesses.
\<close>

subsection \<open>A hash by table\<close>

definition table_hash :: "bytes list \<Rightarrow> bytes \<Rightarrow> b256" where
  "table_hash T b =
     (case List.find (\<lambda>i. T ! i = b) [0..<length T] of
        None \<Rightarrow> take 32 (rev b @ replicate 32 255)
      | Some i \<Rightarrow> of_nat i # replicate 31 0)"

lemma table_hash_at:
  assumes "b \<in> set T"
  obtains i where "i < length T" "T ! i = b" "table_hash T b = of_nat i # replicate 31 0"
proof -
  have "List.find (\<lambda>i. T ! i = b) [0..<length T] \<noteq> None"
    using assms by (auto simp: find_None_iff in_set_conv_nth)
  then obtain i where i: "List.find (\<lambda>i. T ! i = b) [0..<length T] = Some i" by auto
  then have "i < length T" "T ! i = b" by (auto simp: find_Some_iff)
  with i that show thesis by (simp add: table_hash_def)
qed

lemma table_hash_inj:
  assumes "length T \<le> 255"
  shows "inj_on (\<lambda>b. take 20 (table_hash T b)) (set T)" "inj_on (table_hash T) (set T)"
proof -
  have eq: "a = b" if "a \<in> set T" "b \<in> set T" "hd (table_hash T a) = hd (table_hash T b)" for a b
  proof -
    note ab = that
    obtain i where i: "i < length T" "T ! i = a" "table_hash T a = of_nat i # replicate 31 0"
      using table_hash_at[OF ab(1)] by metis
    obtain j where j: "j < length T" "T ! j = b" "table_hash T b = of_nat j # replicate 31 0"
      using table_hash_at[OF ab(2)] by metis
    have "(of_nat i :: byte) = of_nat j" using i(3) j(3) ab(3) by simp
    then have "i = j" using i(1) j(1) assms by (simp add: byte_eq_unat)
    then show ?thesis using i j by simp
  qed
  show "inj_on (\<lambda>b. take 20 (table_hash T b)) (set T)" "inj_on (table_hash T) (set T)"
    by (auto intro!: inj_onI eq dest: arg_cong[where f = hd] simp: hd_take)
qed

lemma table_hash_19: "b \<in> set T \<Longrightarrow> take 20 (table_hash T b) ! 19 = 0"
  by (erule table_hash_at) (simp add: nth_Cons')

subsection \<open>Self-delimiting codecs\<close>

fun put :: "bytes \<Rightarrow> bytes" where
  "put [] = [0]"
| "put (b # bs) = 1 # b # put bs"

fun get :: "bytes \<Rightarrow> (bytes \<times> bytes) option" where
  "get (t # r) =
     (if t = 0 then Some ([], r)
      else case r of [] \<Rightarrow> None | b # r' \<Rightarrow> map_option (\<lambda>(bs, s). (b # bs, s)) (get r'))"
| "get [] = None"

lemma get_put [simp]: "get (put bs @ r) = Some (bs, r)"
  by (induction bs) auto

declare get.simps [simp del]

fun words :: "nat \<Rightarrow> bytes \<Rightarrow> u64 list" where
  "words 0 bs = []"
| "words (Suc n) bs = of_nat (be_val (take 8 bs)) # words n (drop 8 bs)"

lemma words_concat: "words (length xs) (concat (map u64_be xs)) = xs"
  by (induction xs) auto

definition table_ser :: "u64 set \<Rightarrow> bytes" where
  "table_ser S = 1 # concat (map u64_be (sorted_list_of_set S))"

definition table_de :: "bytes \<Rightarrow> u64 set option" where
  "table_de bs = Some (set (words (length (tl bs) div 8) (tl bs)))"

lemma length_concat_u64_be: "length (concat (map u64_be xs)) = 8 * length xs"
  by (induction xs) auto

lemma table_bitmaps: "table_ser S \<noteq> []" "table_de (table_ser S) = Some S"
proof -
  have "finite S" by (rule finite_subset[OF subset_UNIV]) simp
  then show "table_de (table_ser S) = Some S"
    using words_concat[of "sorted_list_of_set S"]
    by (simp add: table_de_def table_ser_def length_concat_u64_be)
qed (simp add: table_ser_def)

fun put_attributes :: "attribute list \<Rightarrow> bytes" where
  "put_attributes [] = [0]"
| "put_attributes (a # as) =
     1 # put (attr_key a) @ put [attr_type a] @ put (attr_value a) @ put_attributes as"

fun get_attributes :: "nat \<Rightarrow> bytes \<Rightarrow> attribute list option" where
  "get_attributes (Suc n) (t # r) =
     (if t = 0 then Some []
      else Option.bind (get r) (\<lambda>(k, r). Option.bind (get r) (\<lambda>(t, r).
        Option.bind (get r) (\<lambda>(v, r).
          map_option (\<lambda>as. \<lparr>attr_key = k, attr_type = hd t, attr_value = v\<rparr> # as)
            (get_attributes n r)))))"
| "get_attributes _ _ = None"

lemma get_put_attributes: "length as < n \<Longrightarrow> get_attributes n (put_attributes as) = Some as"
proof (induction as arbitrary: n)
  case Nil
  then show ?case by (cases n) auto
next
  case (Cons a as)
  note [simp del] = put.simps
  from Cons show ?case by (cases n) (auto simp: put.simps(1))
qed

lemma length_put_attributes: "length as < length (put_attributes as)"
  by (induction as) auto

definition table_encode :: "entity_rlp \<Rightarrow> bytes" where
  "table_encode e =
     put (ent_payload e) @ put (ent_creator e) @ put (u64_be (ent_created_at_block e)) @
     put (ent_owner e) @ put (u64_be (ent_expires_at e)) @ put (ent_content_type e) @
     put (ent_key e) @ put (u64_be (ent_last_modified_at_block e)) @ put_attributes (ent_attributes e)"

definition table_decode :: "bytes \<Rightarrow> entity_rlp option" where
  "table_decode bs =
     Option.bind (get bs) (\<lambda>(p, bs). Option.bind (get bs) (\<lambda>(c, bs).
     Option.bind (get bs) (\<lambda>(cb, bs). Option.bind (get bs) (\<lambda>(ow, bs).
     Option.bind (get bs) (\<lambda>(ex, bs). Option.bind (get bs) (\<lambda>(ct, bs).
     Option.bind (get bs) (\<lambda>(k, bs). Option.bind (get bs) (\<lambda>(lm, bs).
     map_option (\<lambda>as. \<lparr>ent_payload = p, ent_creator = c, ent_created_at_block = of_nat (be_val cb),
        ent_owner = ow, ent_expires_at = of_nat (be_val ex), ent_content_type = ct, ent_key = k,
        ent_attributes = as, ent_last_modified_at_block = of_nat (be_val lm)\<rparr>)
       (get_attributes (length bs) bs)))))))))"

lemma table_entities: "table_decode (table_encode e) = Some e"
  by (simp add: table_decode_def table_encode_def get_put_attributes length_put_attributes)

definition table_host :: "bytes list \<Rightarrow> hostlib" where
  "table_host T = \<lparr>keccak256 = table_hash T, roaring_ser = table_ser, roaring_de = table_de,
     rlp_encode = table_encode, rlp_decode = table_decode\<rparr>"

subsection \<open>Worlds over a table\<close>

text \<open>
  The universe of a list of pairs, keys and other slots, and the table of all its preimages. Its
  conditions are equations between lists, which evaluate.
\<close>

definition list_universe :: "(bytes \<times> bytes) list \<Rightarrow> (bytes \<Rightarrow> bool) \<Rightarrow> b256 list \<Rightarrow> nat \<Rightarrow> bytes list \<Rightarrow> universe" where
  "list_universe ps tier ks n xs =
     \<lparr>pairs = set ps, tiered = (\<lambda>k v. tier k), ekeys = set ks, max_ids = n, other_slots = set xs\<rparr>"

definition slot_list :: "b256 list \<Rightarrow> nat \<Rightarrow> bytes list" where
  "slot_list ks n = bstr ''entity_count'' # map (\<lambda>i. bstr ''id_to_addr'' @ u64_be (of_nat i)) [0..<n] @
     map (\<lambda>key. bstr ''addr_to_id'' @ entity_address key) ks"

definition preimage_list :: "(bytes \<times> bytes) list \<Rightarrow> b256 list \<Rightarrow> nat \<Rightarrow> bytes list \<Rightarrow> bytes list" where
  "preimage_list ps ks n xs =
     remdups (concat (map (\<lambda>(k, v). [pair_preimage k v, index_preimage k]) ps)) @ slot_list ks n @ xs"

definition list_world :: "(bytes \<times> bytes) list \<Rightarrow> (bytes \<Rightarrow> bool) \<Rightarrow> b256 list \<Rightarrow> nat \<Rightarrow> bytes list \<Rightarrow> bool" where
  "list_world ps tier ks n xs \<longleftrightarrow>
     2 * length ps + 1 + n + length ks + length xs \<le> 255 \<and> length ps \<le> 16 \<and>
     list_all (\<lambda>(k, v). 0 \<notin> set k \<and> (tier k \<longrightarrow> ff_free v \<and> length v \<le> 255)) ps \<and>
     list_all (\<lambda>x. x \<notin> set (slot_list ks n)) xs \<and> distinct (map entity_address ks) \<and>
     list_all (\<lambda>key. length key = 32 \<and> key ! 19 \<noteq> 0) ks \<and> n < 2 ^ 64"

lemma preimage_list_length:
  "length (preimage_list ps ks n xs) \<le> 2 * length ps + 1 + n + length ks + length xs"
proof -
  have "length (concat (map (\<lambda>(k, v). [pair_preimage k v, index_preimage k]) ps)) = 2 * length ps"
    by (induction ps) auto
  then show ?thesis
    using length_remdups_leq[of "concat (map (\<lambda>(k, v). [pair_preimage k v, index_preimage k]) ps)"]
    by (simp add: preimage_list_def slot_list_def)
qed

lemma list_world_ok:
  assumes "list_world ps tier ks n xs"
  shows "db_world (table_host (preimage_list ps ks n xs)) (list_universe ps tier ks n xs)"
proof -
  let ?T = "preimage_list ps ks n xs" and ?w = "list_universe ps tier ks n xs"
  let ?H = "table_host ?T"
  have "2 * length ps + 1 + n + length ks + length xs \<le> 255"
    using assms by (simp add: list_world_def)
  then have T: "length ?T \<le> 255" using preimage_list_length[of ps ks n xs] by linarith
  have ps: "length ps \<le> 16"
    and vals: "\<And>k v. (k, v) \<in> set ps \<Longrightarrow> 0 \<notin> set k \<and> (tier k \<longrightarrow> ff_free v \<and> length v \<le> 255)"
    and xs: "\<And>x. x \<in> set xs \<Longrightarrow> x \<notin> set (slot_list ks n)" and ks: "distinct (map entity_address ks)"
    and key: "\<And>key. key \<in> set ks \<Longrightarrow> length key = 32 \<and> key ! 19 \<noteq> 0" and n: "n < 2 ^ 64"
    using assms by (auto simp: list_world_def list_all_iff)
  have pre: "index_preimages (set ps) \<subseteq> set ?T"
    by (auto simp: index_preimages_def preimage_list_def)
  have sl: "db_slots ?w = set (slot_list ks n)"
    by (auto simp: db_slots_def slot_list_def list_universe_def)
  have uni: "index_universe {v. (k, v) \<in> pairs ?w \<and> tiered ?w k v}" for k
  proof -
    have sub: "{v. (k, v) \<in> pairs ?w \<and> tiered ?w k v} \<subseteq> snd ` set ps"
      by (force simp: list_universe_def)
    have "card (snd ` set ps) \<le> 16"
      using card_image_le[of "set ps" snd] card_length[of ps] ps by simp
    with sub have c: "card {v. (k, v) \<in> pairs ?w \<and> tiered ?w k v} \<le> 16"
      by (meson List.finite_set card_mono finite_imageI order_trans)
    have f: "finite {v. (k, v) \<in> pairs ?w \<and> tiered ?w k v}" using finite_subset[OF sub] by simp
    show ?thesis
      using narrow_small[OF f c] f c vals by (auto simp: index_universe_def list_universe_def)
  qed
  have idx: "index_addresses ?H (set ps) \<subseteq> {a. a ! 19 = 0}"
    using pre by (auto simp: index_addresses_def pair_address_def index_address_def table_host_def
        index_preimages_def intro!: table_hash_19)
  have k19: "entity_address key ! 19 \<noteq> 0" if "key \<in> set ks" for key
    using key[OF that] by (simp add: entity_address_def)
  have inj: "inj_on (\<lambda>b. take 20 (keccak256 ?H b)) (index_preimages (pairs ?w))"
    using inj_on_subset[OF table_hash_inj(1)[OF T] pre] by (simp add: table_host_def list_universe_def)
  have "index_world ?H (pairs ?w) (tiered ?w)"
    using vals table_bitmaps uni inj unfolding index_world_def by (auto simp: table_host_def list_universe_def)
  moreover have "inj_on (keccak256 ?H) (db_slots ?w \<union> other_slots ?w)"
  proof -
    have "db_slots ?w \<union> other_slots ?w \<subseteq> set ?T"
      unfolding sl by (auto simp: list_universe_def preimage_list_def)
    from inj_on_subset[OF table_hash_inj(2)[OF T] this] show ?thesis by (simp add: table_host_def)
  qed
  moreover have "inj_on entity_address (ekeys ?w)" using ks by (simp add: distinct_map list_universe_def)
  moreover have "entity_address key \<noteq> zero_address \<and> entity_address key \<notin> index_addresses ?H (pairs ?w) \<and>
      length key = 32" if "key \<in> ekeys ?w" for key
  proof -
    have k: "key \<in> set ks" using that by (simp add: list_universe_def)
    have "zero_address ! 19 = 0" by (simp add: zero_address_def)
    with k19[OF k] idx key[OF k] show ?thesis by (auto simp: list_universe_def)
  qed
  moreover have "db_slots ?w \<inter> other_slots ?w = {}"
    unfolding sl using xs by (auto simp: list_universe_def)
  moreover have "max_ids ?w < 2 ^ 64" using n by (simp add: list_universe_def)
  moreover have "rlp_decode ?H (rlp_encode ?H e) = Some e" for e
    using table_entities by (simp add: table_host_def)
  ultimately show ?thesis unfolding db_world_def by blast
qed

subsection \<open>A small scenario\<close>

definition addr_a :: address where "addr_a = replicate 20 0xAA"
definition addr_b :: address where "addr_b = replicate 20 0xBB"
definition key_1 :: b256 where "key_1 = replicate 32 0x11"

definition demo_attributes :: "attribute list" where
  "demo_attributes = [\<lparr>attr_key = bstr ''tag'', attr_type = ATTR_STRING, attr_value = bstr ''music''\<rparr>]"

definition demo_ops :: "db_op list" where
  "demo_ops = [OpCreate addr_a key_1 100 10 [1, 2] (bstr ''text/plain'') demo_attributes,
     OpTransfer key_1 20 addr_b, OpExtend key_1 30 200]"

definition demo_pairs :: "(bytes \<times> bytes) list" where
  "demo_pairs = [(ANNOT_ALL, []), (ANNOT_CREATOR, addr_a), (ANNOT_CREATED_AT_BLOCK, u64_be 10),
     (ANNOT_OWNER, addr_a), (ANNOT_OWNER, addr_b), (ANNOT_KEY, key_1), (ANNOT_EXPIRATION, u64_be 100),
     (ANNOT_EXPIRATION, u64_be 200), (ANNOT_CONTENT_TYPE, bstr ''text/plain''),
     (bstr ''tag'', bstr ''music'')]"

definition demo_tier :: "bytes \<Rightarrow> bool" where
  "demo_tier k \<longleftrightarrow> k \<notin> {ANNOT_ALL, ANNOT_CREATOR, ANNOT_OWNER, ANNOT_KEY}"


lemma demo_values: "list_all (\<lambda>(k, v). 0 \<notin> set k \<and> (demo_tier k \<longrightarrow> ff_free v \<and> length v \<le> 255)) demo_pairs"
  by code_simp

lemma demo_world: "list_world demo_pairs demo_tier [key_1] 2 []"
  using demo_values unfolding list_world_def by (simp add: demo_pairs_def key_1_def)

lemma op_ok_list:
  "op_ok (list_universe ps tier ks n xs) op \<longleftrightarrow> db_op_key op \<in> set ks \<and> op_arguments_ok op \<and>
     list_all (\<lambda>a. (ann_key a, ann_value a) \<in> set ps \<and> ann_tier2 a = tier (ann_key a)) (op_annotations op)"
  by (auto simp: op_ok_def list_universe_def ann_pairs_def well_tiered_def list_all_iff)

lemma demo_annotations:
  "list_all (\<lambda>op. list_all (\<lambda>a. (ann_key a, ann_value a) \<in> set demo_pairs \<and>
     ann_tier2 a = demo_tier (ann_key a)) (op_annotations op)) demo_ops"
  by code_simp

lemma demo_arguments: "list_all (\<lambda>op. db_op_key op = key_1 \<and> op_arguments_ok op) demo_ops"
  by code_simp

lemma demo_ops_ok: "op \<in> set demo_ops \<Longrightarrow> op_ok (list_universe demo_pairs demo_tier [key_1] 2 []) op"
  using demo_annotations demo_arguments by (simp add: op_ok_list list_all_iff)

definition demo_universe :: universe where
  "demo_universe = list_universe demo_pairs demo_tier [key_1] 2 []"

definition demo_host :: hostlib where
  "demo_host = table_host (preimage_list demo_pairs [key_1] 2 [])"

definition demo_entity :: entity_rlp where
  "demo_entity = (new_entity addr_a key_1 100 10 [1, 2] (bstr ''text/plain'') demo_attributes)
     \<lparr>ent_owner := addr_b, ent_last_modified_at_block := 20, ent_expires_at := 200,
      ent_last_modified_at_block := 30\<rparr>"

lemma demo_db_world: "db_world demo_host demo_universe"
  unfolding demo_host_def demo_universe_def by (rule list_world_ok[OF demo_world])

lemma demo_spec: "spec_history demo_ops (Map.empty, 0) = Inr ([key_1 \<mapsto> (0, demo_entity)], 1)"
  by (simp add: demo_ops_def at_key_def demo_entity_def new_entity_def)

lemma demo_matching: "matching_ids [key_1 \<mapsto> (0, demo_entity)] P = (if P demo_entity then {0} else {})"
  by (auto simp: matching_ids_def)

lemma demo_pair: "(ANNOT_OWNER, addr_b) \<in> set demo_pairs" "(ANNOT_OWNER, addr_b) \<in> entity_pairs demo_entity"
  by (simp_all add: demo_pairs_def entity_pairs_eq demo_entity_def new_entity_def)


end
