(* ===== verification/InterpSound.thy ===== *)
theory InterpSound
  imports Interp TableHost
begin

text \<open>
  Soundness and completeness of query evaluation: on a memory that represents an abstract
  database, a query evaluates to exactly the ids of the entities that satisfy it, and a page is
  the next slice of these entities, newest first.
\<close>

subsection \<open>Reads as equations\<close>

lemma read_bitmap_eq:
  assumes "index_world H U typ" "indexes H U typ m R" "(k, v) \<in> U"
  shows "read_pair_bitmap H mem_adapter k v m = Inr (ids_of R k v, m)"
  using wp_read_bitmap[OF assms, of "\<lambda>b m'. b = ids_of R k v \<and> m' = m"] by (auto simp: wp_iff)

lemma union_bitmaps_eq:
  assumes "index_world H U typ" "indexes H U typ m R" "\<And>v. v \<in> set vs \<Longrightarrow> (k, v) \<in> U"
  shows "union_bitmaps H mem_adapter k vs acc m = Inr (acc \<union> (\<Union>v \<in> set vs. ids_of R k v), m)"
  using assms(3)
proof (induction vs arbitrary: acc)
  case Nil
  then show ?case by (simp add: sret_def)
next
  case (Cons v vs)
  then show ?case by (simp add: sbind_def read_bitmap_eq[OF assms(1,2)] Un_assoc)
qed

lemma used_tree_eq:
  assumes "db_rep H w m M n" "(k, v) \<in> pairs w"
  obtains t where "read_index_tree H mem_adapter k m = Inr (t, m)"
    "collect_all [] (root t) = Some (sorted_list_of_set (used_values w M k))"
proof -
  have "wp (read_index_tree H mem_adapter k) m (\<lambda>t m'. m' = m \<and>
      collect_all [] (root t) = Some (sorted_list_of_set (used_values w M k)))"
    by (rule wp_read_used_tree[OF assms]) simp
  then show thesis using that by (auto simp: wp_iff)
qed

lemma finite_used: "db_world H w \<Longrightarrow> db_rep H w m M n \<Longrightarrow> finite (used_values w M k)"
proof -
  assume W: "db_world H w" and s: "db_rep H w m M n"
  have "used_values w M k \<subseteq> {v. (k, v) \<in> pairs w \<and> tiered w k v}"
  proof (clarsimp simp: used_values_def matching_ids_def)
    fix v i key e assume "M key = Some (i, e)" "(k, v) \<in> entity_pairs e"
    then have "(i, k, v) \<in> map_rel M" by (auto simp: map_rel_def)
    then show "(k, v) \<in> pairs w" using s indexesD(1)[of H "pairs w" "tiered w" m "map_rel M"]
      by (simp add: db_rep_def)
  qed
  moreover have "finite {v. (k, v) \<in> pairs w \<and> tiered w k v}"
    using W by (simp add: db_world_def index_world_def index_universe_def)
  ultimately show ?thesis by (rule finite_subset)
qed

subsection \<open>Evaluation\<close>

lemma matching_ids_simps:
  "matching_ids M (\<lambda>e. P e \<or> Q e) = matching_ids M P \<union> matching_ids M Q"
  "matching_ids M (\<lambda>e. \<exists>v \<in> V. R v e) = (\<Union>v \<in> V. matching_ids M (R v))"
  by (auto simp: matching_ids_def)

lemma matching_ids_unique:
  assumes "\<And>key key' i e e'. M key = Some (i, e) \<Longrightarrow> M key' = Some (i, e') \<Longrightarrow> key = key'"
  shows "matching_ids M (\<lambda>_. True) - matching_ids M P = matching_ids M (\<lambda>e. \<not> P e)"
    "matching_ids M P \<inter> matching_ids M Q = matching_ids M (\<lambda>e. P e \<and> Q e)"
proof -
  have "e = e'" if "M key = Some (i, e)" "M key' = Some (i, e')" for key key' i e e'
    using assms[OF that] that by simp
  then show "matching_ids M (\<lambda>_. True) - matching_ids M P = matching_ids M (\<lambda>e. \<not> P e)"
    "matching_ids M P \<inter> matching_ids M Q = matching_ids M (\<lambda>e. P e \<and> Q e)"
    unfolding matching_ids_def by blast+
qed

lemma iter_filtered:
  assumes "collect_all [] (root t) = Some ks"
  shows "iter_gt t x = Some (filter (\<lambda>k. x < k) ks)" "iter_gte t x = Some (filter (\<lambda>k. x \<le> k) ks)"
    "iter_lt t x = Some (filter (\<lambda>k. k < x) ks)" "iter_lte t x = Some (filter (\<lambda>k. k \<le> x) ks)"
    "iter_prefix t x = Some (filter (\<lambda>k. take (length x) k = x) ks)"
  by (simp_all add: iter_gt_def iter_gte_def iter_lt_def iter_lte_def iter_prefix_def
      tree_filtered_Some[OF assms])

lemma range_eq:
  assumes W: "db_world H w" and s: "db_rep H w m M n" and k: "pair_key_bytes key \<in> fst ` pairs w"
    and scan: "\<And>t ks. collect_all [] (root t) = Some ks \<Longrightarrow> scan t = Some (filter P ks)"
  shows "read_range H mem_adapter scan key m = Inr (matching_ids M (has_value w key P), m)"
proof -
  let ?k = "pair_key_bytes key"
  obtain v where "(?k, v) \<in> pairs w" using k by auto
  then obtain t where t: "read_index_tree H mem_adapter ?k m = Inr (t, m)"
    "collect_all [] (root t) = Some (sorted_list_of_set (used_values w M ?k))"
    by (rule used_tree_eq[OF s])
  have IW: "index_world H (pairs w) (tiered w)" and ix: "indexes H (pairs w) (tiered w) m (map_rel M)"
    using W s by (simp_all add: db_world_def db_rep_def)
  let ?vs = "filter P (sorted_list_of_set (used_values w M ?k))"
  have vs: "set ?vs = {v \<in> used_values w M ?k. P v}" using finite_used[OF W s] by auto
  have "(?k, v) \<in> pairs w" if "v \<in> set ?vs" for v
  proof -
    have "v \<in> used_values w M ?k" using that finite_used[OF W s] by simp
    then show ?thesis
      using indexesD(1)[OF ix] by (auto simp: used_values_def ids_of_def simp flip: map_rel_ids)
  qed
  from union_bitmaps_eq[OF IW ix this, of ?vs "{}"]
  have u: "union_bitmaps H mem_adapter ?k ?vs {} m = Inr (\<Union>v \<in> set ?vs. ids_of (map_rel M) ?k v, m)"
    by simp
  have "(\<Union>v \<in> set ?vs. ids_of (map_rel M) ?k v) = matching_ids M (has_value w key P)"
    unfolding vs by (auto simp: map_rel_ids used_values_def matching_ids_def has_value_def)
  with u t(1) scan[OF t(2)] show ?thesis
    by (simp add: read_range_def sbind_def or_panic_def sret_def)
qed

lemma satisfies_fun:
  "satisfies w QAll = (\<lambda>_. True)"
  "satisfies w (QEq key value) = (\<lambda>e. (pair_key_bytes key, value) \<in> entity_pairs e)"
  "satisfies w (QNeq key value) = (\<lambda>e. \<not> (pair_key_bytes key, value) \<in> entity_pairs e)"
  "satisfies w (QIn key values) = (\<lambda>e. \<exists>v \<in> set values. (pair_key_bytes key, v) \<in> entity_pairs e)"
  "satisfies w (QNotIn key values) = (\<lambda>e. \<not> (\<exists>v \<in> set values. (pair_key_bytes key, v) \<in> entity_pairs e))"
  "satisfies w (QAnd l r) = (\<lambda>e. satisfies w l e \<and> satisfies w r e)"
  "satisfies w (QOr l r) = (\<lambda>e. satisfies w l e \<or> satisfies w r e)"
  "satisfies w (QNot q) = (\<lambda>e. \<not> satisfies w q e)"
  "satisfies w (QGt key x) = has_value w key (\<lambda>v. x < v)"
  "satisfies w (QGte key x) = has_value w key (\<lambda>v. x \<le> v)"
  "satisfies w (QLt key x) = has_value w key (\<lambda>v. v < x)"
  "satisfies w (QLte key x) = has_value w key (\<lambda>v. v \<le> x)"
  "satisfies w (QGlob key x) = has_value w key (\<lambda>v. take (length x) v = x)"
  "satisfies w (QNotGlob key x) = (\<lambda>e. \<not> has_value w key (\<lambda>v. take (length x) v = x) e)"
  by (simp_all add: fun_eq_iff)

lemma eval_eq:
  assumes W: "db_world H w" and s: "db_rep H w m M n" and all: "(ANNOT_ALL, []) \<in> pairs w"
    and q: "query_ok w q"
  shows "eval H mem_adapter q m = Inr (matching_ids M (satisfies w q), m)"
proof -
  have IW: "index_world H (pairs w) (tiered w)" and ix: "indexes H (pairs w) (tiered w) m (map_rel M)"
    and st: "store_rep H w m M n"
    using W s by (simp_all add: db_world_def db_rep_def)
  note B = read_bitmap_eq[OF IW ix] and U = union_bitmaps_eq[OF IW ix]
  note matching = matching_ids_unique[of M, OF id_unique[OF W st]]
  have A: "all_entities H mem_adapter m = Inr (matching_ids M (\<lambda>_. True), m)"
    by (simp add: all_entities_def B[OF all] map_rel_ids entity_pairs_eq)
  have minus: "minus_from_all H mem_adapter n m = Inr (matching_ids M (\<lambda>e. \<not> P e), m)"
    if "n m = Inr (matching_ids M P, m)" for n P
    using that by (simp add: minus_from_all_def sbind_def A sret_def matching(1))
  have cup: "matching_ids M (satisfies w (QOr l r)) =
      matching_ids M (satisfies w l) \<union> matching_ids M (satisfies w r)" for l r
    by (simp add: satisfies_fun matching_ids_simps)
  have cap: "matching_ids M (satisfies w (QAnd l r)) =
      matching_ids M (satisfies w l) \<inter> matching_ids M (satisfies w r)" for l r
    by (simp add: satisfies_fun matching(2))
  have isin: "read_in H mem_adapter k vs m =
      Inr (matching_ids M (\<lambda>e. \<exists>v \<in> set vs. (pair_key_bytes k, v) \<in> entity_pairs e), m)"
    if "\<forall>v \<in> set vs. (pair_key_bytes k, v) \<in> pairs w" for k vs
    unfolding read_in_def bitmap_new_def matching_ids_simps using that U by (simp add: map_rel_ids)
  have iseq: "read_eq H mem_adapter k v m =
      Inr (matching_ids M (\<lambda>e. (pair_key_bytes k, v) \<in> entity_pairs e), m)"
    if "(pair_key_bytes k, v) \<in> pairs w" for k v
    using B[OF that] by (simp add: read_eq_def map_rel_ids)
  note R = range_eq[OF W s]
  show ?thesis using q
  proof (induction q)
    case (QAnd l r)
    then show ?case by (simp add: sbind_def sret_def cap del: satisfies.simps)
  next
    case (QOr l r)
    then show ?case by (simp add: sbind_def sret_def cup del: satisfies.simps)
  next
    case (QNot q)
    then show ?case unfolding satisfies_fun eval.simps by (intro minus) simp
  next
    case (QNotGlob k p)
    then have "read_range H mem_adapter (\<lambda>t. iter_prefix t p) k m =
      Inr (matching_ids M (has_value w k (\<lambda>v. take (length p) v = p)), m)"
      by (intro R iter_filtered(5)) simp_all
    then show ?case unfolding satisfies_fun eval.simps by (rule minus)
  next
    case (QGt k x)
    then show ?case unfolding satisfies_fun eval.simps by (intro R iter_filtered(1)) simp_all
  next
    case (QGte k x)
    then show ?case unfolding satisfies_fun eval.simps by (intro R iter_filtered(2)) simp_all
  next
    case (QLt k x)
    then show ?case unfolding satisfies_fun eval.simps by (intro R iter_filtered(3)) simp_all
  next
    case (QLte k x)
    then show ?case unfolding satisfies_fun eval.simps by (intro R iter_filtered(4)) simp_all
  next
    case (QGlob k x)
    then show ?case unfolding satisfies_fun eval.simps by (intro R iter_filtered(5)) simp_all
  next
    case (QIn k vs)
    then show ?case using isin unfolding satisfies_fun by simp
  next
    case (QNotIn k vs)
    then show ?case unfolding satisfies_fun eval.simps by (intro minus isin) simp
  next
    case (QNeq k v)
    then show ?case unfolding satisfies_fun eval.simps by (intro minus iseq) simp
  next
    case (QEq k v)
    then show ?case using iseq unfolding satisfies_fun by simp
  next
    case QAll
    then show ?case using A unfolding satisfies_fun by simp
  qed
qed

subsection \<open>Pages\<close>

definition below :: "u64 option \<Rightarrow> u64 \<Rightarrow> bool" where
  "below cursor i \<longleftrightarrow> (case cursor of None \<Rightarrow> True | Some c \<Rightarrow> i < c)"

text \<open>The ids below the cursor, newest first.\<close>

definition ids_below :: "u64 set \<Rightarrow> u64 option \<Rightarrow> u64 list" where
  "ids_below S cursor = rev (sorted_list_of_set {i \<in> S. below cursor i})"

lemma finite_u64 [simp]: "finite (S :: u64 set)"
  by (rule finite_subset[OF subset_UNIV]) simp

lemma set_ids_below [simp]: "set (ids_below S cursor) = {i \<in> S. below cursor i}"
  by (simp add: ids_below_def)

lemma rev_dropWhile_sorted:
  "sorted xs \<Longrightarrow> rev (dropWhile (\<lambda>i. c \<le> i) (rev xs)) = filter (\<lambda>i. i < c) xs" for c :: "'a::linorder"
proof (induction xs rule: rev_induct)
  case (snoc x xs)
  show ?case
  proof (cases "c \<le> x")
    case True
    then show ?thesis using snoc by (simp add: sorted_append)
  next
    case False
    then have "filter (\<lambda>i. i < c) xs = xs"
      using snoc.prems by (auto simp: sorted_append filter_id_conv)
    then show ?thesis using False by simp
  qed
qed simp

lemma pop_above_ids: "rev (pop_above cursor (sort (bitmap_iter S))) = ids_below S cursor"
proof (cases cursor)
  case None
  then show ?thesis
    by (simp add: pop_above_def bitmap_iter_def ids_below_def below_def sort_key_id_if_sorted)
next
  case (Some c)
  have "filter (\<lambda>i. i < c) (sorted_list_of_set S) = sorted_list_of_set {i \<in> S. i < c}"
    by (rule sorted_distinct_set_unique) (simp_all add: sorted_wrt_filter)
  then show ?thesis
    using Some by (simp add: pop_above_def bitmap_iter_def ids_below_def below_def
        sort_key_id_if_sorted rev_dropWhile_sorted flip: rev_filter)
qed

text \<open>The entities of a list of ids.\<close>

definition entities_of :: "entity_map \<Rightarrow> u64 list \<Rightarrow> entity_rlp list \<Rightarrow> bool" where
  "entities_of M ids es \<longleftrightarrow> list_all2 (\<lambda>i e. \<exists>key. M key = Some (i, e)) ids es"

definition page_of :: "entity_map \<Rightarrow> nat \<Rightarrow> u64 list \<Rightarrow> page \<Rightarrow> bool" where
  "page_of M n ids pg \<longleftrightarrow> entities_of M (take n ids) (entries pg) \<and>
     next_cursor pg = (if n < length ids then Some (ids ! (n - 1)) else None)"

lemma page_loop_ok:
  assumes res: "\<And>i. i \<in> set ids \<Longrightarrow> \<exists>key e. M key = Some (i, e) \<and> resolve_id H mem_adapter i m = Inr (Some e, m)"
    and "length es \<le> p"
  shows "\<exists>es'. entities_of M (take (p - length es) ids) es' \<and>
    page_loop H mem_adapter p ids es l m = Inr ((es @ es',
      (if take (p - length es) ids = [] then l else Some (last (take (p - length es) ids))),
      p - length es < length ids), m)"
  using assms
proof (induction ids arbitrary: es l)
  case Nil
  then show ?case by (simp add: sret_def entities_of_def)
next
  case (Cons i ids)
  show ?case
  proof (cases "length es = p")
    case True
    then show ?thesis by (simp add: sret_def entities_of_def)
  next
    case False
    obtain key e where e: "M key = Some (i, e)" "resolve_id H mem_adapter i m = Inr (Some e, m)"
      using Cons.prems(1)[of i] by auto
    obtain es' where IH: "entities_of M (take (p - length (es @ [e])) ids) es'"
      "page_loop H mem_adapter p ids (es @ [e]) (Some i) m = Inr (((es @ [e]) @ es',
        (if take (p - length (es @ [e])) ids = [] then Some i else Some (last (take (p - length (es @ [e])) ids))),
        p - length (es @ [e]) < length ids), m)"
      using Cons.IH[of "es @ [e]" "Some i"] Cons.prems False by auto
    obtain d where d: "p - length es = Suc d" using False Cons.prems(2) by (cases "p - length es") auto
    then have d': "p - Suc (length es) = d" by simp
    have nl: "\<not> p \<le> length es" using d by linarith
    show ?thesis
      by (intro exI[of _ "e # es'"])
        (use IH e nl in \<open>auto simp: d d' sbind_def entities_of_def\<close>)
  qed
qed

lemma execute_eq:
  assumes W: "db_world H w" and s: "db_rep H w m M n" and all: "(ANNOT_ALL, []) \<in> pairs w"
    and q: "parse env str = Inr q" "query_ok w q" and p: "ps \<noteq> 0"
  shows "\<exists>pg. execute env H mem_adapter str ps cursor m = Inr (pg, m) \<and>
    page_of M (unat ps) (ids_below (matching_ids M (satisfies w q)) cursor) pg"
proof -
  let ?ids = "ids_below (matching_ids M (satisfies w q)) cursor"
  have st: "store_rep H w m M n" using s by (simp add: db_rep_def)
  have "\<exists>key e. M key = Some (i, e) \<and> resolve_id H mem_adapter i m = Inr (Some e, m)" if "i \<in> set ?ids" for i
  proof -
    have "i \<in> matching_ids M (satisfies w q)" using that by simp
    then obtain key e where M: "M key = Some (i, e)" by (auto simp: matching_ids_def)
    have "wp (resolve_id H mem_adapter i) m (\<lambda>r m'. r = Some e \<and> m' = m)"
      by (simp add: wp_resolve[OF W st M])
    then show ?thesis using M by (auto simp: wp_iff)
  qed
  from page_loop_ok[of ?ids M H m "[]" "unat ps" None, OF this] obtain es where
    es: "entities_of M (take (unat ps) ?ids) es"
      "page_loop H mem_adapter (unat ps) ?ids [] None m = Inr ((es,
        (if take (unat ps) ?ids = [] then None else Some (last (take (unat ps) ?ids))),
        unat ps < length ?ids), m)" by auto
  have ps0: "unat ps \<noteq> 0" using p by (simp add: unat_eq_0)
  have l: "last (take (unat ps) ?ids) = ?ids ! (unat ps - 1)" if "unat ps < length ?ids"
    using that ps0 by (subst last_conv_nth) auto
  show ?thesis
    using es p q(1) eval_eq[OF W s all q(2)] l ps0
    by (auto simp: execute_def sbind_def smap_err_def slift_def sret_def pop_above_ids page_of_def Let_def)
qed

end
