(* ===== verification/QueryAnswers.thy ===== *)
theory QueryAnswers
  imports InterpSound LexerPrint
begin

text \<open>
  What a query returns on the state a history of operations leaves behind: the bitmap of the
  evaluator, one page of \<open>execute\<close>, and the walk of a client that follows the cursors.
\<close>

subsection \<open>Following the cursors\<close>

fun walk_pages ::
  "nat \<Rightarrow> lexenv \<Rightarrow> hostlib \<Rightarrow> 's state_adapter \<Rightarrow> ustring \<Rightarrow> u64 \<Rightarrow> u64 option \<Rightarrow>
    ('s, exec_error, entity_rlp list option) sm" where
  "walk_pages 0 env H A str ps cursor = sret None"
| "walk_pages (Suc k) env H A str ps cursor =
     sbind (execute env H A str ps cursor) (\<lambda>pg.
     case next_cursor pg of
       None \<Rightarrow> sret (Some (entries pg))
     | Some c \<Rightarrow> sbind (walk_pages k env H A str ps (Some c)) (\<lambda>r.
         sret (map_option (\<lambda>es. entries pg @ es) r)))"

context reader_laws
begin

lemma sim_walk: "sim (walk_pages k env H A str ps c) (walk_pages k env H mem_adapter str ps c)"
proof (induction k arbitrary: c)
  case 0
  then show ?case by (simp add: sim_intros)
next
  case (Suc k)
  then show ?case unfolding walk_pages.simps by (intro sim_intros sim_execute)
qed

end

lemma ids_below_desc: "sorted_wrt (\<lambda>a b. b < a) (ids_below S cursor)"
  by (simp add: ids_below_def sorted_wrt_rev strict_sorted_list_of_set)

text \<open>The cursor of a page continues exactly where the page ended.\<close>

lemma ids_below_next:
  assumes n: "0 < n" "n < length (ids_below S cursor)"
  shows "ids_below S (Some (ids_below S cursor ! (n - 1))) = drop n (ids_below S cursor)"
proof -
  let ?D = "ids_below S cursor"
  let ?c = "?D ! (n - 1)"
  have split: "?D = take n ?D @ drop n ?D" by simp
  have c: "?c \<in> set ?D" "?c = last (take n ?D)"
    using n by (intro nth_mem, simp, subst last_conv_nth, auto)
  have desc: "sorted_wrt (\<lambda>a b. b < a) (take n ?D)" "sorted_wrt (\<lambda>a b. b < a) (drop n ?D)"
    "\<And>a b. a \<in> set (take n ?D) \<Longrightarrow> b \<in> set (drop n ?D) \<Longrightarrow> b < a"
    using ids_below_desc[of S cursor] split sorted_wrt_append[of "\<lambda>a b. b < a" "take n ?D" "drop n ?D"]
    by auto
  have lt: "b < ?c" if "b \<in> set (drop n ?D)" for b
  proof -
    have "?c \<in> set (take n ?D)" using n unfolding c(2) by (intro last_in_set) auto
    then show ?thesis using desc(3) that by blast
  qed
  have ge: "?c \<le> a" if a: "a \<in> set (take n ?D)" for a
  proof -
    obtain j where j: "j < length (take n ?D)" "take n ?D ! j = a" using a by (auto simp: in_set_conv_nth)
    have "j = n - 1 \<or> j < n - 1" using j n by auto
    then show ?thesis
      using sorted_wrt_nth_less[OF desc(1), of j "n - 1"] j n by auto
  qed
  have "{i \<in> S. below (Some ?c) i} = set (drop n ?D)"
  proof (intro set_eqI iffI)
    fix i assume i: "i \<in> {i \<in> S. below (Some ?c) i}"
    then have "i \<in> set ?D" using c(1) by (auto simp: below_def split: option.splits)
    then have "i \<in> set (take n ?D) \<or> i \<in> set (drop n ?D)" by (metis UnE append_take_drop_id set_append)
    then show "i \<in> set (drop n ?D)" using ge[of i] i by (auto simp: below_def)
  next
    fix i assume i: "i \<in> set (drop n ?D)"
    then have "i \<in> set ?D" using in_set_dropD by metis
    then show "i \<in> {i \<in> S. below (Some ?c) i}" using lt[OF i] by (auto simp: below_def)
  qed
  moreover have "sorted_list_of_set (set (drop n ?D)) = rev (drop n ?D)"
    by (rule sorted_distinct_set_unique)
      (use desc(2) in \<open>auto simp: sorted_wrt_rev distinct_drop ids_below_def
        intro: sorted_wrt_mono_rel[rotated]\<close>)
  ultimately show ?thesis unfolding ids_below_def[of S "Some ?c"] by simp
qed


lemma walk_ok:
  assumes W: "db_world H w" and s: "db_rep H w m M n" and all: "(ANNOT_ALL, []) \<in> pairs w"
    and q: "parse env str = Inr q" "query_ok w q" and p: "ps \<noteq> 0"
    and k: "length (ids_below (matching_ids M (satisfies w q)) cursor) < k"
  shows "\<exists>es. walk_pages k env H mem_adapter str ps cursor m = Inr (Some es, m) \<and>
    entities_of M (ids_below (matching_ids M (satisfies w q)) cursor) es"
  using k
proof (induction k arbitrary: cursor)
  case (Suc k)
  let ?ids = "ids_below (matching_ids M (satisfies w q)) cursor"
  obtain pg where pg: "execute env H mem_adapter str ps cursor m = Inr (pg, m)" "page_of M (unat ps) ?ids pg"
    using execute_eq[OF W s all q p] by blast
  show ?case
  proof (cases "unat ps < length ?ids")
    case False
    then show ?thesis using pg by (simp add: sbind_def page_of_def sret_def)
  next
    case True
    have ps: "0 < unat ps" using p by (simp add: unat_gt_0)
    then have "length (drop (unat ps) ?ids) < k" using Suc.prems True by simp
    from Suc.IH[of "Some (?ids ! (unat ps - 1))", unfolded ids_below_next[OF ps True], OF this]
    obtain es where es: "walk_pages k env H mem_adapter str ps (Some (?ids ! (unat ps - 1))) m = Inr (Some es, m)"
      "entities_of M (drop (unat ps) ?ids) es" by blast
    have "entities_of M (take (unat ps) ?ids @ drop (unat ps) ?ids) (entries pg @ es)"
      using pg(2) es(2) unfolding entities_of_def page_of_def by (intro list_all2_appendI) auto
    then show ?thesis
      using pg es(1) True by (simp add: sbind_def page_of_def sret_def)
  qed
qed simp

lemma length_ids_below: "length (ids_below S None) = card S"
  by (simp add: ids_below_def below_def)

subsection \<open>Queries after a history\<close>

text \<open>The conditions shared by the query properties, with the map the history ends in.\<close>

definition history_ok :: "hostlib \<Rightarrow> universe \<Rightarrow> db_op list \<Rightarrow> entity_map \<Rightarrow> nat \<Rightarrow> bool" where
  "history_ok H w ops M n \<longleftrightarrow> db_world H w \<and> (ANNOT_ALL, []) \<in> pairs w \<and>
     (\<forall>op \<in> set ops. op_ok w op) \<and> distinct (created_keys ops) \<and>
     length (created_keys ops) \<le> max_ids w \<and> spec_history ops (Map.empty, 0) = Inr (M, n)"

definition query_in :: "universe \<Rightarrow> lexenv \<Rightarrow> ustring \<Rightarrow> query \<Rightarrow> bool" where
  "query_in w env str q \<longleftrightarrow> parse env str = Inr q \<and> query_ok w q"

lemma history_okD:
  assumes "history_ok H w ops M n"
  obtains db where "run_history H in_memory_adapter ops Map.empty = Inr ((), db)"
    "db_world H w" "db_rep H w (db_view db) M n" "(ANNOT_ALL, []) \<in> pairs w"
proof -
  have "\<exists>db. run_history H in_memory_adapter ops Map.empty = Inr ((), db) \<and> db_rep H w (db_view db) M n"
    using history_rep[of H w ops] assms by (simp add: history_ok_def)
  then show thesis using that assms by (auto simp: history_ok_def)
qed




subsection \<open>The properties on a concrete history\<close>

definition demo_tokens :: "token list" where
  "demo_tokens = [TIdent (ascii ''tag''), TEq, TStringLit (ascii ''music''), TAnd,
     TDollarExpiration, TGt, TNumber 150]"

definition demo_query :: ustring where
  "demo_query = show_tokens demo_tokens"

definition demo_parsed :: query where
  "demo_parsed = QAnd (QEq (User (ascii ''tag'')) (utf8 (ascii ''music''))) (QGt (BuiltIn Expiration) (u64_be 150))"

lemma demo_printable: "\<forall>t \<in> set demo_tokens. printable plain_env t"
  by (simp add: demo_tokens_def printable_def is_ident_start_def is_alphabetic_def is_ascii_alpha_def
      is_whitespace_def is_ident_continue_def is_alphanumeric_def keyword_or_ident_def
      eq_ignore_ascii_case_def to_ascii_lower_def ascii_def)

lemma demo_parse: "parse plain_env demo_query = Inr demo_parsed"
proof -
  have "tokenize plain_env demo_query = Inr demo_tokens"
    using tokenize_from_show[OF demo_printable plain_hex_law, of "[]" 0]
    by (simp add: tokenize_def demo_query_def)
  moreover have "parse_range plain_env (BuiltIn Expiration) QGt [TNumber 150] =
      Inr (QGt (BuiltIn Expiration) (u64_be 150), [])"
    by (simp add: parse_range_def reject_range_def parse_value_def split: unit.splits)
  then have "parse_top_level plain_env demo_tokens = Inr demo_parsed"
    by (simp add: parse_top_level_def demo_tokens_def demo_parsed_def peek_def parse_or.simps or_loop.simps
        parse_and.simps and_loop.simps parse_term.simps parse_predicate_def parse_value_def)
  ultimately show ?thesis by (simp add: parse_def)
qed

lemma demo_history_ok: "history_ok demo_host demo_universe demo_ops [key_1 \<mapsto> (0, demo_entity)] 1"
proof -
  have "created_keys demo_ops = [key_1]" by (simp add: created_keys_def demo_ops_def)
  then show ?thesis
    using demo_db_world demo_ops_ok demo_spec
    by (simp add: history_ok_def demo_universe_def list_universe_def demo_pairs_def)
qed

lemma demo_query_pairs:
  "list_all (\<lambda>p. p \<in> set demo_pairs)
     [(pair_key_bytes (User (ascii ''tag'')), utf8 (ascii ''music'')), (pair_key_bytes (BuiltIn Expiration), u64_be 200)] \<and>
   list_all (\<lambda>p. p \<in> set (map (\<lambda>a. (ann_key a, ann_value a)) (entity_annotations demo_entity)))
     [(pair_key_bytes (User (ascii ''tag'')), utf8 (ascii ''music'')), (pair_key_bytes (BuiltIn Expiration), u64_be 200)] \<and>
   demo_tier (pair_key_bytes (BuiltIn Expiration)) \<and> u64_be 150 < u64_be 200"
  by code_simp

lemma demo_query_ok: "query_ok demo_universe demo_parsed"
proof -
  have "pair_key_bytes (BuiltIn Expiration) \<in> fst ` set demo_pairs"
    using demo_query_pairs by (intro image_eqI[of _ _ "(pair_key_bytes (BuiltIn Expiration), u64_be 200)"]) (simp_all del: pair_key_bytes.simps)
  then show ?thesis
    using demo_query_pairs unfolding demo_parsed_def demo_universe_def list_universe_def
    by (simp del: pair_key_bytes.simps)
qed

lemma demo_satisfies: "satisfies demo_universe demo_parsed demo_entity"
proof -
  have "set (map (\<lambda>a. (ann_key a, ann_value a)) (entity_annotations demo_entity)) = entity_pairs demo_entity"
    by (auto simp: entity_pairs_def ann_pairs_def)
  then show ?thesis
    using demo_query_pairs unfolding demo_parsed_def demo_universe_def list_universe_def
    by (auto simp: has_value_def simp del: pair_key_bytes.simps)
qed

lemma demo_query_in: "query_in demo_universe plain_env demo_query demo_parsed"
  using demo_parse demo_query_ok by (simp add: query_in_def)

lemma demo_matches: "matching_ids [key_1 \<mapsto> (0, demo_entity)] (satisfies demo_universe demo_parsed) = {0}"
  using demo_satisfies by (simp add: demo_matching)




end
