(* ===== verification/PrecompileRun.thy ===== *)
theory PrecompileRun
  imports Precompile
begin

text \<open>
  The precompile, continued: signed payload references, the provider payment, the guards of the
  six operations, gas, and the dispatch of a call.
\<close>

subsection \<open>Payload references\<close>

record payload_receipt =
  rc_service :: ustring
  rc_action :: ustring
  rc_payload_id :: ustring
  rc_namespace :: ustring
  rc_checksum :: ustring
  rc_size_bytes :: u64
  rc_submitted_at :: ustring
  rc_nonce :: ustring
  rc_payment :: u64

record payload_signature =
  sig_scheme :: ustring
  sig_signer :: ustring
  sig_receipt :: payload_receipt
  sig_message_hash :: ustring
  sig_signature :: ustring
  sig_r :: ustring
  sig_s :: ustring
  sig_v :: byte

record payload_reference =
  ref_kind :: ustring
  ref_version :: u64
  ref_provider :: ustring
  ref_id :: ustring
  ref_namespace :: ustring
  ref_content_type :: "ustring option"
  ref_checksum :: ustring
  ref_size_bytes :: u64
  ref_submitted_at :: ustring
  ref_nonce :: ustring
  ref_payment :: u64
  ref_signature :: payload_signature

text \<open>
  serde_json, EIP-191, hex and secp256k1 of the crates the precompile uses. \<open>decode_to_slice s n\<close>
  decodes into a buffer of \<open>n\<close> bytes.
\<close>

record payload_lib =
  from_slice :: "bytes \<Rightarrow> payload_reference option"
  receipt_to_vec :: "payload_receipt \<Rightarrow> bytes"
  eip191_hash_message :: "bytes \<Rightarrow> b256"
  encode_prefixed :: "bytes \<Rightarrow> ustring"
  decode_to_slice :: "ustring \<Rightarrow> nat \<Rightarrow> bytes option"
  parse_address :: "ustring \<Rightarrow> address option"
  recover_address_from_prehash :: "b256 \<Rightarrow> b256 \<Rightarrow> bool \<Rightarrow> b256 \<Rightarrow> address option"

record payload_auth =
  auth_nonce :: b256
  auth_content_type :: bytes
  auth_payment :: u64
  auth_provider :: address

definition PAYLOAD_REFERENCE_KIND :: ustring where
  "PAYLOAD_REFERENCE_KIND = ascii ''atlas.payloadReference''"

definition PAYLOAD_REFERENCE_VERSION :: u64 where
  "PAYLOAD_REFERENCE_VERSION = 1"

definition PAYLOAD_PROVIDER_SERVICE :: ustring where
  "PAYLOAD_PROVIDER_SERVICE = ascii ''atlas-payload-provider''"

definition PAYLOAD_PROVIDER_RECEIPT_ACTION :: ustring where
  "PAYLOAD_PROVIDER_RECEIPT_ACTION = ascii ''payloadReceived''"

definition DEV_CHAIN_ID :: u64 where "DEV_CHAIN_ID = 1337"

definition TRUSTED_PAYLOAD_PROVIDER_SIGNERS :: "address list" where
  "TRUSTED_PAYLOAD_PROVIDER_SIGNERS =
     [[0xbd, 0xd2, 0x3f, 0xd1, 0xba, 0xb3, 0xf4, 0x07, 0x5e, 0xde, 0xf4, 0x73, 0x8d, 0x1d, 0x78, 0xa6,
       0xbc, 0x5c, 0x23, 0x6c]]"

definition TRUSTED_DEV_PAYLOAD_PROVIDER_SIGNERS :: "address list" where
  "TRUSTED_DEV_PAYLOAD_PROVIDER_SIGNERS =
     [[0x7e, 0x5f, 0x45, 0x52, 0x09, 0x1a, 0x69, 0x12, 0x5d, 0x5d, 0xfc, 0xb7, 0xb8, 0xc2, 0x65, 0x90,
       0x29, 0x39, 0x5b, 0xdf]]"

text \<open>Lengths and bytes of a Rust string are those of its UTF-8 form.\<close>

definition is_lower_hex :: "byte \<Rightarrow> bool" where
  "is_lower_hex b \<longleftrightarrow> (0x30 \<le> b \<and> b \<le> 0x39) \<or> (0x61 \<le> b \<and> b \<le> 0x66)"

definition ensure :: "bool \<Rightarrow> sol_error \<Rightarrow> sol_error + unit" where
  "ensure c e = (if c then Inr () else Inl e)"

definition validate_payload_id :: "ustring \<Rightarrow> sol_error + unit" where
  "validate_payload_id value =
     ensure (length (utf8 value) = 64 \<and> list_all is_lower_hex (utf8 value)) PayloadReferenceMalformed"

definition validate_payload_checksum :: "ustring \<Rightarrow> sol_error + unit" where
  "validate_payload_checksum value =
     (case strip_prefix (ascii ''sha256:'') value of
        None \<Rightarrow> Inl PayloadReferenceMalformed
      | Some h \<Rightarrow> ensure (length (utf8 h) = 64 \<and> list_all is_lower_hex (utf8 h)) PayloadReferenceMalformed)"

definition namespace_byte :: "byte \<Rightarrow> bool" where
  "namespace_byte b \<longleftrightarrow> (0x61 \<le> b \<and> b \<le> 0x7A) \<or> (0x41 \<le> b \<and> b \<le> 0x5A) \<or> (0x30 \<le> b \<and> b \<le> 0x39) \<or>
     b = 0x2E \<or> b = 0x2D \<or> b = 0x5F"

definition validate_payload_namespace :: "ustring \<Rightarrow> sol_error + unit" where
  "validate_payload_namespace value =
     (if value = [] \<or> 64 < length (utf8 value) then Inl PayloadReferenceMalformed
      else ensure (list_all namespace_byte (utf8 value)) PayloadReferenceMalformed)"

definition printable_byte :: "byte \<Rightarrow> bool" where
  "printable_byte b \<longleftrightarrow> 0x20 \<le> b \<and> b \<le> 0x7E"

definition validate_payload_content_type :: "ustring option \<Rightarrow> sol_error + unit" where
  "validate_payload_content_type value =
     (case value of
        None \<Rightarrow> Inr ()
      | Some v \<Rightarrow>
          if v = [] \<or> 128 < length (utf8 v) then Inl PayloadReferenceMalformed
          else ensure (list_all printable_byte (utf8 v)) PayloadReferenceMalformed)"

definition validate_payload_size :: "u64 \<Rightarrow> sol_error + unit" where
  "validate_payload_size size_bytes = ensure (0 < size_bytes) PayloadReferenceMalformed"

definition validate_submitted_at :: "ustring \<Rightarrow> sol_error + unit" where
  "validate_submitted_at value =
     (if value = [] \<or> 64 < length (utf8 value) \<or> \<not> list_all printable_byte (utf8 value)
      then Inl PayloadReferenceMalformed else Inr ())"

definition validate_payload_reference_payment :: "u64 \<Rightarrow> sol_error + unit" where
  "validate_payload_reference_payment payment =
     (if payment = 0 then Inl (PayloadReferencePaymentInvalid 0) else Inr ())"

definition decode_prefixed_hex_exact :: "payload_lib \<Rightarrow> ustring \<Rightarrow> nat \<Rightarrow> sol_error + bytes" where
  "decode_prefixed_hex_exact L value expected_bytes =
     (if take 2 value = ascii ''0x'' \<or> take 2 value = ascii ''0X'' then
        let hex_body = drop 2 value in
        if length (utf8 hex_body) \<noteq> expected_bytes * 2 then Inl PayloadProviderSignatureInvalid
        else (case decode_to_slice L hex_body expected_bytes of
                None \<Rightarrow> Inl PayloadProviderSignatureInvalid | Some out \<Rightarrow> Inr out)
      else Inl PayloadProviderSignatureInvalid)"

definition decode_prefixed_hex_32 :: "payload_lib \<Rightarrow> ustring \<Rightarrow> sol_error + bytes" where
  "decode_prefixed_hex_32 L value = decode_prefixed_hex_exact L value 32"

definition validate_payload_reference_nonce :: "payload_lib \<Rightarrow> ustring \<Rightarrow> sol_error + b256" where
  "validate_payload_reference_nonce L value =
     (case decode_prefixed_hex_32 L value of
        Inl _ \<Rightarrow> Inl PayloadReferenceMalformed
      | Inr nonce \<Rightarrow> if nonce = zero_b256 then Inl PayloadReferenceMalformed else Inr nonce)"

definition is_trusted_payload_provider_signer :: "address \<Rightarrow> u64 \<Rightarrow> bool" where
  "is_trusted_payload_provider_signer signer chain \<longleftrightarrow>
     signer \<in> set TRUSTED_PAYLOAD_PROVIDER_SIGNERS \<or>
     (chain = DEV_CHAIN_ID \<and> signer \<in> set TRUSTED_DEV_PAYLOAD_PROVIDER_SIGNERS)"

text \<open>Sequencing of fallible steps (the question mark operator).\<close>

definition try_then :: "'e + 'a \<Rightarrow> ('a \<Rightarrow> 'e + 'b) \<Rightarrow> 'e + 'b" where
  "try_then r f = (case r of Inl e \<Rightarrow> Inl e | Inr x \<Rightarrow> f x)"

definition validate_payload_signature ::
  "payload_lib \<Rightarrow> payload_receipt \<Rightarrow> payload_signature \<Rightarrow> u64 \<Rightarrow> sol_error + address" where
  "validate_payload_signature L expected_receipt signature chain =
     (if sig_scheme signature \<noteq> ascii ''eip191'' then Inl PayloadProviderSignatureInvalid
      else if sig_receipt signature \<noteq> expected_receipt then Inl PayloadProviderReceiptMismatch
      else if sig_v signature \<noteq> 27 \<and> sig_v signature \<noteq> 28 then Inl PayloadProviderSignatureInvalid
      else
        try_then (decode_prefixed_hex_32 L (sig_r signature)) (\<lambda>r.
        try_then (decode_prefixed_hex_32 L (sig_s signature)) (\<lambda>s.
        try_then (decode_prefixed_hex_exact L (sig_signature signature) 65) (\<lambda>packed.
        if take 32 packed \<noteq> r \<or> take 32 (drop 32 packed) \<noteq> s \<or> packed ! 64 \<noteq> sig_v signature
        then Inl PayloadProviderSignatureInvalid
        else
          let message_hash = eip191_hash_message L (receipt_to_vec L expected_receipt) in
          if sig_message_hash signature \<noteq> encode_prefixed L message_hash
          then Inl PayloadProviderSignatureInvalid
          else case parse_address L (sig_signer signature) of
            None \<Rightarrow> Inl PayloadProviderSignatureInvalid
          | Some declared_signer \<Rightarrow>
              (case recover_address_from_prehash L r s (sig_v signature = 28) message_hash of
                 None \<Rightarrow> Inl PayloadProviderSignatureInvalid
               | Some recovered \<Rightarrow>
                   if recovered \<noteq> declared_signer then Inl PayloadProviderSignatureInvalid
                   else if \<not> is_trusted_payload_provider_signer declared_signer chain
                   then Inl (PayloadProviderSignerNotAllowed declared_signer)
                   else Inr declared_signer)))))"

definition expected_receipt_of :: "payload_reference \<Rightarrow> payload_receipt" where
  "expected_receipt_of ref =
     \<lparr>rc_service = PAYLOAD_PROVIDER_SERVICE, rc_action = PAYLOAD_PROVIDER_RECEIPT_ACTION,
      rc_payload_id = ref_id ref, rc_namespace = ref_namespace ref, rc_checksum = ref_checksum ref,
      rc_size_bytes = ref_size_bytes ref, rc_submitted_at = ref_submitted_at ref,
      rc_nonce = ref_nonce ref, rc_payment = ref_payment ref\<rparr>"

definition validate_payload_reference :: "payload_lib \<Rightarrow> bytes \<Rightarrow> u64 \<Rightarrow> sol_error + payload_auth" where
  "validate_payload_reference L payload chain =
     (case from_slice L payload of
        None \<Rightarrow> Inl PayloadReferenceMalformed
      | Some ref \<Rightarrow>
          if ref_kind ref \<noteq> PAYLOAD_REFERENCE_KIND then Inl PayloadReferenceMalformed
          else if ref_version ref \<noteq> PAYLOAD_REFERENCE_VERSION
          then Inl (PayloadReferenceUnsupportedVersion (ref_version ref))
          else if ref_provider ref \<noteq> PAYLOAD_PROVIDER_SERVICE
          then Inl (PayloadProviderUnknown (ref_provider ref))
          else
            try_then (validate_payload_id (ref_id ref)) (\<lambda>_.
            try_then (validate_payload_namespace (ref_namespace ref)) (\<lambda>_.
            try_then (validate_payload_content_type (ref_content_type ref)) (\<lambda>_.
            let content_type = (case ref_content_type ref of None \<Rightarrow> [] | Some c \<Rightarrow> utf8 c) in
            try_then (validate_payload_checksum (ref_checksum ref)) (\<lambda>_.
            try_then (validate_payload_size (ref_size_bytes ref)) (\<lambda>_.
            try_then (validate_submitted_at (ref_submitted_at ref)) (\<lambda>_.
            try_then (validate_payload_reference_nonce L (ref_nonce ref)) (\<lambda>nonce.
            try_then (validate_payload_reference_payment (ref_payment ref)) (\<lambda>_.
            try_then (validate_payload_signature L (expected_receipt_of ref) (ref_signature ref) chain)
              (\<lambda>provider.
            Inr \<lparr>auth_nonce = nonce, auth_content_type = content_type,
                 auth_payment = ref_payment ref, auth_provider = provider\<rparr>))))))))))"

subsection \<open>The context of a call\<close>

record 's call_ctx =
  host :: hostlib
  plib :: payload_lib
  sched :: schedule
  evm :: "'s internals"

definition adapter :: "'s call_ctx \<Rightarrow> 's state_adapter" where
  "adapter C = read_write_adapter (evm C)"

definition slift_revert :: "sol_error + 'a \<Rightarrow> ('s, apply_error, 'a) sm" where
  "slift_revert r = slift (map_sum Revert id r)"

definition validate_required_payload_reference ::
  "'s call_ctx \<Rightarrow> address \<Rightarrow> bytes \<Rightarrow> bytes \<Rightarrow> u64 \<Rightarrow> ('s, apply_error, payload_auth) sm" where
  "validate_required_payload_reference C caller payload content_type chain =
     (if content_type \<noteq> PAYLOAD_REFERENCE_CONTENT_TYPE
      then sfail (Revert (PayloadReferenceRequired content_type))
      else
        sbind (slift_revert (validate_payload_reference (plib C) payload chain)) (\<lambda>auth.
        sbind (fatal_db (payload_reference_nonce_used (host C) (adapter C) caller (auth_nonce auth))) (\<lambda>used.
        if used then sfail (Revert (PayloadReferenceNonceUsed (auth_nonce auth)))
        else
          sbind (fatal_db (consume_payload_reference_nonce (host C) (adapter C) caller (auth_nonce auth)))
            (\<lambda>_. sret auth))))"

subsection \<open>The provider payment\<close>

definition validate_payload_provider_payment_params :: "provider_payment \<Rightarrow> apply_error + unit" where
  "validate_payload_provider_payment_params p =
     (if PAYMENT_BPS_DENOMINATOR < provider_share_bps p then Inl (Fatal (FatalShare (provider_share_bps p)))
      else Inr ())"

definition apply_payload_provider_payment ::
  "'s call_ctx \<Rightarrow> address \<Rightarrow> u64 \<Rightarrow> payload_auth \<Rightarrow> ('s, apply_error, unit) sm" where
  "apply_payload_provider_payment C caller current_block auth =
     (let p = payload_provider_payment (params_for_block (sched C) current_block) in
      if \<not> pp_enabled p then sret ()
      else
        sbind (slift (validate_payload_provider_payment_params p)) (\<lambda>_.
        if auth_payment auth < minimum_payment p
        then sfail (Revert (PayloadReferencePaymentBelowMinimum (auth_payment auth) (minimum_payment p)))
        else
          let payment = (ucast (ucast (auth_payment auth) * ucast (basefee (evm C)) :: u128) :: u256) in
          sbind (fatal_db (load_balance (evm C) caller)) (\<lambda>balance.
          if balance < payment
          then sfail (Revert (PayloadReferencePaymentInsufficientBalance caller payment balance))
          else
            let provider_amount = payment * ucast (provider_share_bps p) div ucast PAYMENT_BPS_DENOMINATOR;
                burn_amount = sat_sub payment provider_amount in
            sbind
              (if 0 < provider_amount then
                 sbind (fatal_db (evm_transfer (evm C) caller (auth_provider auth) provider_amount)) (\<lambda>failed.
                 if failed
                 then sfail (Revert (PayloadProviderPaymentTransferFailed (auth_provider auth) provider_amount))
                 else sret ())
               else sret ()) (\<lambda>_.
            if 0 < burn_amount then
              sbind (fatal_db (load_balance (evm C) caller)) (\<lambda>post_transfer_balance.
              case checked_sub post_transfer_balance burn_amount of
                None \<Rightarrow> sfail (Revert (PayloadReferencePaymentInsufficientBalance caller payment post_transfer_balance))
              | Some new_balance \<Rightarrow> fatal_db (set_balance (evm C) caller new_balance))
            else sret ()))))"

subsection \<open>Entities and events\<close>

record existing_entity =
  ex_owner :: address
  ex_expires_at :: u64

definition load_entity :: "'s call_ctx \<Rightarrow> b256 \<Rightarrow> ('s, apply_error, existing_entity option) sm" where
  "load_entity C entity_key =
     sbind (fatal_db (ad_code (adapter C) (entity_address entity_key))) (\<lambda>code.
     if code = [] then sret None
     else
       sbind (fatal_db (slift (decode_from_code (host C) code))) (\<lambda>rlp.
       sret (Some \<lparr>ex_owner = ent_owner rlp, ex_expires_at = ent_expires_at rlp\<rparr>)))"

definition existing :: "'s call_ctx \<Rightarrow> b256 \<Rightarrow> ('s, apply_error, existing_entity) sm" where
  "existing C entity_key =
     sbind (load_entity C entity_key) (\<lambda>r.
     case r of None \<Rightarrow> sfail (Revert (EntityNotFound entity_key)) | Some e \<Rightarrow> sret e)"

definition load_entity_for_owner ::
  "'s call_ctx \<Rightarrow> address \<Rightarrow> u64 \<Rightarrow> b256 \<Rightarrow> bool \<Rightarrow> ('s, apply_error, existing_entity) sm" where
  "load_entity_for_owner C caller current_block entity_key allow_expired =
     sbind (existing C entity_key) (\<lambda>entity.
     if \<not> allow_expired \<and> ex_expires_at entity \<le> current_block
     then sfail (Revert (EntityExpired entity_key (clip_u32 (ex_expires_at entity))))
     else if ex_owner entity \<noteq> caller
     then sfail (Revert (NotOwner entity_key caller (ex_owner entity)))
     else sret entity)"

definition derive_entity_key :: "hostlib \<Rightarrow> u64 \<Rightarrow> address \<Rightarrow> u32 \<Rightarrow> b256" where
  "derive_entity_key H chain owner nonce =
     keccak256 H (u256_be (ucast chain) @ ARKIV_ADDRESS @ owner @ u32_be nonce)"

definition emit_entity_op ::
  "'s call_ctx \<Rightarrow> b256 \<Rightarrow> byte \<Rightarrow> address \<Rightarrow> u64 \<Rightarrow> ('s, apply_error, unit) sm" where
  "emit_entity_op C entity_key op_type owner expires_at s =
     Inr ((), evm_log (evm C) ARKIV_ADDRESS
       \<lparr>ev_entity_key = entity_key, ev_operation_type = op_type, ev_owner = owner,
        ev_expires_at = clip_u32 expires_at\<rparr> s)"

subsection \<open>The six operations\<close>

definition apply_create ::
  "'s call_ctx \<Rightarrow> address \<Rightarrow> u64 \<Rightarrow> u64 \<Rightarrow> operation \<Rightarrow> ('s, apply_error, unit) sm" where
  "apply_create C caller chain current_block op =
     (if op_btl op = 0 then sfail (Revert ZeroBtl)
      else
        sbind (slift_revert (validate_attribute_names (op_attributes op))) (\<lambda>_.
        let content_type = mime128_to_bytes (op_content_type op);
            expires_at = sat_add current_block (ucast (op_btl op)) in
        sbind (slift (convert_attributes (op_attributes op))) (\<lambda>attributes.
        sbind (validate_required_payload_reference C caller (op_payload op) content_type chain) (\<lambda>auth.
        sbind (apply_payload_provider_payment C caller current_block auth) (\<lambda>_.
        sbind (fatal_db (bump_nonce (host C) (adapter C) caller)) (\<lambda>current_nonce.
        let entity_key = derive_entity_key (host C) chain caller current_nonce in
        sbind (fatal_db (entitydb_create (host C) (adapter C) caller entity_key expires_at current_block
                 (op_payload op) (auth_content_type auth) attributes)) (\<lambda>_.
        emit_entity_op C entity_key OP_CREATE caller expires_at)))))))"

definition apply_update ::
  "'s call_ctx \<Rightarrow> address \<Rightarrow> u64 \<Rightarrow> u64 \<Rightarrow> operation \<Rightarrow> ('s, apply_error, unit) sm" where
  "apply_update C caller chain current_block op =
     sbind (slift_revert (validate_attribute_names (op_attributes op))) (\<lambda>_.
     let content_type = mime128_to_bytes (op_content_type op) in
     sbind (load_entity_for_owner C caller current_block (op_entity_key op) False) (\<lambda>entity.
     sbind (slift (convert_attributes (op_attributes op))) (\<lambda>attributes.
     sbind (validate_required_payload_reference C caller (op_payload op) content_type chain) (\<lambda>auth.
     sbind (apply_payload_provider_payment C caller current_block auth) (\<lambda>_.
     sbind (fatal_db (entitydb_update (host C) (adapter C) (op_entity_key op) current_block
              (op_payload op) (auth_content_type auth) attributes)) (\<lambda>_.
     emit_entity_op C (op_entity_key op) OP_UPDATE (ex_owner entity) (ex_expires_at entity)))))))"

definition apply_extend ::
  "'s call_ctx \<Rightarrow> address \<Rightarrow> u64 \<Rightarrow> operation \<Rightarrow> ('s, apply_error, unit) sm" where
  "apply_extend C caller current_block op =
     (if op_btl op = 0 then sfail (Revert ZeroBtl)
      else
        sbind (load_entity_for_owner C caller current_block (op_entity_key op) False) (\<lambda>entity.
        let new_expires_at = sat_add current_block (ucast (op_btl op)) in
        if new_expires_at \<le> ex_expires_at entity
        then sfail (Revert (ExpiryNotExtended (op_entity_key op) (clip_u32 new_expires_at)
               (clip_u32 (ex_expires_at entity))))
        else
          sbind (fatal_db (entitydb_extend (host C) (adapter C) (op_entity_key op) current_block
                   new_expires_at)) (\<lambda>_.
          emit_entity_op C (op_entity_key op) OP_EXTEND (ex_owner entity) new_expires_at)))"

definition apply_transfer ::
  "'s call_ctx \<Rightarrow> address \<Rightarrow> u64 \<Rightarrow> operation \<Rightarrow> ('s, apply_error, unit) sm" where
  "apply_transfer C caller current_block op =
     sbind (load_entity_for_owner C caller current_block (op_entity_key op) False) (\<lambda>entity.
     if op_new_owner op = zero_address
     then sfail (Revert (TransferToZeroAddress (op_entity_key op)))
     else if op_new_owner op = ex_owner entity
     then sfail (Revert (TransferToSelf (op_entity_key op)))
     else
       sbind (fatal_db (entitydb_transfer (host C) (adapter C) (op_entity_key op) current_block
                (op_new_owner op))) (\<lambda>_.
       emit_entity_op C (op_entity_key op) OP_TRANSFER (op_new_owner op) (ex_expires_at entity)))"

definition apply_delete ::
  "'s call_ctx \<Rightarrow> address \<Rightarrow> u64 \<Rightarrow> operation \<Rightarrow> ('s, apply_error, unit) sm" where
  "apply_delete C caller current_block op =
     sbind (load_entity_for_owner C caller current_block (op_entity_key op) False) (\<lambda>entity.
     sbind (fatal_db (entitydb_delete (host C) (adapter C) (op_entity_key op))) (\<lambda>_.
     emit_entity_op C (op_entity_key op) OP_DELETE (ex_owner entity) (ex_expires_at entity)))"

definition apply_expire :: "'s call_ctx \<Rightarrow> u64 \<Rightarrow> operation \<Rightarrow> ('s, apply_error, unit) sm" where
  "apply_expire C current_block op =
     sbind (existing C (op_entity_key op)) (\<lambda>entity.
     if current_block < ex_expires_at entity
     then sfail (Revert (EntityNotExpired (op_entity_key op) (clip_u32 (ex_expires_at entity))))
     else
       sbind (fatal_db (entitydb_expire (host C) (adapter C) (op_entity_key op))) (\<lambda>_.
       emit_entity_op C (op_entity_key op) OP_EXPIRE (ex_owner entity) (ex_expires_at entity)))"

definition apply_op ::
  "'s call_ctx \<Rightarrow> address \<Rightarrow> u64 \<Rightarrow> u64 \<Rightarrow> operation \<Rightarrow> ('s, apply_error, unit) sm" where
  "apply_op C caller chain current_block op =
     (let t = operation_type op in
      if t = OP_CREATE then apply_create C caller chain current_block op
      else if t = OP_UPDATE then apply_update C caller chain current_block op
      else if t = OP_EXTEND then apply_extend C caller current_block op
      else if t = OP_TRANSFER then apply_transfer C caller current_block op
      else if t = OP_DELETE then apply_delete C caller current_block op
      else if t = OP_EXPIRE then apply_expire C current_block op
      else sfail (Revert (InvalidOpType t)))"

subsection \<open>Gas\<close>

definition op_gas :: "operation \<Rightarrow> u64" where
  "op_gas op =
     (let t = operation_type op;
          base = (if t = OP_CREATE then G_CREATE else if t = OP_UPDATE then G_UPDATE
                  else if t = OP_EXTEND then G_EXTEND else if t = OP_TRANSFER then G_TRANSFER
                  else if t = OP_DELETE then G_DELETE else if t = OP_EXPIRE then G_EXPIRE
                  else G_CREATE) in
      if t \<noteq> OP_CREATE \<and> t \<noteq> OP_UPDATE then base
      else
        let payload_bytes = of_nat (length (op_payload op));
            annotation_count = of_nat (length (op_attributes op));
            annotation_bytes = sat_mul annotation_count (32 + 128);
            indexed_count = of_nat (length (filter (\<lambda>a. at_value_type a = ATTR_UINT \<or>
              at_value_type a = ATTR_STRING) (op_attributes op)));
            reference_verify = (if mime128_to_bytes (op_content_type op) = PAYLOAD_REFERENCE_CONTENT_TYPE
              then G_PAYLOAD_REFERENCE_VERIFY else 0) in
        sat_add (sat_add (sat_add (sat_add (sat_add base (sat_mul payload_bytes G_BYTE))
          (sat_mul annotation_bytes G_BYTE)) (sat_mul annotation_count G_ANNOTATION))
          (sat_mul indexed_count G_ART_INDEXED_ANNOTATION)) reference_verify)"

definition total_gas :: "operation list \<Rightarrow> u64" where
  "total_gas ops = foldl sat_add G_EXECUTE_BASE (map op_gas ops)"

subsection \<open>Dispatch\<close>

record abi =
  nonces_selector :: bytes
  execute_selector :: bytes
  decode_nonces :: "bytes \<Rightarrow> address option"
  encode_nonces :: "u32 \<Rightarrow> bytes"
  decode_execute :: "bytes \<Rightarrow> operation list option"

record call_input =
  target_address :: address
  bytecode_address :: address
  call_value :: u256
  call_data :: bytes
  is_static :: bool
  call_gas :: u64
  call_caller :: address

datatype revert_data =
    ShortCalldata | UnknownSelector bytes | BadNoncesCalldata | BadExecuteCalldata | SolError sol_error

datatype outcome =
    Success u64 bytes
  | Reverted revert_data
  | OutOfGas
  | FatalError fatal

text \<open>
  A call returns its outcome and the state after it. On any outcome but success the caller of the
  precompile (revm) rolls its journal back to the start of the call.
\<close>

definition dispatch_nonces :: "abi \<Rightarrow> 's call_ctx \<Rightarrow> call_input \<Rightarrow> bytes \<Rightarrow> 's \<Rightarrow> outcome \<times> 's" where
  "dispatch_nonces B C inp body s =
     (if call_gas inp < G_NONCES then (OutOfGas, s)
      else case decode_nonces B body of
        None \<Rightarrow> (Reverted BadNoncesCalldata, s)
      | Some owner \<Rightarrow>
          (case read_nonce (host C) (adapter C) owner s of
             Inl e \<Rightarrow> (FatalError (FatalDb e), s)
           | Inr (nonce, s') \<Rightarrow> (Success G_NONCES (encode_nonces B nonce), s')))"

definition dispatch_execute :: "abi \<Rightarrow> 's call_ctx \<Rightarrow> call_input \<Rightarrow> bytes \<Rightarrow> 's \<Rightarrow> outcome \<times> 's" where
  "dispatch_execute B C inp body s =
     (if is_static inp then (FatalError FatalStaticCall, s)
      else case decode_execute B body of
        None \<Rightarrow> (Reverted BadExecuteCalldata, s)
      | Some ops \<Rightarrow>
          if ops = [] then (Reverted (SolError EmptyBatch), s)
          else
            let current_block = (ucast (min (block_number (evm C)) 0xFFFFFFFFFFFFFFFF) :: u64);
                gas_used = total_gas ops in
            if call_gas inp < gas_used then (OutOfGas, s)
            else
              (case sfor (apply_op C (call_caller inp) (evm_chain_id (evm C)) current_block) ops s of
                 Inl (Revert e) \<Rightarrow> (Reverted (SolError e), s)
               | Inl (Fatal f) \<Rightarrow> (FatalError f, s)
               | Inr (_, s') \<Rightarrow> (Success gas_used [], s')))"

definition arkiv_precompile :: "abi \<Rightarrow> 's call_ctx \<Rightarrow> call_input \<Rightarrow> 's \<Rightarrow> outcome \<times> 's" where
  "arkiv_precompile B C inp s =
     (if target_address inp \<noteq> bytecode_address inp then (FatalError FatalDelegateCall, s)
      else if call_value inp \<noteq> 0 then (FatalError FatalValueCall, s)
      else if length (call_data inp) < 4 then (Reverted ShortCalldata, s)
      else
        let selector = take 4 (call_data inp); body = drop 4 (call_data inp) in
        if selector = nonces_selector B then dispatch_nonces B C inp body s
        else if selector = execute_selector B then dispatch_execute B C inp body s
        else (Reverted (UnknownSelector selector), s))"

end
