(* ===== verification/Rpc.thy ===== *)
theory Rpc
  imports RpcText QueryAnswers PrecompileRun
begin

text \<open>
  The \<open>arkiv\<close> JSON-RPC namespace of \<open>crates/arkiv-node/src/rpc.rs\<close>: the choice of the state a query
  reads, the page parameters, the projection of entities to the wire, the entity count and the
  block timing. The node's database is the record \<open>node\<close>; the decimal and hexadecimal printers of
  other crates and the JSON decoding of stored payload references are the record \<open>rpc_lib\<close>.
\<close>

subsection \<open>Requests and responses\<close>

datatype block_tag = Latest | Finalized | Safe | Earliest | Pending | BlockNumber u64

record include_data =
  inc_key :: "bool option"
  inc_payload_reference :: "bool option"
  inc_payload :: "bool option"
  inc_attributes :: "bool option"
  inc_content_type :: "bool option"
  inc_expiration :: "bool option"
  inc_owner :: "bool option"
  inc_creator :: "bool option"
  inc_created_at_block :: "bool option"
  inc_last_modified_at_block :: "bool option"
  inc_transaction_index_in_block :: "bool option"
  inc_operation_index_in_transaction :: "bool option"

record query_options =
  at_block :: "block_tag option"
  results_per_page :: "u64 option"
  qo_cursor :: "ustring option"
  include_data :: "include_data option"

definition default_options :: query_options where
  "default_options = \<lparr>at_block = None, results_per_page = None, qo_cursor = None, include_data = None\<rparr>"

record stored_payload_reference =
  st_provider :: ustring
  st_id :: ustring
  st_namespace :: ustring
  st_content_type :: "ustring option"
  st_checksum :: ustring
  st_size_bytes :: u64
  st_submitted_at :: "ustring option"

record payload_reference_summary =
  ps_provider :: ustring
  ps_id :: ustring
  ps_namespace :: ustring
  ps_content_type :: "ustring option"
  ps_checksum :: ustring
  ps_size_bytes :: u64
  ps_submitted_at :: "ustring option"

record wire_attribute =
  wa_key :: ustring
  wa_value_type :: byte
  wa_value :: ustring

record entity_data =
  ed_key :: b256
  ed_payload_ref :: "payload_reference_summary option"
  ed_content_type :: "ustring option"
  ed_expires_at :: "u64 option"
  ed_owner :: "address option"
  ed_creator :: "address option"
  ed_created_at_block :: "u64 option"
  ed_last_modified_at_block :: "u64 option"
  ed_transaction_index_in_block :: "u64 option"
  ed_operation_index_in_transaction :: "u64 option"
  ed_attributes :: "wire_attribute list"

record query_response =
  resp_data :: "entity_data list"
  resp_block_number :: u64
  resp_cursor :: "ustring option"

record block_timing =
  current_block :: u64
  current_block_time :: u64
  duration :: u64

record rpc_lib =
  u256_to_string :: "u256 \<Rightarrow> ustring"
  hex_encode_prefixed :: "bytes \<Rightarrow> ustring"
  decode_stored :: "bytes \<Rightarrow> stored_payload_reference option"

text \<open>The reth providers: the head, the snapshots, the headers (by their timestamps).\<close>

datatype rpc_error =
    ProviderFailed
  | TagNotSupported block_tag
  | InvalidCursor ustring
  | QueryFailed exec_error
  | CountFailed db_error
  | HeadHeaderMissing u64
  | ParentHeaderMissing u64
  | BlockingTaskJoin

record 's node =
  best_block_number :: "rpc_error + u64"
  latest_state :: "rpc_error + 's"
  history_by_block_number :: "u64 \<Rightarrow> rpc_error + 's"
  header_by_number :: "u64 \<Rightarrow> rpc_error + u64 option"
  state_provider :: "'s provider"

subsection \<open>Projection of an entity\<close>

record resolved_include =
  ri_payload_reference :: bool
  ri_attributes :: bool
  ri_content_type :: bool
  ri_expiration :: bool
  ri_owner :: bool
  ri_creator :: bool
  ri_created_at_block :: bool
  ri_last_modified_at_block :: bool
  ri_transaction_index_in_block :: bool
  ri_operation_index_in_transaction :: bool

definition include_all :: resolved_include where
  "include_all =
     \<lparr>ri_payload_reference = True, ri_attributes = True, ri_content_type = True,
      ri_expiration = True, ri_owner = True, ri_creator = True, ri_created_at_block = True,
      ri_last_modified_at_block = True, ri_transaction_index_in_block = True,
      ri_operation_index_in_transaction = True\<rparr>"

definition unwrap_false :: "bool option \<Rightarrow> bool" where
  "unwrap_false b = (case b of None \<Rightarrow> False | Some x \<Rightarrow> x)"

definition or_option :: "'a option \<Rightarrow> 'a option \<Rightarrow> 'a option" where
  "or_option a b = (case a of None \<Rightarrow> b | Some x \<Rightarrow> Some x)"

definition from_options :: "include_data option \<Rightarrow> resolved_include" where
  "from_options opt =
     (case opt of
        None \<Rightarrow> include_all
      | Some i \<Rightarrow>
          \<lparr>ri_payload_reference = unwrap_false (or_option (inc_payload_reference i) (inc_payload i)),
           ri_attributes = unwrap_false (inc_attributes i),
           ri_content_type = unwrap_false (inc_content_type i),
           ri_expiration = unwrap_false (inc_expiration i),
           ri_owner = unwrap_false (inc_owner i),
           ri_creator = unwrap_false (inc_creator i),
           ri_created_at_block = unwrap_false (inc_created_at_block i),
           ri_last_modified_at_block = unwrap_false (inc_last_modified_at_block i),
           ri_transaction_index_in_block = unwrap_false (inc_transaction_index_in_block i),
           ri_operation_index_in_transaction = unwrap_false (inc_operation_index_in_transaction i)\<rparr>)"

definition then_some :: "bool \<Rightarrow> 'a \<Rightarrow> 'a option" where
  "then_some b x = (if b then Some x else None)"

text \<open>
  The value of an attribute as text. \<open>U256::from_be_slice\<close> panics on a slice whose value does not
  fit (\<open>None\<close>).
\<close>

definition format_attribute_value :: "rpc_lib \<Rightarrow> byte \<Rightarrow> bytes \<Rightarrow> ustring option" where
  "format_attribute_value L value_type bs =
     (if value_type = ATTR_UINT then
        (if be_val bs < 2 ^ 256 then Some (u256_to_string L (of_nat (be_val bs))) else None)
      else if value_type = ATTR_STRING then Some (from_utf8_lossy bs)
      else if value_type = ATTR_ENTITY_KEY then Some (hex_encode_prefixed L bs)
      else Some [])"

definition wire_attribute_of :: "rpc_lib \<Rightarrow> attribute \<Rightarrow> wire_attribute option" where
  "wire_attribute_of L a =
     (case format_attribute_value L (attr_type a) (attr_value a) of
        None \<Rightarrow> None
      | Some text \<Rightarrow> Some \<lparr>wa_key = from_utf8_lossy (attr_key a), wa_value_type = attr_type a, wa_value = text\<rparr>)"

definition summary_of :: "rpc_lib \<Rightarrow> bytes \<Rightarrow> payload_reference_summary option" where
  "summary_of L payload =
     (case decode_stored L payload of
        None \<Rightarrow> None
      | Some r \<Rightarrow> Some
          \<lparr>ps_provider = st_provider r, ps_id = st_id r, ps_namespace = st_namespace r,
           ps_content_type = st_content_type r, ps_checksum = st_checksum r,
           ps_size_bytes = st_size_bytes r, ps_submitted_at = st_submitted_at r\<rparr>)"

definition entity_data_from :: "rpc_lib \<Rightarrow> resolved_include \<Rightarrow> entity_rlp \<Rightarrow> entity_data option" where
  "entity_data_from L i e =
     (case (if ri_attributes i then those (map (wire_attribute_of L) (ent_attributes e)) else Some []) of
        None \<Rightarrow> None
      | Some attributes \<Rightarrow> Some
          \<lparr>ed_key = ent_key e,
           ed_payload_ref = (if ri_payload_reference i then summary_of L (ent_payload e) else None),
           ed_content_type = then_some (ri_content_type i) (from_utf8_lossy (ent_content_type e)),
           ed_expires_at = then_some (ri_expiration i) (ent_expires_at e),
           ed_owner = then_some (ri_owner i) (ent_owner e),
           ed_creator = then_some (ri_creator i) (ent_creator e),
           ed_created_at_block = then_some (ri_created_at_block i) (ent_created_at_block e),
           ed_last_modified_at_block = then_some (ri_last_modified_at_block i) (ent_last_modified_at_block e),
           ed_transaction_index_in_block = then_some (ri_transaction_index_in_block i) 0,
           ed_operation_index_in_transaction = then_some (ri_operation_index_in_transaction i) 0,
           ed_attributes = attributes\<rparr>)"

subsection \<open>The methods\<close>

definition DEFAULT_PAGE_SIZE :: u64 where "DEFAULT_PAGE_SIZE = 100"
definition MAX_PAGE_SIZE :: u64 where "MAX_PAGE_SIZE = 200"

definition page_size_of :: "query_options \<Rightarrow> u64" where
  "page_size_of opts =
     (let n = (case results_per_page opts of None \<Rightarrow> DEFAULT_PAGE_SIZE | Some n \<Rightarrow> n) in
      if n < 1 then 1 else if MAX_PAGE_SIZE < n then MAX_PAGE_SIZE else n)"

definition snapshot_for :: "'s node \<Rightarrow> block_tag option \<Rightarrow> rpc_error + 's \<times> u64" where
  "snapshot_for N tag =
     (case tag of
        Some (BlockNumber n) \<Rightarrow> try_then (history_by_block_number N n) (\<lambda>s. Inr (s, n))
      | Some Latest \<Rightarrow> try_then (best_block_number N) (\<lambda>n. try_then (latest_state N) (\<lambda>s. Inr (s, n)))
      | None \<Rightarrow> try_then (best_block_number N) (\<lambda>n. try_then (latest_state N) (\<lambda>s. Inr (s, n)))
      | Some other \<Rightarrow> Inl (TagNotSupported other))"

definition run_query ::
  "rpc_lib \<Rightarrow> lexenv \<Rightarrow> hostlib \<Rightarrow> 's node \<Rightarrow> ustring \<Rightarrow> query_options \<Rightarrow> rpc_error + query_response" where
  "run_query L env H N q opts =
     try_then (snapshot_for N (at_block opts)) (\<lambda>(state, number).
     try_then (map_sum InvalidCursor id (parse_cursor (qo_cursor opts))) (\<lambda>cursor.
     try_then (map_sum QueryFailed fst
       (execute env H (read_only_adapter (state_provider N)) q (page_size_of opts) cursor state)) (\<lambda>page.
     case those (map (entity_data_from L (from_options (include_data opts))) (entries page)) of
       None \<Rightarrow> Inl BlockingTaskJoin
     | Some data \<Rightarrow> Inr
         \<lparr>resp_data = data, resp_block_number = number,
          resp_cursor = map_option ser_u64_hex (next_cursor page)\<rparr>)))"

text \<open>
  The \<open>query\<close> method: absent options are the default ones; every error, a panic of the blocking
  task included, becomes one error object with the internal code and a message.
\<close>

definition INTERNAL_ERROR_CODE :: int where "INTERNAL_ERROR_CODE = -32603"

definition internal_err :: "rpc_error \<Rightarrow> int \<times> rpc_error" where
  "internal_err msg = (INTERNAL_ERROR_CODE, msg)"

definition arkiv_query ::
  "rpc_lib \<Rightarrow> lexenv \<Rightarrow> hostlib \<Rightarrow> 's node \<Rightarrow> ustring \<Rightarrow> query_options option \<Rightarrow>
    (int \<times> rpc_error) + query_response" where
  "arkiv_query L env H N q options =
     map_sum internal_err id
       (run_query L env H N q (case options of None \<Rightarrow> default_options | Some opts \<Rightarrow> opts))"

definition get_entity_count :: "hostlib \<Rightarrow> 's node \<Rightarrow> (int \<times> rpc_error) + u64" where
  "get_entity_count H N =
     map_sum internal_err id
       (try_then (latest_state N) (\<lambda>state.
        map_sum CountFailed (\<lambda>(b, _). of_nat (card b))
          (all_entities H (read_only_adapter (state_provider N)) state)))"

definition get_block_timing :: "'s node \<Rightarrow> (int \<times> rpc_error) + block_timing" where
  "get_block_timing N =
     map_sum internal_err id
       (try_then (best_block_number N) (\<lambda>number.
        try_then (header_by_number N number) (\<lambda>head.
        case head of
          None \<Rightarrow> Inl (HeadHeaderMissing number)
        | Some time \<Rightarrow>
            try_then
              (if number = 0 then Inr 0
               else
                 try_then (header_by_number N (number - 1)) (\<lambda>parent.
                 case parent of
                   None \<Rightarrow> Inl (ParentHeaderMissing (number - 1))
                 | Some parent_time \<Rightarrow> Inr (if time < parent_time then 0 else time - parent_time)))
              (\<lambda>d. Inr \<lparr>current_block = number, current_block_time = time, duration = d\<rparr>))))"

end
