(* ===== verification/EvmLaws.thy ===== *)
theory EvmLaws
  imports PrecompileRun EntityHistory
begin

text \<open>
  What the precompile relies on from the journal of the EVM (\<open>EvmInternals\<close>), stated over what can
  be observed of it: codes and storage, account nonces, balances and logs. On such a journal the
  read-write adapter keeps the laws of a state adapter, so the handlers run on it as they do on
  the plain memory; besides, they touch no balance and no log, and give every account with code a
  nonce, so that state clearing does not remove it.
\<close>

subsection \<open>Observations and laws\<close>

record observation =
  o_mem :: mem
  o_nonce :: "address \<Rightarrow> u64"
  o_bal :: "address \<Rightarrow> u256"
  o_logs :: "(address \<times> event) list"

definition moved :: "address \<Rightarrow> address \<Rightarrow> u256 \<Rightarrow> (address \<Rightarrow> u256) \<Rightarrow> address \<Rightarrow> u256" where
  "moved a b x bal = (let taken = bal(a := bal a - x) in taken(b := taken b + x))"

definition can_move :: "address \<Rightarrow> address \<Rightarrow> u256 \<Rightarrow> (address \<Rightarrow> u256) \<Rightarrow> bool" where
  "can_move a b x bal \<longleftrightarrow> x \<le> bal a \<and> unat ((bal(a := bal a - x)) b) + unat x < 2 ^ 256"

text \<open>\<open>does m s x v'\<close>: run from \<open>s\<close>, \<open>m\<close> returns \<open>x\<close> in a good state observed as \<open>v'\<close>.\<close>

definition does :: "('s \<Rightarrow> observation) \<Rightarrow> ('s \<Rightarrow> bool) \<Rightarrow> ('s, db_error, 'a) sm \<Rightarrow> 's \<Rightarrow> 'a \<Rightarrow>
    observation \<Rightarrow> bool" where
  "does v ok m s x v' \<longleftrightarrow> (\<exists>s'. m s = Inr (x, s') \<and> v s' = v' \<and> ok s')"

definition code_bytes :: "bytes option \<Rightarrow> bytes" where
  "code_bytes c = (case c of None \<Rightarrow> [] | Some b \<Rightarrow> b)"

definition evm_laws :: "'s internals \<Rightarrow> ('s \<Rightarrow> observation) \<Rightarrow> ('s \<Rightarrow> bool) \<Rightarrow> bool" where
  "evm_laws I v ok \<longleftrightarrow> (\<forall>s. ok s \<longrightarrow>
     (\<forall>a. \<exists>c. code_bytes c = codes (o_mem (v s)) a \<and>
        does v ok (load_account_code I a) s (c, o_nonce (v s) a) (v s)) \<and>
     (\<forall>a c. does v ok (evm_set_code I a c) s ()
        ((v s)\<lparr>o_mem := (o_mem (v s))\<lparr>codes := (codes (o_mem (v s)))(a := c)\<rparr>\<rparr>)) \<and>
     (\<forall>a. o_nonce (v s) a = 0 \<longrightarrow> does v ok (evm_bump_nonce I a) s ()
        ((v s)\<lparr>o_nonce := (o_nonce (v s))(a := 1)\<rparr>)) \<and>
     (\<forall>a k. does v ok (sload I a k) s (slots (o_mem (v s)) a k) (v s)) \<and>
     (\<forall>a k x. does v ok (sstore I a k x) s () ((v s)\<lparr>o_mem := (o_mem (v s))
        \<lparr>slots := (slots (o_mem (v s)))(a := (slots (o_mem (v s)) a)(k := x))\<rparr>\<rparr>)) \<and>
     (\<forall>a. does v ok (load_balance I a) s (o_bal (v s) a) (v s)) \<and>
     (\<forall>a b x. if can_move a b x (o_bal (v s))
        then does v ok (evm_transfer I a b x) s False ((v s)\<lparr>o_bal := moved a b x (o_bal (v s))\<rparr>)
        else does v ok (evm_transfer I a b x) s True (v s)) \<and>
     (\<forall>a x. does v ok (set_balance I a x) s () ((v s)\<lparr>o_bal := (o_bal (v s))(a := x)\<rparr>)) \<and>
     (\<forall>a e. v (evm_log I a e s) = (v s)\<lparr>o_logs := o_logs (v s) @ [(a, e)]\<rparr> \<and> ok (evm_log I a e s)))"

lemma evm_lawsD:
  assumes "evm_laws I v ok" and "ok s"
  shows "\<exists>c. code_bytes c = codes (o_mem (v s)) a \<and>
        does v ok (load_account_code I a) s (c, o_nonce (v s) a) (v s)"
    "does v ok (evm_set_code I a c) s ()
        ((v s)\<lparr>o_mem := (o_mem (v s))\<lparr>codes := (codes (o_mem (v s)))(a := c)\<rparr>\<rparr>)"
    "o_nonce (v s) a = 0 \<Longrightarrow> does v ok (evm_bump_nonce I a) s () ((v s)\<lparr>o_nonce := (o_nonce (v s))(a := 1)\<rparr>)"
    "does v ok (sload I a k) s (slots (o_mem (v s)) a k) (v s)"
    "does v ok (sstore I a k x) s () ((v s)\<lparr>o_mem := (o_mem (v s))
        \<lparr>slots := (slots (o_mem (v s)))(a := (slots (o_mem (v s)) a)(k := x))\<rparr>\<rparr>)"
    "does v ok (load_balance I a) s (o_bal (v s) a) (v s)"
    "can_move a b y (o_bal (v s)) \<Longrightarrow>
        does v ok (evm_transfer I a b y) s False ((v s)\<lparr>o_bal := moved a b y (o_bal (v s))\<rparr>)"
    "\<not> can_move a b y (o_bal (v s)) \<Longrightarrow> does v ok (evm_transfer I a b y) s True (v s)"
    "does v ok (set_balance I a y) s () ((v s)\<lparr>o_bal := (o_bal (v s))(a := y)\<rparr>)"
    "v (evm_log I a e s) = (v s)\<lparr>o_logs := o_logs (v s) @ [(a, e)]\<rparr> \<and> ok (evm_log I a e s)"
  using assms unfolding evm_laws_def by presburger+

subsection \<open>The read-write adapter\<close>

definition persistent :: "observation \<Rightarrow> bool" where
  "persistent ob \<longleftrightarrow> (\<forall>a. codes (o_mem ob) a \<noteq> [] \<longrightarrow> o_nonce ob a \<noteq> 0)"

lemma ensure_nonce:
  assumes L: "evm_laws I v ok" and s: "ok s"
  shows "does v ok (ensure_nonce_at_least_one I a) s ()
    ((v s)\<lparr>o_nonce := (o_nonce (v s))(a := if o_nonce (v s) a = 0 then 1 else o_nonce (v s) a)\<rparr>)"
proof -
  obtain c s' where s': "load_account_code I a s = Inr ((c, o_nonce (v s) a), s')" "v s' = v s" "ok s'"
    using evm_lawsD(1)[OF L s, of a] by (auto simp: does_def)
  show ?thesis
    using evm_lawsD(3)[OF L s'(3), of a] s' fun_upd_triv[of "o_nonce (v s)" a]
    by (auto simp: ensure_nonce_at_least_one_def sbind_def does_def sret_def)
qed

text \<open>The good states between two calls of a handler: balances and logs as given.\<close>

definition quiet :: "('s \<Rightarrow> observation) \<Rightarrow> ('s \<Rightarrow> bool) \<Rightarrow> (address \<Rightarrow> u256) \<Rightarrow>
    (address \<times> event) list \<Rightarrow> 's \<Rightarrow> bool" where
  "quiet v ok B L s \<longleftrightarrow> ok s \<and> persistent (v s) \<and> o_bal (v s) = B \<and> o_logs (v s) = L"

lemma read_write_laws:
  assumes L: "evm_laws I v ok"
  shows "adapter_laws (read_write_adapter I) (\<lambda>s. o_mem (v s)) (quiet v ok B G)"
proof
  fix s a c k x
  assume q: "quiet v ok B G s"
  then have s: "ok s" and p: "persistent (v s)" by (simp_all add: quiet_def)
  have upd: "\<exists>s'. sbind (evm_set_code I a d) (\<lambda>_. ensure_nonce_at_least_one I a) s = Inr ((), s') \<and>
      o_mem (v s') = (o_mem (v s))\<lparr>codes := (codes (o_mem (v s)))(a := d)\<rparr> \<and> quiet v ok B G s'" for d
  proof -
    obtain s1 where s1: "evm_set_code I a d s = Inr ((), s1)" "ok s1"
      "v s1 = (v s)\<lparr>o_mem := (o_mem (v s))\<lparr>codes := (codes (o_mem (v s)))(a := d)\<rparr>\<rparr>"
      using evm_lawsD(2)[OF L s] by (auto simp: does_def)
    from ensure_nonce[OF L s1(2), of a] show ?thesis
      using s1 p q by (auto simp: sbind_def does_def quiet_def persistent_def)
  qed
  show "\<exists>s'. ad_code (read_write_adapter I) a s = Inr (codes (o_mem (v s)) a, s') \<and>
      o_mem (v s') = o_mem (v s) \<and> quiet v ok B G s'"
    using evm_lawsD(1)[OF L s, of a] q
    by (auto simp: read_write_adapter_def sbind_def sret_def does_def code_bytes_def quiet_def)
  show "\<exists>s'. ad_set_code (read_write_adapter I) a c s = Inr ((), s') \<and>
      o_mem (v s') = (o_mem (v s))\<lparr>codes := (codes (o_mem (v s)))(a := c)\<rparr> \<and> quiet v ok B G s'"
    using upd by (simp add: read_write_adapter_def)
  show "\<exists>s'. ad_tombstone_code (read_write_adapter I) a s = Inr ((), s') \<and>
      o_mem (v s') = (o_mem (v s))\<lparr>codes := (codes (o_mem (v s)))(a := [])\<rparr> \<and> quiet v ok B G s'"
    using upd by (simp add: read_write_adapter_def)
  show "\<exists>s'. ad_storage (read_write_adapter I) a k s = Inr (slots (o_mem (v s)) a k, s') \<and>
      o_mem (v s') = o_mem (v s) \<and> quiet v ok B G s'"
    using evm_lawsD(4)[OF L s, of a k] q by (auto simp: read_write_adapter_def does_def quiet_def)
  show "\<exists>s'. ad_set_storage (read_write_adapter I) a k x s = Inr ((), s') \<and>
      o_mem (v s') = (o_mem (v s))\<lparr>slots := (slots (o_mem (v s)))(a := (slots (o_mem (v s)) a)(k := x))\<rparr> \<and>
      quiet v ok B G s'"
    using evm_lawsD(5)[OF L s, of a k x] q
    by (auto simp: read_write_adapter_def does_def quiet_def persistent_def)
  show "\<exists>s'. ad_ensure_account_persists (read_write_adapter I) a s = Inr ((), s') \<and>
      o_mem (v s') = o_mem (v s) \<and> quiet v ok B G s'"
    using ensure_nonce[OF L s, of a] q
    by (auto simp: read_write_adapter_def does_def quiet_def persistent_def)
qed

subsection \<open>A plain journal\<close>

text \<open>A journal that is nothing but its observations, on which the laws hold.\<close>

definition plain_evm :: "u256 \<Rightarrow> u64 \<Rightarrow> u64 \<Rightarrow> observation internals" where
  "plain_evm number fee chain =
     \<lparr>load_account_code = \<lambda>a s. Inr ((Some (codes (o_mem s) a), o_nonce s a), s),
      evm_set_code = \<lambda>a c s. Inr ((), s\<lparr>o_mem := (o_mem s)\<lparr>codes := (codes (o_mem s))(a := c)\<rparr>\<rparr>),
      evm_bump_nonce = \<lambda>a s. Inr ((), s\<lparr>o_nonce := (o_nonce s)(a := o_nonce s a + 1)\<rparr>),
      sload = \<lambda>a k s. Inr (slots (o_mem s) a k, s),
      sstore = \<lambda>a k x s. Inr ((), s\<lparr>o_mem := (o_mem s)
        \<lparr>slots := (slots (o_mem s))(a := (slots (o_mem s) a)(k := x))\<rparr>\<rparr>),
      load_balance = \<lambda>a s. Inr (o_bal s a, s),
      evm_transfer = \<lambda>a b x s. (if can_move a b x (o_bal s)
        then Inr (False, s\<lparr>o_bal := moved a b x (o_bal s)\<rparr>) else Inr (True, s)),
      set_balance = \<lambda>a x s. Inr ((), s\<lparr>o_bal := (o_bal s)(a := x)\<rparr>),
      evm_log = \<lambda>a e s. s\<lparr>o_logs := o_logs s @ [(a, e)]\<rparr>,
      block_number = number, basefee = fee, evm_chain_id = chain\<rparr>"

lemma plain_evm_laws: "evm_laws (plain_evm number fee chain) (\<lambda>s. s) (\<lambda>_. True)"
  by (auto simp: evm_laws_def does_def plain_evm_def code_bytes_def)

end
