(* ===== verification/Ledger.thy ===== *)
theory Ledger
  imports EvmLaws
begin

text \<open>
  The abstract specification of a call of the precompile: a ledger of entities, operation nonces,
  used payload references, balances and events, and what each of the six operations does to it.
\<close>

subsection \<open>The ledger\<close>

record ledger =
  l_entities :: entity_map
  l_count :: nat
  l_nonces :: "address \<Rightarrow> u32"
  l_used :: "(address \<times> b256) set"
  l_balances :: "address \<Rightarrow> u256"
  l_log :: "(address \<times> event) list"

type_synonym 'a act = "(ledger, apply_error, 'a) sm"

definition led_find :: "b256 \<Rightarrow> existing_entity act" where
  "led_find key l =
     (case l_entities l key of
        None \<Rightarrow> Inl (Revert (EntityNotFound key))
      | Some (i, e) \<Rightarrow> Inr (\<lparr>ex_owner = ent_owner e, ex_expires_at = ent_expires_at e\<rparr>, l))"

definition led_owned :: "address \<Rightarrow> u64 \<Rightarrow> b256 \<Rightarrow> existing_entity act" where
  "led_owned caller b key =
     sbind (led_find key) (\<lambda>e.
     if ex_expires_at e \<le> b then sfail (Revert (EntityExpired key (clip_u32 (ex_expires_at e))))
     else if ex_owner e \<noteq> caller then sfail (Revert (NotOwner key caller (ex_owner e)))
     else sret e)"

definition led_claim :: "'s call_ctx \<Rightarrow> address \<Rightarrow> bytes \<Rightarrow> bytes \<Rightarrow> u64 \<Rightarrow> payload_auth act" where
  "led_claim C caller payload content_type chain =
     (if content_type \<noteq> PAYLOAD_REFERENCE_CONTENT_TYPE
      then sfail (Revert (PayloadReferenceRequired content_type))
      else
        sbind (slift_revert (validate_payload_reference (plib C) payload chain)) (\<lambda>auth l.
        if (caller, auth_nonce auth) \<in> l_used l
        then Inl (Revert (PayloadReferenceNonceUsed (auth_nonce auth)))
        else Inr (auth, l\<lparr>l_used := insert (caller, auth_nonce auth) (l_used l)\<rparr>)))"

text \<open>
  The payment on naturals: the price is the payment times the base fee, the provider gets its
  share rounded down, the rest is burnt.
\<close>

definition pay_provider :: "provider_payment \<Rightarrow> u64 \<Rightarrow> address \<Rightarrow> payload_auth \<Rightarrow> (address \<Rightarrow> u256) \<Rightarrow>
    apply_error + (address \<Rightarrow> u256)" where
  "pay_provider p fee caller auth bal =
     (if \<not> pp_enabled p then Inr bal
      else if 10000 < provider_share_bps p then Inl (Fatal (FatalShare (provider_share_bps p)))
      else if auth_payment auth < minimum_payment p
      then Inl (Revert (PayloadReferencePaymentBelowMinimum (auth_payment auth) (minimum_payment p)))
      else
        let price = unat (auth_payment auth) * unat fee;
            share = price * unat (provider_share_bps p) div 10000 in
        if unat (bal caller) < price
        then Inl (Revert (PayloadReferencePaymentInsufficientBalance caller (of_nat price) (bal caller)))
        else if 0 < share \<and> \<not> can_move caller (auth_provider auth) (of_nat share) bal
        then Inl (Revert (PayloadProviderPaymentTransferFailed (auth_provider auth) (of_nat share)))
        else
          let paid = moved caller (auth_provider auth) (of_nat share) bal in
          Inr (paid(caller := paid caller - of_nat (price - share))))"

definition led_pay :: "'s call_ctx \<Rightarrow> address \<Rightarrow> u64 \<Rightarrow> payload_auth \<Rightarrow> unit act" where
  "led_pay C caller b auth l =
     (case pay_provider (payload_provider_payment (params_for_block (sched C) b)) (basefee (evm C))
         caller auth (l_balances l) of
        Inl e \<Rightarrow> Inl e
      | Inr bal \<Rightarrow> Inr ((), l\<lparr>l_balances := bal\<rparr>))"

definition led_nonce :: "address \<Rightarrow> u32 act" where
  "led_nonce caller l =
     (case checked_add (l_nonces l caller) 1 of
        None \<Rightarrow> Inl (Fatal (FatalDb (NonceOverflow caller)))
      | Some n \<Rightarrow> Inr (l_nonces l caller, l\<lparr>l_nonces := (l_nonces l)(caller := n)\<rparr>))"

definition led_db :: "db_op \<Rightarrow> unit act" where
  "led_db op l =
     (case spec_op op (l_entities l, l_count l) of
        Inl e \<Rightarrow> Inl (Fatal (FatalDb e))
      | Inr (M, n) \<Rightarrow> Inr ((), l\<lparr>l_entities := M, l_count := n\<rparr>))"

definition led_emit :: "b256 \<Rightarrow> byte \<Rightarrow> address \<Rightarrow> u64 \<Rightarrow> unit act" where
  "led_emit key t owner expires l =
     Inr ((), l\<lparr>l_log := l_log l @ [(ARKIV_ADDRESS,
       \<lparr>ev_entity_key = key, ev_operation_type = t, ev_owner = owner, ev_expires_at = clip_u32 expires\<rparr>)]\<rparr>)"

subsection \<open>The operations\<close>

definition led_create :: "'s call_ctx \<Rightarrow> address \<Rightarrow> u64 \<Rightarrow> u64 \<Rightarrow> operation \<Rightarrow> unit act" where
  "led_create C caller chain b op =
     (if op_btl op = 0 then sfail (Revert ZeroBtl)
      else
        sbind (slift_revert (validate_attribute_names (op_attributes op))) (\<lambda>_.
        sbind (slift (convert_attributes (op_attributes op))) (\<lambda>attrs.
        sbind (led_claim C caller (op_payload op) (mime128_to_bytes (op_content_type op)) chain) (\<lambda>auth.
        sbind (led_pay C caller b auth) (\<lambda>_.
        sbind (led_nonce caller) (\<lambda>nonce.
        sbind (led_db (OpCreate caller (derive_entity_key (host C) chain caller nonce)
          (sat_add b (ucast (op_btl op))) b (op_payload op) (auth_content_type auth) attrs)) (\<lambda>_.
        led_emit (derive_entity_key (host C) chain caller nonce) 1 caller (sat_add b (ucast (op_btl op))))))))))"

definition led_update :: "'s call_ctx \<Rightarrow> address \<Rightarrow> u64 \<Rightarrow> u64 \<Rightarrow> operation \<Rightarrow> unit act" where
  "led_update C caller chain b op =
     sbind (slift_revert (validate_attribute_names (op_attributes op))) (\<lambda>_.
     sbind (led_owned caller b (op_entity_key op)) (\<lambda>e.
     sbind (slift (convert_attributes (op_attributes op))) (\<lambda>attrs.
     sbind (led_claim C caller (op_payload op) (mime128_to_bytes (op_content_type op)) chain) (\<lambda>auth.
     sbind (led_pay C caller b auth) (\<lambda>_.
     sbind (led_db (OpUpdate (op_entity_key op) b (op_payload op) (auth_content_type auth) attrs)) (\<lambda>_.
     led_emit (op_entity_key op) 2 (ex_owner e) (ex_expires_at e)))))))"

definition led_extend :: "address \<Rightarrow> u64 \<Rightarrow> operation \<Rightarrow> unit act" where
  "led_extend caller b op =
     (if op_btl op = 0 then sfail (Revert ZeroBtl)
      else
        sbind (led_owned caller b (op_entity_key op)) (\<lambda>e.
        let expires = sat_add b (ucast (op_btl op)) in
        if expires \<le> ex_expires_at e
        then sfail (Revert (ExpiryNotExtended (op_entity_key op) (clip_u32 expires) (clip_u32 (ex_expires_at e))))
        else
          sbind (led_db (OpExtend (op_entity_key op) b expires)) (\<lambda>_.
          led_emit (op_entity_key op) 3 (ex_owner e) expires)))"

definition led_transfer :: "address \<Rightarrow> u64 \<Rightarrow> operation \<Rightarrow> unit act" where
  "led_transfer caller b op =
     sbind (led_owned caller b (op_entity_key op)) (\<lambda>e.
     if op_new_owner op = zero_address then sfail (Revert (TransferToZeroAddress (op_entity_key op)))
     else if op_new_owner op = ex_owner e then sfail (Revert (TransferToSelf (op_entity_key op)))
     else
       sbind (led_db (OpTransfer (op_entity_key op) b (op_new_owner op))) (\<lambda>_.
       led_emit (op_entity_key op) 4 (op_new_owner op) (ex_expires_at e)))"

definition led_delete :: "address \<Rightarrow> u64 \<Rightarrow> operation \<Rightarrow> unit act" where
  "led_delete caller b op =
     sbind (led_owned caller b (op_entity_key op)) (\<lambda>e.
     sbind (led_db (OpDelete (op_entity_key op))) (\<lambda>_.
     led_emit (op_entity_key op) 5 (ex_owner e) (ex_expires_at e)))"

definition led_expire :: "u64 \<Rightarrow> operation \<Rightarrow> unit act" where
  "led_expire b op =
     sbind (led_find (op_entity_key op)) (\<lambda>e.
     if b < ex_expires_at e
     then sfail (Revert (EntityNotExpired (op_entity_key op) (clip_u32 (ex_expires_at e))))
     else
       sbind (led_db (OpExpire (op_entity_key op))) (\<lambda>_.
       led_emit (op_entity_key op) 6 (ex_owner e) (ex_expires_at e)))"

definition led_op :: "'s call_ctx \<Rightarrow> address \<Rightarrow> u64 \<Rightarrow> u64 \<Rightarrow> operation \<Rightarrow> unit act" where
  "led_op C caller chain b op =
     (let t = operation_type op in
      if t = 1 then led_create C caller chain b op
      else if t = 2 then led_update C caller chain b op
      else if t = 3 then led_extend caller b op
      else if t = 4 then led_transfer caller b op
      else if t = 5 then led_delete caller b op
      else if t = 6 then led_expire b op
      else sfail (Revert (InvalidOpType t)))"

definition led_batch :: "'s call_ctx \<Rightarrow> address \<Rightarrow> u64 \<Rightarrow> u64 \<Rightarrow> operation list \<Rightarrow> unit act" where
  "led_batch C caller chain b ops = sfor (led_op C caller chain b) ops"

end
