(* ===== verification/LedgerRefines.thy ===== *)
theory LedgerRefines
  imports Ledger
begin

text \<open>
  The precompile carries out the ledger: \<open>ledger_rep\<close> relates the state of the EVM to a ledger, and
  every operation run from a related state fails as the specification does or succeeds in a state
  related to the ledger after it.
\<close>

subsection \<open>Tracking a specification\<close>

definition tracks :: "('s \<Rightarrow> ledger \<Rightarrow> bool) \<Rightarrow> ('s, 'e, 'a) sm \<Rightarrow> (ledger, 'e, 'a) sm \<Rightarrow> 's \<Rightarrow> ledger \<Rightarrow> bool" where
  "tracks R m n s l \<longleftrightarrow>
     (case n l of Inl e \<Rightarrow> m s = Inl e | Inr (x, l') \<Rightarrow> \<exists>s'. m s = Inr (x, s') \<and> R s' l')"

lemma tracks_bind:
  assumes "tracks R m n s l" and "\<And>x s' l'. n l = Inr (x, l') \<Longrightarrow> R s' l' \<Longrightarrow> tracks R (f x) (g x) s' l'"
  shows "tracks R (sbind m f) (sbind n g) s l"
  using assms unfolding tracks_def sbind_def by (fastforce split: sum.splits prod.splits)

lemma tracks_basic:
  "tracks R (sfail e) (sfail e) s l" "R s l \<Longrightarrow> tracks R (sret x) (sret x) s l"
  "R s l \<Longrightarrow> tracks R (slift r) (slift r) s l" "R s l \<Longrightarrow> tracks R (slift_revert q) (slift_revert q) s l"
  by (auto simp: tracks_def sfail_def sret_def slift_def slift_revert_def split: sum.split)

lemma slift_revert_Inr: "slift_revert r l = Inr (x, l') \<Longrightarrow> r = Inr x \<and> l' = l"
  by (cases r) (simp_all add: slift_revert_def slift_def)

lemma tracks_if:
  "(c \<Longrightarrow> tracks R m n s l) \<Longrightarrow> (\<not> c \<Longrightarrow> tracks R m' n' s l) \<Longrightarrow>
    tracks R (if c then m else m') (if c then n else n') s l"
  by simp

lemma tracks_sfor:
  assumes "R s l"
    and "\<And>pre x post s' l'. xs = pre @ x # post \<Longrightarrow> sfor g pre l = Inr ((), l') \<Longrightarrow> R s' l' \<Longrightarrow>
      tracks R (f x) (g x) s' l'"
  shows "tracks R (sfor f xs) (sfor g xs) s l"
  using assms
proof (induction xs arbitrary: s l)
  case Nil
  then show ?case by (simp add: tracks_basic)
next
  case (Cons x xs)
  have "tracks R (f x) (g x) s l" using Cons.prems(2)[of "[]" x xs l s] Cons.prems(1) by (simp add: sret_def)
  then show ?case unfolding sfor.simps
  proof (rule tracks_bind)
    fix u :: unit and s1 l1 assume step: "g x l = Inr (u, l1)" "R s1 l1"
    show "tracks R (sfor f xs) (sfor g xs) s1 l1"
    proof (rule Cons.IH[OF step(2)])
      fix pre y post s' l'
      assume "xs = pre @ y # post" "sfor g pre l1 = Inr ((), l')" "R s' l'"
      then show "tracks R (f y) (g y) s' l'"
        using Cons.prems(2)[of "x # pre" y post l' s'] step(1) by (simp add: sbind_def)
    qed
  qed
qed

subsection \<open>Slots beside the database\<close>

definition nonce_preimage :: "address \<Rightarrow> bytes" where
  "nonce_preimage a = bstr ''nonces'' @ a"

definition reference_preimage :: "address \<Rightarrow> b256 \<Rightarrow> bytes" where
  "reference_preimage a n = bstr ''payload_ref_nonce'' @ a @ n"

lemma preimages_eq [simp]:
  "nonce_preimage a = nonce_preimage b \<longleftrightarrow> a = b" "nonce_preimage a \<noteq> reference_preimage b n"
  "reference_preimage b n \<noteq> nonce_preimage a"
  "length a = 20 \<Longrightarrow> length b = 20 \<Longrightarrow> reference_preimage a n = reference_preimage b k \<longleftrightarrow> a = b \<and> n = k"
  by (auto simp: nonce_preimage_def reference_preimage_def bstr_def)

lemma slots_preimage:
  "slot_nonces H a = keccak256 H (nonce_preimage a)"
  "slot_payload_reference_nonce H a n = keccak256 H (reference_preimage a n)"
  by (simp_all add: slot_nonces_def slot_payload_reference_nonce_def nonce_preimage_def reference_preimage_def)

abbreviation other_slot :: "hostlib \<Rightarrow> mem \<Rightarrow> bytes \<Rightarrow> b256" where
  "other_slot H m x \<equiv> slots m SYSTEM_ACCOUNT_ADDRESS (keccak256 H x)"

lemma other_slot_write:
  assumes W: "db_world H w" and x: "x \<in> other_slots w"
  shows "db_rep H w m M n \<Longrightarrow> db_rep H w (sys_write m (keccak256 H x) u) M n"
    "y \<in> other_slots w \<Longrightarrow> other_slot H (sys_write m (keccak256 H x) u) y = (if y = x then u else other_slot H m y)"
proof -
  assume s: "db_rep H w m M n"
  then have st: "store_rep H w m M n" by (simp add: db_rep_def)
  note A = slots_apart(6-8)[OF W x]
  have "entity_at H w (sys_write m (keccak256 H x) u) n key i e" if "M key = Some (i, e)" for key i e
    using store_repD(1,2,5)[OF st] that A(2)[of i] A(3)[of key] by (fastforce simp: entity_at_def)
  then have "store_rep H w (sys_write m (keccak256 H x) u) M n"
    using st A A(2)[symmetric] unfolding store_rep_def by simp
  then show "db_rep H w (sys_write m (keccak256 H x) u) M n"
    using s by (auto simp: db_rep_def intro: indexes_frame)
next
  assume y: "y \<in> other_slots w"
  have "inj_on (keccak256 H) (db_slots w \<union> other_slots w)" using W by (simp add: db_world_def)
  with x y show "other_slot H (sys_write m (keccak256 H x) u) y = (if y = x then u else other_slot H m y)"
    by (auto dest: inj_onD)
qed

subsection \<open>The relation\<close>

text \<open>
  \<open>D\<close> is the set of callers with operation nonces a history may use. Entities carry keys derived
  from a caller and a nonce it has already used, so a derived key is fresh.
\<close>

type_synonym domain = "(address \<times> u32) set"

definition derived :: "hostlib \<Rightarrow> u64 \<Rightarrow> address \<times> u32 \<Rightarrow> b256" where
  "derived H chain = (\<lambda>(a, n). derive_entity_key H chain a n)"

definition mem_rep :: "hostlib \<Rightarrow> universe \<Rightarrow> mem \<Rightarrow> ledger \<Rightarrow> bool" where
  "mem_rep H w m l \<longleftrightarrow>
     db_rep H w m (l_entities l) (l_count l) \<and>
     (\<forall>a. nonce_preimage a \<in> other_slots w \<longrightarrow>
        storage_to_u32 (other_slot H m (nonce_preimage a)) = l_nonces l a) \<and>
     (\<forall>a n. length a = 20 \<longrightarrow> reference_preimage a n \<in> other_slots w \<longrightarrow>
        (other_slot H m (reference_preimage a n) \<noteq> zero_b256) = ((a, n) \<in> l_used l))"

definition keys_derived :: "hostlib \<Rightarrow> u64 \<Rightarrow> domain \<Rightarrow> ledger \<Rightarrow> bool" where
  "keys_derived H chain D l \<longleftrightarrow>
     (\<forall>key \<in> dom (l_entities l). \<exists>a n. (a, n) \<in> D \<and> key = derived H chain (a, n) \<and> n < l_nonces l a)"

definition ledger_rep :: "hostlib \<Rightarrow> universe \<Rightarrow> u64 \<Rightarrow> domain \<Rightarrow> ('s \<Rightarrow> observation) \<Rightarrow> ('s \<Rightarrow> bool) \<Rightarrow>
    's \<Rightarrow> ledger \<Rightarrow> bool" where
  "ledger_rep H w chain D v ok s l \<longleftrightarrow>
     quiet v ok (l_balances l) (l_log l) s \<and> mem_rep H w (o_mem (v s)) l \<and> keys_derived H chain D l"

definition arkiv_world :: "hostlib \<Rightarrow> universe \<Rightarrow> u64 \<Rightarrow> domain \<Rightarrow> bool" where
  "arkiv_world H w chain D \<longleftrightarrow> db_world H w \<and> inj_on (derived H chain) D"

subsection \<open>Steps of the handlers on the ledger\<close>

text \<open>A computation that only uses the adapter does on the journal what it does on the memory.\<close>

lemma tracks_mem:
  assumes L: "evm_laws (evm C) v ok" and R: "ledger_rep H w chain D v ok s l"
    and sim: "\<And>B G. reader_laws.sim (\<lambda>s. o_mem (v s)) (quiet v ok B G) m n"
    and mem: "case g l of Inl e \<Rightarrow> \<exists>e'. e = Fatal (FatalDb e') \<and> n (o_mem (v s)) = Inl e'
      | Inr (x, l') \<Rightarrow> l_balances l' = l_balances l \<and> l_log l' = l_log l \<and> keys_derived H chain D l' \<and>
          wp n (o_mem (v s)) (\<lambda>y m'. y = x \<and> mem_rep H w m' l')"
  shows "tracks (ledger_rep H w chain D v ok) (fatal_db m) g s l"
proof -
  have A: "adapter_laws (read_write_adapter (evm C)) (\<lambda>s. o_mem (v s)) (quiet v ok (l_balances l) (l_log l))"
    by (rule read_write_laws[OF L])
  have q: "quiet v ok (l_balances l) (l_log l) s" using R by (simp add: ledger_rep_def)
  show ?thesis
  proof (cases "g l")
    case (Inl e)
    then obtain e' where "e = Fatal (FatalDb e')" "n (o_mem (v s)) = Inl e'" using mem by auto
    then show ?thesis
      using Inl reader_laws.sim_Inl[OF adapter_laws.axioms(1)[OF A] sim q] by (simp add: tracks_def fatal_db_def smap_err_def)
  next
    case (Inr p)
    obtain x l' where p: "p = (x, l')" by (cases p)
    then have "wp n (o_mem (v s)) (\<lambda>y m'. y = x \<and> mem_rep H w m' l')" using mem Inr by simp
    from reader_laws.sim_wp[OF adapter_laws.axioms(1)[OF A] sim q this] show ?thesis
      using mem Inr p by (auto simp: tracks_def fatal_db_def smap_err_def wp_iff ledger_rep_def)
  qed
qed

lemma tracks_find:
  assumes W: "db_world H w" and L: "evm_laws (evm C) v ok" and R: "ledger_rep H w chain D v ok s l"
    and H: "host C = H" and k: "key \<in> ekeys w"
  shows "tracks (ledger_rep H w chain D v ok) (existing C key) (led_find key) s l"
proof -
  have q: "quiet v ok (l_balances l) (l_log l) s" and m: "mem_rep H w (o_mem (v s)) l"
    and kd: "keys_derived H chain D l" using R by (simp_all add: ledger_rep_def)
  then have st: "store_rep H w (o_mem (v s)) (l_entities l) (l_count l)" by (simp add: mem_rep_def db_rep_def)
  obtain s' where s': "ad_code (adapter C) (entity_address key) s = Inr (codes (o_mem (v s)) (entity_address key), s')"
    "o_mem (v s') = o_mem (v s)" "quiet v ok (l_balances l) (l_log l) s'"
    using reader_laws.code_law[OF read_write_laws[OF L, THEN adapter_laws.axioms(1)] q] unfolding adapter_def by blast
  have R': "ledger_rep H w chain D v ok s' l" using s' m kd by (simp add: ledger_rep_def)
  show ?thesis
  proof (cases "l_entities l key")
    case None
    then show ?thesis
      using s'(1) store_repD(4)[OF st k None]
      by (simp add: tracks_def led_find_def existing_def load_entity_def fatal_db_def smap_err_def sbind_def
          sret_def sfail_def)
  next
    case (Some p)
    obtain i e where p: "p = (i, e)" by (cases p)
    have e: "entity_at H w (o_mem (v s)) (l_count l) key i e" using store_repD(5)[OF st] Some p by simp
    then have "decode_from_code H (encode_as_code H e) = Inr e"
      using decode_encode[OF W] by (simp add: entity_at_def entity_ok_def)
    then show ?thesis
      using s'(1) R' e Some p H
      by (simp add: tracks_def led_find_def existing_def load_entity_def fatal_db_def smap_err_def sbind_def
          sret_def slift_def entity_at_def)
  qed
qed

lemma tracks_owned:
  assumes "db_world H w" "evm_laws (evm C) v ok" "ledger_rep H w chain D v ok s l" "host C = H" "key \<in> ekeys w"
  shows "tracks (ledger_rep H w chain D v ok) (load_entity_for_owner C caller b key False) (led_owned caller b key) s l"
  unfolding load_entity_for_owner_def led_owned_def
  by (rule tracks_bind[OF tracks_find[OF assms]]) (simp add: tracks_basic)

subsection \<open>Nonces and payload references\<close>

lemma mem_rep_write:
  assumes m: "mem_rep H w m l" and db: "db_rep H w m' (l_entities l) (l_count l)"
    and y: "\<And>y. y \<in> other_slots w \<Longrightarrow> other_slot H m' y = (if y = x then u else other_slot H m y)"
  shows "x = reference_preimage a n \<Longrightarrow> length a = 20 \<Longrightarrow> u \<noteq> zero_b256 \<Longrightarrow>
      mem_rep H w m' (l\<lparr>l_used := insert (a, n) (l_used l)\<rparr>)"
    "x = nonce_preimage a \<Longrightarrow> u = u32_to_storage i \<Longrightarrow>
      mem_rep H w m' (l\<lparr>l_nonces := (l_nonces l)(a := i)\<rparr>)"
  using m db by (auto simp: mem_rep_def y)

lemma mem_rep_reference:
  assumes W: "db_world H w" and m: "mem_rep H w m l" and a: "length a = 20" "reference_preimage a n \<in> other_slots w"
    and u: "u \<noteq> zero_b256"
  shows "mem_rep H w (sys_write m (slot_payload_reference_nonce H a n) u) (l\<lparr>l_used := insert (a, n) (l_used l)\<rparr>)"
  using m unfolding slots_preimage
  by (intro mem_rep_write(1)[OF m _ _ refl a(1) u] other_slot_write[OF W a(2)]) (simp_all add: mem_rep_def)

lemma mem_rep_nonce:
  assumes W: "db_world H w" and m: "mem_rep H w m l" and a: "nonce_preimage a \<in> other_slots w"
  shows "mem_rep H w (sys_write m (slot_nonces H a) (u32_to_storage i)) (l\<lparr>l_nonces := (l_nonces l)(a := i)\<rparr>)"
  using m unfolding slots_preimage
  by (intro mem_rep_write(2)[OF m _ _ refl refl] other_slot_write[OF W a]) (simp_all add: mem_rep_def)

lemma bump_nonce_mem:
  "bump_nonce H mem_adapter a m =
    (let i = storage_to_u32 (slots m SYSTEM_ACCOUNT_ADDRESS (slot_nonces H a)) in
     case checked_add i 1 of
       None \<Rightarrow> Inl (NonceOverflow a)
     | Some j \<Rightarrow> Inr (i, sys_write m (slot_nonces H a) (u32_to_storage j)))"
  by (simp add: bump_nonce_def sbind_def mem_adapter_def Let_def sfail_def sret_def split: option.split)

lemma one_not_zero: "replicate 31 0 @ [1] \<noteq> zero_b256"
  by (metis last_replicate last_snoc zero_b256_def zero_neq_numeral zero_neq_one)

lemma keys_derived_simps [simp]:
  "keys_derived H chain D (l\<lparr>l_used := U\<rparr>) = keys_derived H chain D l"
  "keys_derived H chain D (l\<lparr>l_balances := B\<rparr>) = keys_derived H chain D l"
  "keys_derived H chain D (l\<lparr>l_log := G\<rparr>) = keys_derived H chain D l"
  by (simp_all add: keys_derived_def)

lemma keys_derived_bump:
  assumes kd: "keys_derived H chain D l" and i: "checked_add (l_nonces l c) 1 = Some i"
  shows "keys_derived H chain D (l\<lparr>l_nonces := (l_nonces l)(c := i)\<rparr>)"
proof -
  have lt: "l_nonces l c < i" using checked_add_Some[OF i] by (simp add: word_less_nat_alt)
  have grow: "k < ((l_nonces l)(c := i)) a" if k: "k < l_nonces l a" for k a
  proof (cases "a = c")
    case True
    then have "k < i" using k lt by (simp only: less_trans)
    then show ?thesis using True by simp
  qed (use k in simp)
  show ?thesis
    unfolding keys_derived_def
  proof (intro ballI)
    fix key assume "key \<in> dom (l_entities (l\<lparr>l_nonces := (l_nonces l)(c := i)\<rparr>))"
    then obtain a k where "(a, k) \<in> D" "key = derived H chain (a, k)" "k < l_nonces l a"
      using kd unfolding keys_derived_def by force
    then show "\<exists>a n. (a, n) \<in> D \<and> key = derived H chain (a, n) \<and>
        n < l_nonces (l\<lparr>l_nonces := (l_nonces l)(c := i)\<rparr>) a"
      using grow[of k a] by (intro exI[of _ a] exI[of _ k]) simp
  qed
qed

lemma tracks_claim:
  assumes W: "db_world H w" and L: "evm_laws (evm C) v ok" and R: "ledger_rep H w chain D v ok s l"
    and H: "host C = H" and a: "length caller = 20"
    and ref: "\<And>auth. validate_payload_reference (plib C) payload chain' = Inr auth \<Longrightarrow>
      reference_preimage caller (auth_nonce auth) \<in> other_slots w"
  shows "tracks (ledger_rep H w chain D v ok) (validate_required_payload_reference C caller payload ct chain')
    (led_claim C caller payload ct chain') s l"
proof -
  let ?R = "ledger_rep H w chain D v ok" and ?A = "read_write_adapter (evm C)"
  have A: "adapter_laws ?A (\<lambda>s. o_mem (v s)) (quiet v ok B G)" for B G by (rule read_write_laws[OF L])
  have step: "tracks ?R
      (sbind (fatal_db (payload_reference_nonce_used H ?A caller n)) (\<lambda>used.
        if used then sfail (Revert (PayloadReferenceNonceUsed n))
        else sbind (fatal_db (consume_payload_reference_nonce H ?A caller n)) (\<lambda>_. sret auth)))
      (\<lambda>l. if (caller, n) \<in> l_used l then Inl (Revert (PayloadReferenceNonceUsed n))
        else Inr (auth, l\<lparr>l_used := insert (caller, n) (l_used l)\<rparr>)) s' l'"
    if R': "?R s' l'" and x: "reference_preimage caller n \<in> other_slots w" for s' l' n auth
  proof -
    have used: "tracks ?R (fatal_db (payload_reference_nonce_used H ?A caller n))
        (\<lambda>l. Inr ((caller, n) \<in> l_used l, l)) s l" if R1: "?R s l" for s l
      using R1 a x
      by (intro tracks_mem[OF L R1 reader_laws.sim_readers(2)[OF adapter_laws.axioms(1)[OF A]]])
        (simp add: payload_reference_nonce_used_def wp_simps slots_preimage ledger_rep_def mem_rep_def)
    have consume: "tracks ?R (fatal_db (consume_payload_reference_nonce H ?A caller n))
        (\<lambda>l. Inr ((), l\<lparr>l_used := insert (caller, n) (l_used l)\<rparr>)) s l" if R1: "?R s l" for s l
      using R1 a x mem_rep_reference[OF W _ a x one_not_zero]
      by (intro tracks_mem[OF L R1 adapter_laws.sim_counters(2)[OF A]])
        (simp add: consume_payload_reference_nonce_def wp_simps ledger_rep_def)
    have g: "(\<lambda>l. if (caller, n) \<in> l_used l then Inl (Revert (PayloadReferenceNonceUsed n))
        else Inr (auth, l\<lparr>l_used := insert (caller, n) (l_used l)\<rparr>)) =
      sbind (\<lambda>l. Inr ((caller, n) \<in> l_used l, l)) (\<lambda>used.
        if used then sfail (Revert (PayloadReferenceNonceUsed n))
        else sbind (\<lambda>l. Inr ((), l\<lparr>l_used := insert (caller, n) (l_used l)\<rparr>)) (\<lambda>_. sret auth))"
      by (auto simp: sbind_def sfail_def sret_def)
    show ?thesis
      unfolding g using R' used consume by (intro tracks_bind tracks_if tracks_basic)
  qed
  show ?thesis
    unfolding validate_required_payload_reference_def led_claim_def adapter_def H
    by (intro tracks_if tracks_bind tracks_basic R step) (auto intro!: ref dest: slift_revert_Inr)
qed

lemma tracks_nonce:
  assumes W: "db_world H w" and L: "evm_laws (evm C) v ok" and R: "ledger_rep H w chain D v ok s l"
    and H: "host C = H" and a: "nonce_preimage caller \<in> other_slots w"
  shows "tracks (ledger_rep H w chain D v ok) (fatal_db (bump_nonce (host C) (adapter C) caller)) (led_nonce caller) s l"
  unfolding adapter_def
proof (rule tracks_mem[OF L R adapter_laws.sim_counters(1)[OF read_write_laws[OF L]]])
  have m: "mem_rep H w (o_mem (v s)) l" and kd: "keys_derived H chain D l" using R by (simp_all add: ledger_rep_def)
  have n: "storage_to_u32 (slots (o_mem (v s)) SYSTEM_ACCOUNT_ADDRESS (slot_nonces H caller)) = l_nonces l caller"
    using m a by (simp add: mem_rep_def slots_preimage)
  note kd' = keys_derived_bump[OF kd, of caller]
  show "case led_nonce caller l of Inl e \<Rightarrow> \<exists>e'. e = Fatal (FatalDb e') \<and>
        bump_nonce (host C) mem_adapter caller (o_mem (v s)) = Inl e'
    | Inr (x, l') \<Rightarrow> l_balances l' = l_balances l \<and> l_log l' = l_log l \<and> keys_derived H chain D l' \<and>
        wp (bump_nonce (host C) mem_adapter caller) (o_mem (v s)) (\<lambda>y m'. y = x \<and> mem_rep H w m' l')"
  proof (cases "checked_add (l_nonces l caller) 1")
    case None
    then show ?thesis by (simp only: led_nonce_def bump_nonce_mem Let_def n H option.case sum.case) blast
  next
    case (Some i)
    then show ?thesis
      using kd'[OF Some] mem_rep_nonce[OF W m a, of i]
      by (simp add: led_nonce_def bump_nonce_mem Let_def n H wp_def)
  qed
qed

subsection \<open>Database operations, events and the payment\<close>

lemma mem_rep_keeps:
  "mem_rep H w m l \<Longrightarrow> db_rep H w m' M n \<Longrightarrow> keeps_others H w m m' \<Longrightarrow>
    mem_rep H w m' (l\<lparr>l_entities := M, l_count := n\<rparr>)"
  by (simp add: mem_rep_def keeps_others_def)

lemma ucast_up:
  "unat (ucast x :: u128) = unat x" "unat (ucast y :: u256) = unat y" "unat (ucast z :: u256) = unat z"
  for x :: u64 and y :: u128 and z :: u16
  by (simp_all add: unsigned_ucast_eq take_bit_nat_eq_self unat_bound[THEN less_le_trans])

lemma tracks_db:
  assumes W: "db_world H w" and L: "evm_laws (evm C) v ok" and R: "ledger_rep H w chain D v ok s l"
    and H: "host C = H" and op: "op_ok w op"
    and new: "set (created op) \<inter> dom (l_entities l) = {}" "l_count l + length (created op) \<le> max_ids w"
    and kd': "\<And>key. key \<in> set (created op) \<Longrightarrow>
      \<exists>a n. (a, n) \<in> D \<and> key = derived H chain (a, n) \<and> n < l_nonces l a"
  shows "tracks (ledger_rep H w chain D v ok) (fatal_db (run_op (host C) (adapter C) op)) (led_db op) s l"
  unfolding adapter_def
proof (rule tracks_mem[OF L R adapter_laws.sim_run_op[OF read_write_laws[OF L]]])
  have m: "mem_rep H w (o_mem (v s)) l" and kd: "keys_derived H chain D l" using R by (simp_all add: ledger_rep_def)
  have db: "db_rep H w (o_mem (v s)) (l_entities l) (l_count l)" using m by (simp add: mem_rep_def)
  note step = run_op_ok[OF W db op new]
  show "case led_db op l of Inl e \<Rightarrow> \<exists>e'. e = Fatal (FatalDb e') \<and> run_op (host C) mem_adapter op (o_mem (v s)) = Inl e'
    | Inr (x, l') \<Rightarrow> l_balances l' = l_balances l \<and> l_log l' = l_log l \<and> keys_derived H chain D l' \<and>
        wp (run_op (host C) mem_adapter op) (o_mem (v s)) (\<lambda>y m'. y = x \<and> mem_rep H w m' l')"
  proof (cases "spec_op op (l_entities l, l_count l)")
    case (Inl e)
    then show ?thesis using step H by (simp add: led_db_def)
  next
    case (Inr p)
    obtain M n where p: "p = (M, n)" by (cases p)
    have "dom M \<subseteq> dom (l_entities l) \<union> set (created op)" using spec_op_dom Inr p by blast
    then have "keys_derived H chain D (l\<lparr>l_entities := M, l_count := n\<rparr>)"
      using kd kd' unfolding keys_derived_def by (simp add: subset_iff) blast
    moreover have "wp (run_op H mem_adapter op) (o_mem (v s))
        (\<lambda>y m'. y = () \<and> mem_rep H w m' (l\<lparr>l_entities := M, l_count := n\<rparr>))"
      using step Inr p m mem_rep_keeps by (auto elim!: wp_mono)
    ultimately show ?thesis using Inr p H by (simp add: led_db_def)
  qed
qed

lemma tracks_emit:
  assumes L: "evm_laws (evm C) v ok" and R: "ledger_rep H w chain D v ok s l"
  shows "tracks (ledger_rep H w chain D v ok) (emit_entity_op C key t owner ex) (led_emit key t owner ex) s l"
  using evm_lawsD(10)[OF L] R
  by (simp add: tracks_def emit_entity_op_def led_emit_def ledger_rep_def quiet_def persistent_def mem_rep_def)

text \<open>Doing one thing on the journal inside the error monad of the precompile.\<close>

lemma fatal_does:
  "does v ok m s x o' \<Longrightarrow> \<exists>s'. fatal_db m s = Inr (x, s') \<and> v s' = o' \<and> ok s'"
  by (auto simp: does_def fatal_db_def smap_err_def)

lemma price_words:
  fixes p f :: u64 and q :: u16
  defines "price \<equiv> unat p * unat f"
  assumes q: "unat q \<le> 10000"
  shows "unat (ucast (ucast p * ucast f :: u128) :: u256) = price"
    "(ucast (ucast p * ucast f :: u128) :: u256) * ucast q div ucast PAYMENT_BPS_DENOMINATOR =
      of_nat (price * unat q div 10000)"
    "price * unat q div 10000 \<le> price" "price < 2 ^ 128"
proof -
  have "unat p \<le> 2 ^ 64 - 1" "unat f \<le> 2 ^ 64 - 1" using unat_bound[of p] unat_bound[of f] by simp_all
  from mult_le_mono[OF this] have b: "price \<le> (2 ^ 64 - 1) * (2 ^ 64 - 1)" by (simp add: price_def)
  then show b': "price < 2 ^ 128" by simp
  then have u: "unat (ucast p * ucast f :: u128) = price"
    by (simp add: price_def unat_word_ariths ucast_up)
  then show u': "unat (ucast (ucast p * ucast f :: u128) :: u256) = price"
    using b' by (simp add: ucast_up)
  have le2: "price * unat q \<le> price * 10000" by (rule mult_le_mono2[OF q])
  then show le: "price * unat q div 10000 \<le> price" using div_le_mono[OF le2, of 10000] by simp
  have "price * 10000 < 2 ^ 256" using b' by simp
  with le2 have "price * unat q < 2 ^ 256" by (rule le_less_trans)
  then show "(ucast (ucast p * ucast f :: u128) :: u256) * ucast q div ucast PAYMENT_BPS_DENOMINATOR =
      of_nat (price * unat q div 10000)"
    using u' q le b' by (simp add: word_unat_eq_iff unat_div unat_word_ariths ucast_up unat_of_nat
        PAYMENT_BPS_DENOMINATOR_def)
qed

lemma moved_zero [simp]: "moved a b 0 bal = bal"
  by (simp add: moved_def Let_def)

lemma moved_payer: "x \<le> bal a \<Longrightarrow> unat (bal a) - unat x \<le> unat (moved a b x bal a)"
  by (simp add: moved_def Let_def unat_sub)

text \<open>The transfer and the burn, with the price and the share as words.\<close>

definition settle :: "'s internals \<Rightarrow> address \<Rightarrow> address \<Rightarrow> u256 \<Rightarrow> u256 \<Rightarrow> ('s, apply_error, unit) sm" where
  "settle I caller provider payment provider_amount =
     sbind (fatal_db (load_balance I caller)) (\<lambda>balance.
     if balance < payment
     then sfail (Revert (PayloadReferencePaymentInsufficientBalance caller payment balance))
     else
       let burn_amount = sat_sub payment provider_amount in
       sbind
         (if 0 < provider_amount then
            sbind (fatal_db (evm_transfer I caller provider provider_amount)) (\<lambda>failed.
            if failed then sfail (Revert (PayloadProviderPaymentTransferFailed provider provider_amount))
            else sret ())
          else sret ()) (\<lambda>_.
       if 0 < burn_amount then
         sbind (fatal_db (load_balance I caller)) (\<lambda>post_transfer_balance.
         case checked_sub post_transfer_balance burn_amount of
           None \<Rightarrow> sfail (Revert (PayloadReferencePaymentInsufficientBalance caller payment post_transfer_balance))
         | Some new_balance \<Rightarrow> fatal_db (set_balance I caller new_balance))
       else sret ()))"

lemma settle_pays:
  assumes L: "evm_laws I v ok" and ok: "ok s" and bal: "o_bal (v s) = bal" and le: "share \<le> pay"
  shows "case (if bal caller < pay
        then Inl (Revert (PayloadReferencePaymentInsufficientBalance caller pay (bal caller)))
        else if 0 < share \<and> \<not> can_move caller provider share bal
        then Inl (Revert (PayloadProviderPaymentTransferFailed provider share))
        else let paid = moved caller provider share bal in Inr (paid(caller := paid caller - (pay - share)))) of
      Inl e \<Rightarrow> settle I caller provider pay share s = Inl e
    | Inr B \<Rightarrow> \<exists>s'. settle I caller provider pay share s = Inr ((), s') \<and> v s' = (v s)\<lparr>o_bal := B\<rparr> \<and> ok s'"
proof -
  obtain s1 where s1: "fatal_db (load_balance I caller) s = Inr (bal caller, s1)" "v s1 = v s" "ok s1"
    using fatal_does[OF evm_lawsD(6)[OF L ok, of caller]] bal by auto
  note run = settle_def Let_def sbind_def sfail_def sret_def s1(1)
  have burn: "sat_sub pay share = pay - share" using le by (simp add: sat_sub_def)
  show ?thesis
  proof (cases "bal caller < pay")
    case True
    then show ?thesis by (simp add: run)
  next
    case enough: False
    then have sh: "share \<le> bal caller" using le by simp
    let ?paid = "moved caller provider share bal"
    show ?thesis
    proof (cases "0 < share \<and> \<not> can_move caller provider share bal")
      case True
      then obtain s2 where "fatal_db (evm_transfer I caller provider share) s1 = Inr (True, s2)"
        using fatal_does[OF evm_lawsD(8)[OF L s1(3), of caller provider share]] s1(2) bal by auto
      then show ?thesis using True enough by (simp add: run)
    next
      case can: False
      have "\<exists>s2. (if 0 < share then
            sbind (fatal_db (evm_transfer I caller provider share)) (\<lambda>failed.
            if failed then sfail (Revert (PayloadProviderPaymentTransferFailed provider share))
            else sret ())
          else sret ()) s1 = Inr ((), s2) \<and> v s2 = (v s)\<lparr>o_bal := ?paid\<rparr> \<and> ok s2"
      proof (cases "0 < share")
        case True
        then obtain s2 where "fatal_db (evm_transfer I caller provider share) s1 = Inr (False, s2)"
          "v s2 = (v s)\<lparr>o_bal := ?paid\<rparr>" "ok s2"
          using fatal_does[OF evm_lawsD(7)[OF L s1(3), of caller provider share]] can s1(2) bal by auto
        then show ?thesis using True by (simp add: sbind_def sret_def)
      next
        case False
        then have "share = 0" by (simp add: word_gt_0)
        moreover have "(v s)\<lparr>o_bal := bal\<rparr> = v s" using bal by simp
        ultimately show ?thesis using s1 by (simp add: sret_def)
      qed
      then obtain s2 where s2: "(if 0 < share then
            sbind (fatal_db (evm_transfer I caller provider share)) (\<lambda>failed.
            if failed then sfail (Revert (PayloadProviderPaymentTransferFailed provider share))
            else sret ())
          else sret ()) s1 = Inr ((), s2)" "v s2 = (v s)\<lparr>o_bal := ?paid\<rparr>" "ok s2" by blast
      have "unat (pay - share) \<le> unat (?paid caller)"
        using moved_payer[of share bal caller provider] sh enough le
        by (simp add: unat_sub not_less word_le_nat_alt)
      then have rest: "pay - share \<le> ?paid caller" by (simp add: word_le_nat_alt)
      have eq: "settle I caller provider pay share s =
          (if 0 < pay - share then
             sbind (fatal_db (load_balance I caller)) (\<lambda>post_transfer_balance.
             case checked_sub post_transfer_balance (pay - share) of
               None \<Rightarrow> sfail (Revert (PayloadReferencePaymentInsufficientBalance caller pay post_transfer_balance))
             | Some new_balance \<Rightarrow> fatal_db (set_balance I caller new_balance))
           else sret ()) s2"
        unfolding settle_def Let_def burn by (simp only: sbind_def[of "fatal_db (load_balance I caller)"] s1(1)
            sum.case prod.case enough if_False) (simp only: sbind_def[of "if 0 < share then _ else _"] s2(1) sum.case prod.case)
      show ?thesis
      proof (cases "0 < pay - share")
        case True
        obtain s3 where s3: "fatal_db (load_balance I caller) s2 = Inr (?paid caller, s3)" "v s3 = v s2" "ok s3"
          using fatal_does[OF evm_lawsD(6)[OF L s2(3), of caller]] s2(2) by auto
        obtain s4 where "fatal_db (set_balance I caller (?paid caller - (pay - share))) s3 = Inr ((), s4)"
          "v s4 = (v s)\<lparr>o_bal := ?paid(caller := ?paid caller - (pay - share))\<rparr>" "ok s4"
          using fatal_does[OF evm_lawsD(9)[OF L s3(3)]] s2(2) s3(2) by fastforce
        then show ?thesis
          using True enough can s3(1) rest by (simp add: eq Let_def sbind_def checked_sub_def)
      next
        case False
        then have "settle I caller provider pay share s = Inr ((), s2)" unfolding eq by (simp add: sret_def)
        moreover have "pay - share = 0" using False by (simp add: word_gt_0)
        ultimately show ?thesis using enough can s2(2,3) by (auto simp: Let_def)
      qed
    qed
  qed
qed

lemma apply_payment_settles:
  "apply_payload_provider_payment C caller b auth =
    (let p = payload_provider_payment (params_for_block (sched C) b);
         pay = (ucast (ucast (auth_payment auth) * ucast (basefee (evm C)) :: u128) :: u256) in
     if \<not> pp_enabled p then sret ()
     else sbind (slift (validate_payload_provider_payment_params p)) (\<lambda>_.
       if auth_payment auth < minimum_payment p
       then sfail (Revert (PayloadReferencePaymentBelowMinimum (auth_payment auth) (minimum_payment p)))
       else settle (evm C) caller (auth_provider auth) pay
         (pay * ucast (provider_share_bps p) div ucast PAYMENT_BPS_DENOMINATOR)))"
  unfolding apply_payload_provider_payment_def settle_def Let_def ..

lemma payment_runs:
  assumes L: "evm_laws (evm C) v ok" and ok: "ok s"
  shows "case pay_provider (payload_provider_payment (params_for_block (sched C) b)) (basefee (evm C)) caller auth
      (o_bal (v s)) of
    Inl e \<Rightarrow> apply_payload_provider_payment C caller b auth s = Inl e
  | Inr bal \<Rightarrow> \<exists>s'. apply_payload_provider_payment C caller b auth s = Inr ((), s') \<and>
      v s' = (v s)\<lparr>o_bal := bal\<rparr> \<and> ok s'"
proof -
  let ?p = "payload_provider_payment (params_for_block (sched C) b)" and ?bal = "o_bal (v s)"
  let ?price = "unat (auth_payment auth) * unat (basefee (evm C))"
  let ?share = "?price * unat (provider_share_bps ?p) div 10000"
  let ?pay = "ucast (ucast (auth_payment auth) * ucast (basefee (evm C)) :: u128) :: u256"
  have same: "(v s)\<lparr>o_bal := ?bal\<rparr> = v s" by simp
  consider (off) "\<not> pp_enabled ?p" | (bad) "pp_enabled ?p" "10000 < provider_share_bps ?p"
    | (low) "pp_enabled ?p" "\<not> 10000 < provider_share_bps ?p" "auth_payment auth < minimum_payment ?p"
    | (pay) "pp_enabled ?p" "\<not> 10000 < provider_share_bps ?p" "\<not> auth_payment auth < minimum_payment ?p"
    by blast
  then show ?thesis
  proof cases
    case pay
    have q: "unat (provider_share_bps ?p) \<le> 10000" using pay(2) by (simp add: word_less_nat_alt not_less)
    note W = price_words[OF q, of "auth_payment auth" "basefee (evm C)"]
    have pw: "?pay = of_nat ?price" by (simp only: word_unat_eq_iff unat_of_nat W(1)) (use W(4) in simp)
    have sh: "unat (of_nat ?share :: u256) = ?share" using W(3,4) by (simp add: unat_of_nat)
    have le: "(of_nat ?share :: u256) \<le> ?pay" by (simp only: word_le_nat_alt sh W(1,3))
    have eqs: "?bal caller < ?pay \<longleftrightarrow> unat (?bal caller) < ?price" "0 < (of_nat ?share :: u256) \<longleftrightarrow> 0 < ?share"
      by (simp_all only: word_less_nat_alt W(1) sh unat_0)
    have eqs2: "?pay - of_nat ?share = of_nat (?price - ?share)" by (simp only: pw of_nat_diff[OF W(3)])
    have run: "apply_payload_provider_payment C caller b auth s =
        settle (evm C) caller (auth_provider auth) ?pay (of_nat ?share) s"
      using pay unfolding apply_payment_settles Let_def W(2)
      by (simp add: sbind_def slift_def PAYMENT_BPS_DENOMINATOR_def validate_payload_provider_payment_params_def)
    from settle_pays[OF L ok refl le, of caller "auth_provider auth"]
    show ?thesis
      unfolding eqs eqs2 run pay_provider_def Let_def using pay by (auto simp: pw split: if_splits)
  qed (use ok same in \<open>simp_all add: apply_payment_settles pay_provider_def PAYMENT_BPS_DENOMINATOR_def
      Let_def sret_def sbind_def slift_def validate_payload_provider_payment_params_def sfail_def\<close>)
qed

lemma tracks_pay:
  assumes L: "evm_laws (evm C) v ok" and R: "ledger_rep H w chain D v ok s l"
  shows "tracks (ledger_rep H w chain D v ok) (apply_payload_provider_payment C caller b auth)
    (led_pay C caller b auth) s l"
proof -
  have ok: "ok s" and bal: "o_bal (v s) = l_balances l" using R by (simp_all add: ledger_rep_def quiet_def)
  have "ledger_rep H w chain D v ok s' (l\<lparr>l_balances := B\<rparr>)" if "v s' = (v s)\<lparr>o_bal := B\<rparr>" "ok s'" for s' B
    using R that by (simp add: ledger_rep_def quiet_def persistent_def mem_rep_def)
  with payment_runs[OF L ok, where b = b and caller = caller and auth = auth] show ?thesis
    unfolding bal by (auto simp: tracks_def led_pay_def split: sum.splits)
qed

end
