(* ===== verification/Gas.thy ===== *)
theory Gas
  imports PrecompileRun
begin

text \<open>
  The gas of a call: the saturating 64-bit arithmetic of \<open>op_gas\<close> and \<open>total_gas\<close> against the
  formula on naturals, and what a caller is charged.
\<close>

subsection \<open>The formula\<close>

definition gas_base :: "byte \<Rightarrow> nat" where
  "gas_base t =
     (if t = 2 then 30000 else if t \<in> {3, 4} then 25000 else if t \<in> {5, 6} then 62000 else 80000)"

definition gas_formula :: "operation \<Rightarrow> nat" where
  "gas_formula op =
     gas_base (operation_type op) +
     (if operation_type op \<in> {1, 2} then
        16 * length (op_payload op) + (32 + 128) * 16 * length (op_attributes op) +
        5000 * length (op_attributes op) +
        6000 * length (filter (\<lambda>a. at_value_type a \<in> {1, 2}) (op_attributes op)) +
        (if mime128_to_bytes (op_content_type op) = PAYLOAD_REFERENCE_CONTENT_TYPE then 50000 else 0)
      else 0)"

definition addressable :: "operation \<Rightarrow> bool" where
  "addressable op \<longleftrightarrow> length (op_payload op) < 2 ^ 64 \<and> length (op_attributes op) < 2 ^ 64"

abbreviation cap64 :: "nat \<Rightarrow> nat" where
  "cap64 n \<equiv> min n 18446744073709551615"

lemma unat_sat_add64: "unat (sat_add a b) = cap64 (unat a + unat b)" for a b :: u64
  by (simp add: unat_sat_add)

lemma unat_sat_mul64: "unat (sat_mul a b) = cap64 (unat a * unat b)" for a b :: u64
  by (simp add: unat_sat_mul)

lemma unat_of_nat64: "n < 2 ^ 64 \<Longrightarrow> unat (of_nat n :: u64) = n"
  by (simp add: unat_of_nat)

lemma cap64_add: "cap64 (cap64 a + b) = cap64 (a + b)" "cap64 (a + cap64 b) = cap64 (a + b)"
  by simp_all

lemma cap64_mul: "0 < c \<Longrightarrow> cap64 (cap64 a * c) = cap64 (a * c)"
  by (cases c) (simp_all add: min_def)

lemma gas_sum:
  fixes b p n i r :: u64
  shows "unat (sat_add (sat_add (sat_add (sat_add (sat_add b (sat_mul p G_BYTE))
      (sat_mul (sat_mul n (32 + 128)) G_BYTE)) (sat_mul n G_ANNOTATION))
      (sat_mul i G_ART_INDEXED_ANNOTATION)) r) =
    cap64 (unat b + unat p * 16 + unat n * 160 * 16 + unat n * 5000 + unat i * 6000 + unat r)"
  by (simp add: unat_sat_add64 unat_sat_mul64 cap64_add cap64_mul gas_defs)

lemma op_gas_formula:
  assumes "addressable op"
  shows "unat (op_gas op) = cap64 (gas_formula op)"
proof -
  let ?n = "length (op_attributes op)"
    and ?i = "length (filter (\<lambda>a. at_value_type a = ATTR_UINT \<or> at_value_type a = ATTR_STRING)
      (op_attributes op))"
    and ?b = "if operation_type op = OP_CREATE then G_CREATE else if operation_type op = OP_UPDATE
      then G_UPDATE else if operation_type op = OP_EXTEND then G_EXTEND
      else if operation_type op = OP_TRANSFER then G_TRANSFER else if operation_type op = OP_DELETE
      then G_DELETE else if operation_type op = OP_EXPIRE then G_EXPIRE else G_CREATE"
  have i: "?i \<le> ?n" by simp
  have n: "unat (of_nat (length (op_payload op)) :: u64) = length (op_payload op)"
    "unat (of_nat ?n :: u64) = ?n" "unat (of_nat ?i :: u64) = ?i"
    using assms le_less_trans[OF i, of "2 ^ 64"] by (simp_all only: addressable_def unat_of_nat64)
  have b: "unat ?b = gas_base (operation_type op)"
    by (simp add: gas_base_def gas_defs op_type_defs)
  show ?thesis
  proof (cases "operation_type op = OP_CREATE \<or> operation_type op = OP_UPDATE")
    case True
    then have c: "(operation_type op \<noteq> OP_CREATE \<and> operation_type op \<noteq> OP_UPDATE) = False" by blast
    have "unat (op_gas op) = cap64 (gas_base (operation_type op) + length (op_payload op) * 16 +
        ?n * 160 * 16 + ?n * 5000 + ?i * 6000 +
        unat (if mime128_to_bytes (op_content_type op) = PAYLOAD_REFERENCE_CONTENT_TYPE
          then G_PAYLOAD_REFERENCE_VERIFY else 0 :: u64))"
      unfolding op_gas_def Let_def c if_False gas_sum n b ..
    moreover have "unat (if X then G_PAYLOAD_REFERENCE_VERIFY else 0 :: u64) = (if X then 50000 else 0)" for X
      by (simp add: G_PAYLOAD_REFERENCE_VERIFY_def)
    ultimately show ?thesis
      using True by (simp add: gas_formula_def OP_CREATE_def
          OP_UPDATE_def ATTR_UINT_def ATTR_STRING_def algebra_simps)
  next
    case False
    then have "unat (op_gas op) = unat ?b" unfolding op_gas_def Let_def by simp
    then show ?thesis
      using False b by (simp add: gas_formula_def gas_base_def OP_CREATE_def OP_UPDATE_def)
  qed
qed

lemma foldl_sat_add: "unat (foldl sat_add g gs) = cap64 (unat g + sum_list (map unat gs))" for g :: u64
proof (induction gs arbitrary: g)
  case Nil
  show ?case using unat_bound[of g] by simp
next
  case (Cons h gs)
  then show ?case by (simp add: unat_sat_add64 cap64_add add.assoc)
qed

lemma cap64_sum: "cap64 (a + sum_list (map (\<lambda>x. cap64 (f x)) xs)) = cap64 (a + sum_list (map f xs))"
proof (induction xs arbitrary: a)
  case (Cons x xs)
  have "cap64 (a + (cap64 (f x) + y)) = cap64 ((a + f x) + y)" for y by simp
  then show ?case using Cons[of "a + f x"] by (simp add: add.assoc)
qed simp

lemma total_gas_formula:
  assumes "list_all addressable ops"
  shows "unat (total_gas ops) = cap64 (5000 + sum_list (map gas_formula ops))"
proof -
  have "map unat (map op_gas ops) = map (\<lambda>op. cap64 (gas_formula op)) ops"
    using assms by (simp add: list_all_iff op_gas_formula)
  then show ?thesis
    by (simp only: total_gas_def foldl_sat_add cap64_sum) (simp add: G_EXECUTE_BASE_def)
qed

subsection \<open>What a caller is charged\<close>


end
