(* ===== verification/LedgerCalls.thy ===== *)
theory LedgerCalls
  imports LedgerRefines Gas
begin

text \<open>
  Operations, batches and whole calls of the precompile on the ledger, and what follows for the
  entities, nonces, references and balances of a call.
\<close>

subsection \<open>Operations within the world\<close>

definition admissible :: "'s call_ctx \<Rightarrow> universe \<Rightarrow> u64 \<Rightarrow> domain \<Rightarrow> address \<Rightarrow> u64 \<Rightarrow> operation \<Rightarrow> ledger \<Rightarrow> bool" where
  "admissible C w chain D caller b op l \<longleftrightarrow>
     length caller = 20 \<and>
     (\<forall>attrs auth. convert_attributes (op_attributes op) = Inr attrs \<longrightarrow>
        validate_payload_reference (plib C) (op_payload op) chain = Inr auth \<longrightarrow>
        reference_preimage caller (auth_nonce auth) \<in> other_slots w \<and>
        (operation_type op = 1 \<longrightarrow> op_ok w (OpCreate caller (derived (host C) chain (caller, l_nonces l caller))
           (sat_add b (ucast (op_btl op))) b (op_payload op) (auth_content_type auth) attrs)) \<and>
        (operation_type op = 2 \<longrightarrow>
           op_ok w (OpUpdate (op_entity_key op) b (op_payload op) (auth_content_type auth) attrs))) \<and>
     (operation_type op = 1 \<longrightarrow>
        nonce_preimage caller \<in> other_slots w \<and> (caller, l_nonces l caller) \<in> D \<and> l_count l < max_ids w) \<and>
     (operation_type op \<in> {2, 3, 4, 5, 6} \<longrightarrow> op_entity_key op \<in> ekeys w) \<and>
     (operation_type op = 3 \<longrightarrow> op_ok w (OpExtend (op_entity_key op) b (sat_add b (ucast (op_btl op))))) \<and>
     (operation_type op = 4 \<longrightarrow> op_ok w (OpTransfer (op_entity_key op) b (op_new_owner op)))"

text \<open>Every operation of a batch is admissible when its turn comes.\<close>

definition batch_admissible :: "'s call_ctx \<Rightarrow> universe \<Rightarrow> u64 \<Rightarrow> domain \<Rightarrow> address \<Rightarrow> u64 \<Rightarrow> operation list \<Rightarrow>
    ledger \<Rightarrow> bool" where
  "batch_admissible C w chain D caller b ops l \<longleftrightarrow>
     (\<forall>pre op post l'. ops = pre @ op # post \<longrightarrow> led_batch C caller chain b pre l = Inr ((), l') \<longrightarrow>
        admissible C w chain D caller b op l')"

subsection \<open>What the steps of the ledger change\<close>

lemma led_find_Inr:
  "led_find key l = Inr (x, l') \<longleftrightarrow> (\<exists>i e. l_entities l key = Some (i, e) \<and>
     x = \<lparr>ex_owner = ent_owner e, ex_expires_at = ent_expires_at e\<rparr> \<and> l' = l)"
  by (auto simp: led_find_def split: option.split)

lemma led_owned_Inr:
  "led_owned caller b key l = Inr (x, l') \<longleftrightarrow> (\<exists>i e. l_entities l key = Some (i, e) \<and>
     x = \<lparr>ex_owner = caller, ex_expires_at = ent_expires_at e\<rparr> \<and> l' = l \<and> ent_owner e = caller \<and>
     b < ent_expires_at e)"
  by (auto simp: led_owned_def sbind_def sfail_def sret_def led_find_Inr led_find_def not_le split: option.split)

lemma led_claim_Inr:
  "led_claim C caller payload ct chain l = Inr (auth, l') \<longleftrightarrow>
     ct = PAYLOAD_REFERENCE_CONTENT_TYPE \<and> validate_payload_reference (plib C) payload chain = Inr auth \<and>
     (caller, auth_nonce auth) \<notin> l_used l \<and> l' = l\<lparr>l_used := insert (caller, auth_nonce auth) (l_used l)\<rparr>"
  by (cases "validate_payload_reference (plib C) payload chain")
    (auto simp: led_claim_def sfail_def sbind_def slift_revert_def slift_def)

lemma led_pay_Inr:
  "led_pay C caller b auth l = Inr (u, l') \<longleftrightarrow> (\<exists>bal. l' = l\<lparr>l_balances := bal\<rparr> \<and>
     pay_provider (payload_provider_payment (params_for_block (sched C) b)) (basefee (evm C)) caller auth
       (l_balances l) = Inr bal)"
  by (auto simp: led_pay_def split: sum.split)

lemma checked_succ: "checked_add n 1 = (if n = - 1 then None else Some (n + 1))" for n :: u32
proof -
  have "unat n + 1 < 2 ^ 32 \<longleftrightarrow> n \<noteq> - 1"
    using unat_bound[of n] by (auto simp: word_unat_eq_iff unat_minus_one_word)
  then show ?thesis by (simp add: checked_add_def)
qed

lemma less_plus_one: "n \<noteq> - 1 \<Longrightarrow> n < n + 1" for n :: u32
  using checked_add_Some[of n 1 "n + 1"] by (simp add: checked_succ word_less_nat_alt)

lemma led_nonce_Inr:
  "led_nonce caller l = Inr (n, l') \<longleftrightarrow> n = l_nonces l caller \<and> n \<noteq> - 1 \<and>
     l' = l\<lparr>l_nonces := (l_nonces l)(caller := n + 1)\<rparr>"
  by (auto simp: led_nonce_def checked_succ)

lemma slift_Inr: "slift r l = Inr (x, l') \<longleftrightarrow> r = Inr x \<and> l' = l"
  by (auto simp: slift_def split: sum.split)

lemma sbind_Inr: "sbind m f l = Inr (y, l') \<longleftrightarrow> (\<exists>x l1. m l = Inr (x, l1) \<and> f x l1 = Inr (y, l'))"
  by (auto simp: sbind_def split: sum.split prod.split)

lemma slift_revert_Inr': "slift_revert r l = Inr (x, l') \<longleftrightarrow> r = Inr x \<and> l' = l"
  by (cases r) (auto simp: slift_revert_def slift_def)

lemmas led_steps = led_find_Inr led_owned_Inr led_claim_Inr led_pay_Inr led_nonce_Inr slift_Inr sbind_Inr
  slift_revert_Inr'

subsection \<open>Operations\<close>

lemma tracks_create:
  assumes W: "arkiv_world H w chain D" and L: "evm_laws (evm C) v ok" and R: "ledger_rep H w chain D v ok s l"
    and H: "host C = H" and t: "operation_type op = 1" and A: "admissible C w chain D caller b op l"
  shows "tracks (ledger_rep H w chain D v ok) (apply_create C caller chain b op) (led_create C caller chain b op) s l"
proof -
  let ?R = "ledger_rep H w chain D v ok" and ?key = "derive_entity_key (host C) chain caller (l_nonces l caller)"
  have W': "db_world H w" and inj: "inj_on (derived H chain) D" using W by (simp_all add: arkiv_world_def)
  have len: "length caller = 20" and np: "nonce_preimage caller \<in> other_slots w"
    and D: "(caller, l_nonces l caller) \<in> D" and cnt: "l_count l < max_ids w"
    using A t by (simp_all add: admissible_def)
  have fresh: "?key \<notin> dom (l_entities l)"
  proof
    assume "?key \<in> dom (l_entities l)"
    then obtain a n where "(a, n) \<in> D" "?key = derived H chain (a, n)" "n < l_nonces l a"
      using R unfolding ledger_rep_def keys_derived_def by blast
    then show False using inj_onD[OF inj _ D, of "(a, n)"] H by (auto simp: derived_def)
  qed
  show ?thesis
    unfolding apply_create_def led_create_def Let_def OP_CREATE_def run_op.simps[symmetric]
  proof (intro tracks_if tracks_bind tracks_basic R, simp_all only: led_steps, elim conjE exE, goal_cases)
    case (1 _ _ _ attrs)
    then show ?case using A by (intro tracks_claim[OF W' L _ H len]) (auto simp: admissible_def)
  next
    case 2
    then show ?case by (intro tracks_pay[OF L])
  next
    case 3
    then show ?case by (intro tracks_nonce[OF W' L _ H np])
  next
    case (4 _ _ _ attrs _ _ auth _ _ _ _ l1)
    then obtain bal where l1: "l1 = l\<lparr>l_used := insert (caller, auth_nonce auth) (l_used l), l_balances := bal\<rparr>"
      by blast
    from 4 have "\<exists>x. x = l_nonces l1 caller \<and> x \<noteq> - 1" by blast
    then have "l_nonces l caller \<noteq> - 1" using l1 by simp
    then have lt: "l_nonces l caller < l_nonces l caller + 1" by (rule less_plus_one)
    then show ?case
      using 4 A t fresh cnt D H lt unfolding l1
      by (intro tracks_db[OF W' L]) (auto simp: admissible_def derived_def)
  next
    case 5
    then show ?case by (intro tracks_emit[OF L])
  qed
qed

lemma tracks_change:
  assumes W: "db_world H w" and L: "evm_laws (evm C) v ok" and R: "ledger_rep H w chain D v ok s l"
    and H: "host C = H" and op: "op_ok w op" "created op = []"
  shows "tracks (ledger_rep H w chain D v ok) (fatal_db (run_op (host C) (adapter C) op)) (led_db op) s l"
proof -
  have "l_count l \<le> max_ids w" using R by (simp add: ledger_rep_def mem_rep_def db_rep_def store_rep_def)
  then show ?thesis using tracks_db[OF W L R H op(1)] op(2) by simp
qed

lemma tracks_update:
  assumes W: "arkiv_world H w chain D" and L: "evm_laws (evm C) v ok" and R: "ledger_rep H w chain D v ok s l"
    and H: "host C = H" and t: "operation_type op = 2" and A: "admissible C w chain D caller b op l"
  shows "tracks (ledger_rep H w chain D v ok) (apply_update C caller chain b op) (led_update C caller chain b op) s l"
proof -
  have W': "db_world H w" using W by (simp add: arkiv_world_def)
  have len: "length caller = 20" and k: "op_entity_key op \<in> ekeys w" using A t by (simp_all add: admissible_def)
  show ?thesis
    unfolding apply_update_def led_update_def Let_def OP_UPDATE_def run_op.simps[symmetric]
  proof (intro tracks_if tracks_bind tracks_basic R, simp_all only: led_steps, elim conjE exE, goal_cases)
    case 1
    then show ?case by (intro tracks_owned[OF W' L _ H k])
  next
    case 2
    show ?case by (rule tracks_claim[OF W' L 2(6) H len]) (use 2 A in \<open>auto simp: admissible_def\<close>)
  next
    case 3
    show ?case by (rule tracks_pay[OF L]) (use 3 in blast)
  next
    case 4
    show ?case by (rule tracks_change[OF W' L _ H]) (use 4 A t in \<open>auto simp: admissible_def\<close>)
  next
    case 5
    then show ?case by (intro tracks_emit[OF L])
  qed
qed

lemma tracks_others:
  assumes W: "arkiv_world H w chain D" and L: "evm_laws (evm C) v ok" and R: "ledger_rep H w chain D v ok s l"
    and H: "host C = H" and A: "admissible C w chain D caller b op l"
  shows "operation_type op = 3 \<Longrightarrow>
      tracks (ledger_rep H w chain D v ok) (apply_extend C caller b op) (led_extend caller b op) s l"
    "operation_type op = 4 \<Longrightarrow>
      tracks (ledger_rep H w chain D v ok) (apply_transfer C caller b op) (led_transfer caller b op) s l"
    "operation_type op = 5 \<Longrightarrow>
      tracks (ledger_rep H w chain D v ok) (apply_delete C caller b op) (led_delete caller b op) s l"
    "operation_type op = 6 \<Longrightarrow>
      tracks (ledger_rep H w chain D v ok) (apply_expire C b op) (led_expire b op) s l"
proof -
  have W': "db_world H w" using W by (simp add: arkiv_world_def)
  have k: "op_entity_key op \<in> ekeys w" if "operation_type op \<in> {3, 4, 5, 6}"
    using A that by (auto simp: admissible_def)
  have del: "op_ok w (OpDelete key)" "op_ok w (OpExpire key)" if "key \<in> ekeys w" for key
    using that by (simp_all add: op_ok_def ann_pairs_def well_tiered_def)
  note db = tracks_change[OF W' L _ H] and own = tracks_owned[OF W' L R H k] and emit = tracks_emit[OF L]
  show "tracks (ledger_rep H w chain D v ok) (apply_extend C caller b op) (led_extend caller b op) s l"
    if t: "operation_type op = 3"
    unfolding apply_extend_def led_extend_def Let_def OP_EXTEND_def run_op.simps[symmetric]
    using A t by (intro tracks_if tracks_bind tracks_basic own db emit)
      (auto simp: led_steps admissible_def)
  show "tracks (ledger_rep H w chain D v ok) (apply_transfer C caller b op) (led_transfer caller b op) s l"
    if t: "operation_type op = 4"
    unfolding apply_transfer_def led_transfer_def Let_def OP_TRANSFER_def run_op.simps[symmetric]
    using A t by (intro tracks_if tracks_bind tracks_basic own db emit)
      (auto simp: led_steps admissible_def)
  show "tracks (ledger_rep H w chain D v ok) (apply_delete C caller b op) (led_delete caller b op) s l"
    if t: "operation_type op = 5"
    unfolding apply_delete_def led_delete_def Let_def OP_DELETE_def run_op.simps[symmetric]
    using k t del by (intro tracks_if tracks_bind tracks_basic own db emit) (auto simp: led_steps)
  show "tracks (ledger_rep H w chain D v ok) (apply_expire C b op) (led_expire b op) s l"
    if t: "operation_type op = 6"
    unfolding apply_expire_def led_expire_def Let_def OP_EXPIRE_def run_op.simps[symmetric]
    using k t del by (intro tracks_if tracks_bind tracks_basic tracks_find[OF W' L R H] db emit)
      (auto simp: led_steps)
qed

lemma tracks_op:
  assumes "arkiv_world H w chain D" "evm_laws (evm C) v ok" "ledger_rep H w chain D v ok s l"
    "host C = H" "admissible C w chain D caller b op l"
  shows "tracks (ledger_rep H w chain D v ok) (apply_op C caller chain b op) (led_op C caller chain b op) s l"
  unfolding apply_op_def led_op_def Let_def op_type_defs
  by (intro tracks_if tracks_basic tracks_create[OF assms(1-4) _ assms(5)] tracks_update[OF assms(1-4) _ assms(5)]
      tracks_others[OF assms])

lemma tracks_batch:
  assumes W: "arkiv_world H w chain D" and L: "evm_laws (evm C) v ok" and R: "ledger_rep H w chain D v ok s l"
    and H: "host C = H" and A: "batch_admissible C w chain D caller b ops l"
  shows "tracks (ledger_rep H w chain D v ok) (sfor (apply_op C caller chain b) ops) (led_batch C caller chain b ops) s l"
  unfolding led_batch_def
  by (rule tracks_sfor, rule R, rule tracks_op[OF W L _ H], assumption)
    (use A in \<open>auto simp: batch_admissible_def led_batch_def\<close>)

subsection \<open>Whole calls\<close>

abbreviation call_block :: "'s call_ctx \<Rightarrow> u64" where
  "call_block C \<equiv> ucast (min (block_number (evm C)) 0xFFFFFFFFFFFFFFFF)"

text \<open>A call of \<open>execute\<close> that reaches the operations of a non-empty batch.\<close>

definition execute_call :: "abi \<Rightarrow> call_input \<Rightarrow> operation list \<Rightarrow> bool" where
  "execute_call B inp ops \<longleftrightarrow>
     target_address inp = bytecode_address inp \<and> call_value inp = 0 \<and> \<not> is_static inp \<and>
     4 \<le> length (call_data inp) \<and> take 4 (call_data inp) = execute_selector B \<and>
     execute_selector B \<noteq> nonces_selector B \<and>
     decode_execute B (drop 4 (call_data inp)) = Some ops \<and> ops \<noteq> []"

lemma execute_call_runs:
  "execute_call B inp ops \<Longrightarrow> arkiv_precompile B C inp s =
    (if call_gas inp < total_gas ops then (OutOfGas, s)
     else case sfor (apply_op C (call_caller inp) (evm_chain_id (evm C)) (call_block C)) ops s of
       Inl (Revert e) \<Rightarrow> (Reverted (SolError e), s)
     | Inl (Fatal f) \<Rightarrow> (FatalError f, s)
     | Inr (_, s') \<Rightarrow> (Success (total_gas ops) [], s'))"
  by (simp add: execute_call_def arkiv_precompile_def dispatch_execute_def Let_def)

text \<open>The world, the journal and the state a call starts from.\<close>

definition call_setting :: "abi \<Rightarrow> 's call_ctx \<Rightarrow> universe \<Rightarrow> domain \<Rightarrow> ('s \<Rightarrow> observation) \<Rightarrow> ('s \<Rightarrow> bool) \<Rightarrow>
    call_input \<Rightarrow> operation list \<Rightarrow> 's \<Rightarrow> ledger \<Rightarrow> bool" where
  "call_setting B C w D v ok inp ops s l \<longleftrightarrow>
     arkiv_world (host C) w (evm_chain_id (evm C)) D \<and> evm_laws (evm C) v ok \<and>
     ledger_rep (host C) w (evm_chain_id (evm C)) D v ok s l \<and> execute_call B inp ops \<and>
     batch_admissible C w (evm_chain_id (evm C)) D (call_caller inp) (call_block C) ops l"

abbreviation led_run :: "'s call_ctx \<Rightarrow> call_input \<Rightarrow> operation list \<Rightarrow> unit act" where
  "led_run C inp ops \<equiv> led_batch C (call_caller inp) (evm_chain_id (evm C)) (call_block C) ops"

lemma answers_ledger:
  assumes W: "arkiv_world (host C) w chain D" and L: "evm_laws (evm C) v ok"
    and R: "ledger_rep (host C) w chain D v ok s l"
  shows "answers (host C) (adapter C) w s (l_entities l)"
proof -
  have "db_world (host C) w" "db_rep (host C) w (o_mem (v s)) (l_entities l) (l_count l)"
    using W R by (simp_all add: arkiv_world_def ledger_rep_def mem_rep_def)
  from answers_mem[OF this] show ?thesis
    unfolding adapter_def using reader_laws.answers_view[OF read_write_laws[OF L, THEN adapter_laws.axioms(1)]] R
    by (auto simp: ledger_rep_def)
qed

lemma call_follows:
  assumes "call_setting B C w D v ok inp ops s l"
  shows "if call_gas inp < total_gas ops then arkiv_precompile B C inp s = (OutOfGas, s)
    else case led_run C inp ops l of
      Inl (Revert e) \<Rightarrow> arkiv_precompile B C inp s = (Reverted (SolError e), s)
    | Inl (Fatal f) \<Rightarrow> arkiv_precompile B C inp s = (FatalError f, s)
    | Inr (_, l') \<Rightarrow> \<exists>s'. arkiv_precompile B C inp s = (Success (total_gas ops) [], s') \<and>
        ledger_rep (host C) w (evm_chain_id (evm C)) D v ok s' l' \<and>
        answers (host C) (adapter C) w s' (l_entities l')"
proof -
  let ?r = "led_run C inp ops l" and ?m = "sfor (apply_op C (call_caller inp) (evm_chain_id (evm C)) (call_block C)) ops"
  have S: "arkiv_world (host C) w (evm_chain_id (evm C)) D" "evm_laws (evm C) v ok"
    and E: "execute_call B inp ops" using assms by (simp_all add: call_setting_def)
  have "tracks (ledger_rep (host C) w (evm_chain_id (evm C)) D v ok) ?m (led_run C inp ops) s l"
    using assms by (intro tracks_batch) (simp_all add: call_setting_def)
  then show ?thesis
    using answers_ledger[OF S] by (auto simp: tracks_def execute_call_runs[OF E] split: sum.splits apply_error.splits)
qed

lemma call_succeeds:
  assumes S: "call_setting B C w D v ok inp ops s l" and r: "arkiv_precompile B C inp s = (Success g out, s')"
  obtains l' where "led_run C inp ops l = Inr ((), l')" "ledger_rep (host C) w (evm_chain_id (evm C)) D v ok s' l'"
    "answers (host C) (adapter C) w s' (l_entities l')" "g = total_gas ops"
  using call_follows[OF S] r that by (auto split: if_splits sum.splits apply_error.splits)


subsection \<open>Invariants of a batch\<close>

lemma batch_admissibleD:
  "batch_admissible C w chain D caller b ops l \<Longrightarrow> ops = pre @ op # post \<Longrightarrow>
    led_batch C caller chain b pre l = Inr ((), l') \<Longrightarrow> admissible C w chain D caller b op l'"
  unfolding batch_admissible_def by blast

lemma batch_invariant:
  assumes W: "arkiv_world H w chain D" and L: "evm_laws (evm C) v ok" and R: "ledger_rep H w chain D v ok s l"
    and H: "host C = H" and A: "batch_admissible C w chain D caller b ops l"
    and run: "led_batch C caller chain b ops l = Inr (u, l')" and P: "P [] l"
    and step: "\<And>pre op l l'. keys_derived H chain D l \<Longrightarrow> admissible C w chain D caller b op l \<Longrightarrow> P pre l \<Longrightarrow>
      led_op C caller chain b op l = Inr ((), l') \<Longrightarrow> P (pre @ [op]) l'"
  shows "P ops l'"
proof -
  have "P (pre @ ops) l'" if "P pre l" for pre
    using R A run that
  proof (induction ops arbitrary: s l pre)
    case Nil
    then show ?case by (simp add: led_batch_def sret_def)
  next
    case (Cons op ops)
    from Cons.prems(3) obtain l1 where l1: "led_op C caller chain b op l = Inr ((), l1)"
      "led_batch C caller chain b ops l1 = Inr (u, l')"
      unfolding led_batch_def sfor.simps sbind_Inr by auto
    have adm: "admissible C w chain D caller b op l"
      by (rule batch_admissibleD[OF Cons.prems(2), of "[]"]) (simp_all add: led_batch_def sret_def)
    have A1: "batch_admissible C w chain D caller b ops l1"
      unfolding batch_admissible_def
    proof (intro allI impI)
      fix pre x post l2
      assume "ops = pre @ x # post" "led_batch C caller chain b pre l1 = Inr ((), l2)"
      then show "admissible C w chain D caller b x l2"
        using l1(1) by (intro batch_admissibleD[OF Cons.prems(2), of "op # pre" _ post])
          (simp_all add: led_batch_def sbind_def)
    qed
    obtain s1 where s1: "ledger_rep H w chain D v ok s1 l1"
      using tracks_op[OF W L Cons.prems(1) H adm] l1(1) by (auto simp: tracks_def)
    have "P (pre @ [op]) l1"
      by (rule step[OF _ adm Cons.prems(4) l1(1)]) (use Cons.prems(1) in \<open>simp add: ledger_rep_def\<close>)
    from Cons.IH[OF s1 A1 l1(2) this] show ?case by simp
  qed
  from this[OF P] show ?thesis by simp
qed

end
