(* ===== verification/LedgerProps.thy ===== *)
theory LedgerProps
  imports LedgerCalls
begin

text \<open>
  What a successful call guarantees: entities of other owners are safe, a payload reference is used
  once per caller, operation nonces count the entities created, payments are conserved, and an
  expired entity can be removed by anyone.
\<close>

subsection \<open>Successful operations\<close>

lemma led_db_Inr: "led_db op l = Inr (u, l') \<longleftrightarrow>
    (\<exists>M n. spec_op op (l_entities l, l_count l) = Inr (M, n) \<and> l' = l\<lparr>l_entities := M, l_count := n\<rparr>)"
  by (auto simp: led_db_def split: sum.split)

lemma led_emit_Inr: "led_emit key t owner ex l = Inr (u, l') \<longleftrightarrow>
    l' = l\<lparr>l_log := l_log l @ [(ARKIV_ADDRESS, \<lparr>ev_entity_key = key, ev_operation_type = t, ev_owner = owner,
      ev_expires_at = clip_u32 ex\<rparr>)]\<rparr>"
  by (auto simp: led_emit_def)

lemma sm_if: "(if c then m else n) l = (if c then m l else n l)"
  by simp

lemma sfail_Inr [simp]: "sfail e l \<noteq> Inr x"
  by (simp add: sfail_def)

lemma at_key_Inr: "at_key key f (M, n) = Inr (M', n') \<longleftrightarrow>
    (\<exists>i e. M key = Some (i, e) \<and> M' = M(key \<mapsto> (i, f e)) \<and> n' = n)"
  by (auto simp: at_key_def split: option.split)

lemma drop_entity_Inr: "drop_entity key (M, n) = Inr (M', n') \<longleftrightarrow> M key \<noteq> None \<and> M' = M(key := None) \<and> n' = n"
  by (auto simp: drop_entity_def split: option.split)

lemmas led_all = led_steps led_db_Inr led_emit_Inr at_key_Inr drop_entity_Inr sm_if Let_def

text \<open>The references, and the number of entities, an operation uses up.\<close>

definition references_of :: "'s call_ctx \<Rightarrow> u64 \<Rightarrow> operation \<Rightarrow> b256 list" where
  "references_of C chain op =
     (if operation_type op \<in> {1, 2} then
        (case validate_payload_reference (plib C) (op_payload op) chain of Inl _ \<Rightarrow> [] | Inr auth \<Rightarrow> [auth_nonce auth])
      else [])"

definition creates :: "operation \<Rightarrow> bool" where
  "creates op \<longleftrightarrow> operation_type op = 1"

lemma led_op_cases:
  assumes "led_op C caller chain b op l = Inr ((), l')"
  obtains (create) "operation_type op = 1" "led_create C caller chain b op l = Inr ((), l')"
    | (update) "operation_type op = 2" "led_update C caller chain b op l = Inr ((), l')"
    | (extend) "operation_type op = 3" "led_extend caller b op l = Inr ((), l')"
    | (transfer) "operation_type op = 4" "led_transfer caller b op l = Inr ((), l')"
    | (delete) "operation_type op = 5" "led_delete caller b op l = Inr ((), l')"
    | (expire) "operation_type op = 6" "led_expire b op l = Inr ((), l')"
  using assms by (auto simp: led_op_def Let_def split: if_splits)

lemma led_create_Inr:
  assumes "led_create C caller chain b op l = Inr ((), l')"
  obtains attrs auth bal where "convert_attributes (op_attributes op) = Inr attrs"
    "validate_payload_reference (plib C) (op_payload op) chain = Inr auth"
    "(caller, auth_nonce auth) \<notin> l_used l" "l_nonces l caller \<noteq> - 1"
    "l_used l' = insert (caller, auth_nonce auth) (l_used l)"
    "l_nonces l' = (l_nonces l)(caller := l_nonces l caller + 1)"
    "l_entities l' = (l_entities l)(derived (host C) chain (caller, l_nonces l caller) \<mapsto> (of_nat (l_count l),
      new_entity caller (derived (host C) chain (caller, l_nonces l caller)) (sat_add b (ucast (op_btl op))) b
        (op_payload op) (auth_content_type auth) attrs))"
    "l_count l' = Suc (l_count l)" "l_balances l' = bal"
    "pay_provider (payload_provider_payment (params_for_block (sched C) b)) (basefee (evm C)) caller auth
       (l_balances l) = Inr bal"
  using assms that by (auto simp: led_create_def led_all derived_def split: if_splits)

lemma led_update_Inr:
  assumes "led_update C caller chain b op l = Inr ((), l')"
  obtains attrs auth bal i e where "convert_attributes (op_attributes op) = Inr attrs"
    "validate_payload_reference (plib C) (op_payload op) chain = Inr auth"
    "(caller, auth_nonce auth) \<notin> l_used l"
    "l_entities l (op_entity_key op) = Some (i, e)" "ent_owner e = caller" "b < ent_expires_at e"
    "l_used l' = insert (caller, auth_nonce auth) (l_used l)" "l_nonces l' = l_nonces l"
    "l_entities l' = (l_entities l)(op_entity_key op \<mapsto> (i, e\<lparr>ent_payload := op_payload op,
      ent_content_type := auth_content_type auth, ent_attributes := attrs, ent_last_modified_at_block := b\<rparr>))"
    "l_count l' = l_count l" "l_balances l' = bal"
    "pay_provider (payload_provider_payment (params_for_block (sched C) b)) (basefee (evm C)) caller auth
       (l_balances l) = Inr bal"
  using assms that by (auto simp: led_update_def led_all split: if_splits)

lemma led_others_Inr:
  assumes "led_extend caller b op l = Inr ((), l') \<or> led_transfer caller b op l = Inr ((), l') \<or>
    led_delete caller b op l = Inr ((), l')"
  obtains i e where "l_entities l (op_entity_key op) = Some (i, e)" "ent_owner e = caller" "b < ent_expires_at e"
    "l_used l' = l_used l" "l_nonces l' = l_nonces l" "l_balances l' = l_balances l"
    "\<And>key. key \<noteq> op_entity_key op \<Longrightarrow> l_entities l' key = l_entities l key" "l_count l' = l_count l"
  using assms that by (auto simp: led_extend_def led_transfer_def led_delete_def led_all split: if_splits)

lemma led_expire_Inr:
  assumes "led_expire b op l = Inr ((), l')"
  obtains i e where "l_entities l (op_entity_key op) = Some (i, e)" "ent_expires_at e \<le> b"
    "l_used l' = l_used l" "l_nonces l' = l_nonces l" "l_balances l' = l_balances l"
    "l_entities l' = (l_entities l)(op_entity_key op := None)" "l_count l' = l_count l"
  using assms that by (auto simp: led_expire_def led_all not_less split: if_splits)

subsection \<open>Batches\<close>

lemma call_invariant:
  assumes S: "call_setting B C w D v ok inp ops s l" and run: "led_run C inp ops l = Inr ((), l')" and P: "P [] l"
    and step: "\<And>pre op l l'. keys_derived (host C) (evm_chain_id (evm C)) D l \<Longrightarrow>
      admissible C w (evm_chain_id (evm C)) D (call_caller inp) (call_block C) op l \<Longrightarrow> P pre l \<Longrightarrow>
      led_op C (call_caller inp) (evm_chain_id (evm C)) (call_block C) op l = Inr ((), l') \<Longrightarrow> P (pre @ [op]) l'"
  shows "P ops l'"
  using S unfolding call_setting_def
  by (intro batch_invariant[where P = P, OF _ _ _ refl _ run P step]) auto

lemma fresh_key:
  assumes "inj_on (derived H chain) D" "keys_derived H chain D l" "(a, l_nonces l a) \<in> D"
  shows "l_entities l (derived H chain (a, l_nonces l a)) = None"
proof (rule ccontr)
  assume "l_entities l (derived H chain (a, l_nonces l a)) \<noteq> None"
  then obtain c n where "(c, n) \<in> D" "derived H chain (a, l_nonces l a) = derived H chain (c, n)" "n < l_nonces l c"
    using assms(2) unfolding keys_derived_def by blast
  then show False using inj_onD[OF assms(1) _ assms(3)] by fastforce
qed

lemma others_keep:
  assumes "led_extend caller b op l = Inr ((), l') \<or> led_transfer caller b op l = Inr ((), l') \<or>
    led_delete caller b op l = Inr ((), l')"
    and e: "l_entities l key = Some (i, e)" "ent_owner e \<noteq> caller"
  shows "l_entities l' key = Some (i, e)"
  by (rule led_others_Inr[OF assms(1)], cases "key = op_entity_key op") (use e in auto)

lemma caller_length:
  assumes S: "call_setting B C w D v ok inp ops s l"
  shows "length (call_caller inp) = 20"
proof -
  obtain op rest where "ops = op # rest" using S by (cases ops) (auto simp: call_setting_def execute_call_def)
  then have "admissible C w (evm_chain_id (evm C)) D (call_caller inp) (call_block C) op l"
    using S by (intro batch_admissibleD[of C w _ D _ _ ops l "[]" op rest])
      (simp_all add: call_setting_def led_batch_def sret_def)
  then show ?thesis by (simp add: admissible_def)
qed

lemma op_keeps_foreign:
  assumes inj: "inj_on (derived (host C) chain) D" and k: "keys_derived (host C) chain D l"
    and A: "admissible C w chain D caller b op l"
    and run: "led_op C caller chain b op l = Inr ((), l')"
    and e: "l_entities l key = Some (i, e)" "ent_owner e \<noteq> caller" "b < ent_expires_at e"
  shows "l_entities l' key = Some (i, e)"
  using run
proof (cases rule: led_op_cases)
  case create
  then have D: "(caller, l_nonces l caller) \<in> D" using A by (simp add: admissible_def)
  have "key \<noteq> derived (host C) chain (caller, l_nonces l caller)" using fresh_key[OF inj k D] e(1) by auto
  then show ?thesis using e(1) by - (rule led_create_Inr[OF create(2)], simp)
next
  case update
  then show ?thesis using e by (auto elim!: led_update_Inr)
next
  case extend
  then show ?thesis using others_keep[OF _ e(1,2)] by blast
next
  case transfer
  then show ?thesis using others_keep[OF _ e(1,2)] by blast
next
  case delete
  then show ?thesis using others_keep[OF _ e(1,2)] by blast
next
  case expire
  then show ?thesis using e by (auto elim!: led_expire_Inr)
qed

text \<open>
  C3. Entities of others are safe: whatever a caller puts into a call, an entity that belongs to
  another account and has not expired is, after the call succeeds, byte for byte what it was, and
  still reachable by its key and its id.
\<close>

theorem other_owners_safe:
  assumes S: "call_setting B C w D v ok inp ops s l" and r: "arkiv_precompile B C inp s = (Success g out, s')"
    and e: "l_entities l key = Some (i, e)" "ent_owner e \<noteq> call_caller inp" "call_block C < ent_expires_at e"
  shows "wp (read_entity (host C) (adapter C) (entity_address key)) s' (\<lambda>e' _. e' = e) \<and>
    wp (resolve_id (host C) (adapter C) i) s' (\<lambda>r _. r = Some e)"
proof -
  obtain l' where l': "led_run C inp ops l = Inr ((), l')" "answers (host C) (adapter C) w s' (l_entities l')"
    using call_succeeds[OF S r] by blast
  have inj: "inj_on (derived (host C) (evm_chain_id (evm C))) D"
    using S by (simp add: call_setting_def arkiv_world_def)
  have "l_entities l' key = Some (i, e)"
    by (rule call_invariant[OF S l'(1), where P = "\<lambda>_ l. l_entities l key = Some (i, e)"])
      (use e op_keeps_foreign[OF inj] in auto)
  then show ?thesis using l'(2) by (simp add: answers_def)
qed

subsection \<open>References and nonces\<close>

lemma op_references:
  assumes A: "admissible C w chain D caller b op l" and run: "led_op C caller chain b op l = Inr ((), l')"
  shows "distinct (references_of C chain op) \<and>
    (\<forall>n \<in> set (references_of C chain op). (caller, n) \<notin> l_used l \<and> reference_preimage caller n \<in> other_slots w) \<and>
    l_used l' = l_used l \<union> {caller} \<times> set (references_of C chain op)"
  using run
proof (cases rule: led_op_cases)
  case create
  show ?thesis
    by (rule led_create_Inr[OF create(2)]) (use A create(1) in \<open>auto simp: references_of_def admissible_def\<close>)
next
  case update
  show ?thesis
    by (rule led_update_Inr[OF update(2)]) (use A update(1) in \<open>auto simp: references_of_def admissible_def\<close>)
next
  case extend
  show ?thesis by (rule led_others_Inr[OF disjI1[OF extend(2)]]) (simp add: references_of_def extend(1))
next
  case transfer
  show ?thesis
    by (rule led_others_Inr[OF disjI2[OF disjI1[OF transfer(2)]]]) (simp add: references_of_def transfer(1))
next
  case delete
  show ?thesis
    by (rule led_others_Inr[OF disjI2[OF disjI2[OF delete(2)]]]) (simp add: references_of_def delete(1))
next
  case expire
  show ?thesis by (rule led_expire_Inr[OF expire(2)]) (simp add: references_of_def expire(1))
qed

lemma op_nonces:
  assumes run: "led_op C caller chain b op l = Inr ((), l')"
  shows "l_nonces l' = (if creates op then (l_nonces l)(caller := l_nonces l caller + 1) else l_nonces l) \<and>
    (creates op \<longrightarrow> l_nonces l caller \<noteq> - 1)"
  using run
proof (cases rule: led_op_cases)
  case create
  show ?thesis by (rule led_create_Inr[OF create(2)]) (simp add: creates_def create(1))
next
  case update
  show ?thesis by (rule led_update_Inr[OF update(2)]) (simp add: creates_def update(1))
next
  case extend
  show ?thesis by (rule led_others_Inr[OF disjI1[OF extend(2)]]) (simp add: creates_def extend(1))
next
  case transfer
  show ?thesis by (rule led_others_Inr[OF disjI2[OF disjI1[OF transfer(2)]]]) (simp add: creates_def transfer(1))
next
  case delete
  show ?thesis by (rule led_others_Inr[OF disjI2[OF disjI2[OF delete(2)]]]) (simp add: creates_def delete(1))
next
  case expire
  show ?thesis by (rule led_expire_Inr[OF expire(2)]) (simp add: creates_def expire(1))
qed

text \<open>What the readers of the crate say of the slots of a ledger.\<close>

lemma ledger_slots:
  assumes L: "evm_laws (evm C) v ok" and R: "ledger_rep (host C) w chain D v ok s l"
  shows "length a = 20 \<Longrightarrow> reference_preimage a n \<in> other_slots w \<Longrightarrow>
      wp (payload_reference_nonce_used (host C) (adapter C) a n) s (\<lambda>u _. u = ((a, n) \<in> l_used l))"
    "nonce_preimage a \<in> other_slots w \<Longrightarrow> wp (read_nonce (host C) (adapter C) a) s (\<lambda>k _. k = l_nonces l a)"
proof -
  note A = read_write_laws[OF L, of "l_balances l" "l_log l", THEN adapter_laws.axioms(1)]
  have q: "quiet v ok (l_balances l) (l_log l) s" and m: "mem_rep (host C) w (o_mem (v s)) l"
    using R by (simp_all add: ledger_rep_def)
  show "wp (payload_reference_nonce_used (host C) (adapter C) a n) s (\<lambda>u _. u = ((a, n) \<in> l_used l))"
    if "length a = 20" "reference_preimage a n \<in> other_slots w"
    unfolding adapter_def
    by (rule reader_laws.sim_result[OF A reader_laws.sim_readers(2)[OF A] q])
      (use m that in \<open>simp add: payload_reference_nonce_used_def wp_simps mem_rep_def slots_preimage\<close>)
  show "wp (read_nonce (host C) (adapter C) a) s (\<lambda>k _. k = l_nonces l a)" if "nonce_preimage a \<in> other_slots w"
    unfolding adapter_def
    by (rule reader_laws.sim_result[OF A reader_laws.sim_readers(1)[OF A] q])
      (use m that in \<open>simp add: read_nonce_def wp_simps mem_rep_def slots_preimage\<close>)
qed

text \<open>
  C4. Payload references are used once: the references of the create and update operations of a
  successful call have pairwise different nonces; none of them had been used by the caller before,
  all of them have been after, and nothing else counts as used. So no signed reference can be
  replayed by its caller, in the same batch or later.
\<close>

theorem references_used_once:
  assumes S: "call_setting B C w D v ok inp ops s l" and r: "arkiv_precompile B C inp s = (Success g out, s')"
  shows "let refs = concat (map (references_of C (evm_chain_id (evm C))) ops) in
    distinct refs \<and>
    list_all (\<lambda>n. wp (payload_reference_nonce_used (host C) (adapter C) (call_caller inp) n) s (\<lambda>u _. \<not> u) \<and>
      wp (payload_reference_nonce_used (host C) (adapter C) (call_caller inp) n) s' (\<lambda>u _. u)) refs \<and>
    (\<exists>l'. ledger_rep (host C) w (evm_chain_id (evm C)) D v ok s' l' \<and>
      l_used l' = l_used l \<union> {call_caller inp} \<times> set refs)"
proof -
  let ?refs = "\<lambda>ops. concat (map (references_of C (evm_chain_id (evm C))) ops)" and ?c = "call_caller inp"
  obtain l' where l': "led_run C inp ops l = Inr ((), l')" "ledger_rep (host C) w (evm_chain_id (evm C)) D v ok s' l'"
    using call_succeeds[OF S r] by blast
  have L: "evm_laws (evm C) v ok" and R: "ledger_rep (host C) w (evm_chain_id (evm C)) D v ok s l"
    using S by (simp_all add: call_setting_def)
  note len = caller_length[OF S]
  have inv: "distinct (?refs ops) \<and> (\<forall>n \<in> set (?refs ops). (?c, n) \<notin> l_used l \<and> reference_preimage ?c n \<in> other_slots w) \<and>
      l_used l' = l_used l \<union> {?c} \<times> set (?refs ops)"
  proof (rule call_invariant[OF S l'(1), where P = "\<lambda>ops l1. distinct (?refs ops) \<and>
      (\<forall>n \<in> set (?refs ops). (?c, n) \<notin> l_used l \<and> reference_preimage ?c n \<in> other_slots w) \<and>
      l_used l1 = l_used l \<union> {?c} \<times> set (?refs ops)"])
    fix pre op l1 l2
    assume A: "admissible C w (evm_chain_id (evm C)) D ?c (call_block C) op l1"
      and "led_op C ?c (evm_chain_id (evm C)) (call_block C) op l1 = Inr ((), l2)"
      and P: "distinct (?refs pre) \<and> (\<forall>n \<in> set (?refs pre). (?c, n) \<notin> l_used l \<and>
        reference_preimage ?c n \<in> other_slots w) \<and> l_used l1 = l_used l \<union> {?c} \<times> set (?refs pre)"
    from op_references[OF A this(2)] P show "distinct (?refs (pre @ [op])) \<and>
      (\<forall>n \<in> set (?refs (pre @ [op])). (?c, n) \<notin> l_used l \<and> reference_preimage ?c n \<in> other_slots w) \<and>
      l_used l2 = l_used l \<union> {?c} \<times> set (?refs (pre @ [op]))"
      by (auto simp: distinct_append)
  qed simp
  then show ?thesis
    using ledger_slots(1)[OF L R len] ledger_slots(1)[OF L l'(2) len] l'(2)
    by (fastforce simp: Let_def list_all_iff elim!: wp_mono)
qed

text \<open>
  C7. Operation nonces: a successful call raises the nonce of its caller by the number of entities it
  creates, without wrapping around, and no other account's nonce changes; the nonce the precompile
  reports is this counter. So the keys of the entities, which are hashes of the account and its
  nonce, never repeat.
\<close>

theorem nonces_count_creates:
  assumes S: "call_setting B C w D v ok inp ops s l" and r: "arkiv_precompile B C inp s = (Success g out, s')"
    and a: "nonce_preimage a \<in> other_slots w"
  shows "\<exists>n n'. wp (read_nonce (host C) (adapter C) a) s (\<lambda>k _. k = n) \<and>
    wp (read_nonce (host C) (adapter C) a) s' (\<lambda>k _. k = n') \<and>
    unat n' = unat n + (if a = call_caller inp then length (filter creates ops) else 0)"
proof -
  obtain l' where l': "led_run C inp ops l = Inr ((), l')" "ledger_rep (host C) w (evm_chain_id (evm C)) D v ok s' l'"
    using call_succeeds[OF S r] by blast
  have L: "evm_laws (evm C) v ok" and R: "ledger_rep (host C) w (evm_chain_id (evm C)) D v ok s l"
    using S by (simp_all add: call_setting_def)
  have "unat (l_nonces l' a) = unat (l_nonces l a) + (if a = call_caller inp then length (filter creates ops) else 0)"
  proof (rule call_invariant[OF S l'(1), where P = "\<lambda>ops l1. unat (l_nonces l1 a) =
      unat (l_nonces l a) + (if a = call_caller inp then length (filter creates ops) else 0)"])
    fix pre op l1 l2
    assume P: "unat (l_nonces l1 a) = unat (l_nonces l a) + (if a = call_caller inp then length (filter creates pre) else 0)"
      and run: "led_op C (call_caller inp) (evm_chain_id (evm C)) (call_block C) op l1 = Inr ((), l2)"
    have "unat (n + 1) = Suc (unat n)" if "n \<noteq> - 1" for n :: u32
      using that checked_add_Some[of n 1 "n + 1"] by (simp add: checked_succ)
    with op_nonces[OF run] P show "unat (l_nonces l2 a) = unat (l_nonces l a) +
        (if a = call_caller inp then length (filter creates (pre @ [op])) else 0)"
      by (auto split: if_splits)
  qed simp
  then show ?thesis using ledger_slots(2)[OF L R a] ledger_slots(2)[OF L l'(2) a] by blast
qed

subsection \<open>Payments\<close>

lemma small_u256: "n < 2 ^ 128 \<Longrightarrow> unat (of_nat n :: u256) = n"
  by (simp add: unat_of_nat)

lemma moved_balances:
  assumes "can_move a b x bal"
  shows "a \<noteq> b \<Longrightarrow> unat (moved a b x bal a) + unat x = unat (bal a)"
    "a \<noteq> b \<Longrightarrow> unat (moved a b x bal b) = unat (bal b) + unat x" "a = b \<Longrightarrow> moved a b x bal = bal"
    "c \<notin> {a, b} \<Longrightarrow> moved a b x bal c = bal c"
  using assms by (auto simp: moved_def can_move_def Let_def unat_sub word_le_nat_alt unat_word_ariths)

lemma can_move_iff:
  "x \<le> bal a \<Longrightarrow> a \<noteq> b \<Longrightarrow> can_move a b x bal \<longleftrightarrow> unat (bal b) + unat x < 2 ^ 256"
  by (simp add: can_move_def)


subsection \<open>Removing entities\<close>

text \<open>
  A batch of one \<open>expire\<close> or \<open>delete\<close>, and whether the entity is due: anyone may remove an expired
  entity, its owner one that has not expired.
\<close>

definition removal :: "operation \<Rightarrow> bool" where
  "removal op \<longleftrightarrow> operation_type op = 5 \<or> operation_type op = 6"

definition due :: "operation \<Rightarrow> address \<Rightarrow> u64 \<Rightarrow> entity_rlp \<Rightarrow> bool" where
  "due op caller b e \<longleftrightarrow>
     (if operation_type op = 6 then ent_expires_at e \<le> b else b < ent_expires_at e \<and> ent_owner e = caller)"

lemma removal_gas: "removal op \<Longrightarrow> total_gas [op] = 67000"
proof -
  assume "removal op"
  then have "op_gas op = 62000"
    by (elim removal_def[THEN iffD1, THEN disjE]) (simp_all add: op_gas_def op_type_defs gas_defs)
  moreover have "sat_add 5000 62000 = (67000 :: u64)" by (simp add: sat_add_def)
  ultimately show ?thesis by (simp add: total_gas_def G_EXECUTE_BASE_def)
qed

lemma removal_runs:
  assumes "removal op" "l_entities l (op_entity_key op) = Some (i, e)" "due op caller b e"
  shows "\<exists>l'. led_batch C caller chain b [op] l = Inr ((), l') \<and>
    l_entities l' = (l_entities l)(op_entity_key op := None)"
proof -
  have "\<exists>l'. led_op C caller chain b op l = Inr ((), l') \<and> l_entities l' = (l_entities l)(op_entity_key op := None)"
  proof (cases "operation_type op = 6")
    case True
    then show ?thesis
      using assms by (simp add: led_op_def led_expire_def led_all due_def not_less)
  next
    case False
    then have "operation_type op = 5" using assms(1) by (simp add: removal_def)
    then show ?thesis
      using assms by (simp add: led_op_def led_delete_def led_all due_def not_less)
  qed
  then show ?thesis by (auto simp: led_batch_def sbind_def sret_def)
qed

text \<open>
  C9. Removal always works: once an entity has expired, a call of anyone with 67000 gas that asks for
  its removal succeeds, and likewise the owner can remove an entity that has not expired; afterwards
  neither its key nor its id leads to it, and its id is in no bitmap of the index.
\<close>

theorem removal_succeeds:
  assumes S: "call_setting B C w D v ok inp [op] s l" and op: "removal op" and gas: "67000 \<le> call_gas inp"
    and e: "l_entities l (op_entity_key op) = Some (i, e)" "due op (call_caller inp) (call_block C) e"
    and pair: "(k, x) \<in> pairs w"
  shows "\<exists>s'. arkiv_precompile B C inp s = (Success 67000 [], s') \<and>
    read_entity (host C) (adapter C) (entity_address (op_entity_key op)) s' =
      Inl (NoEntity (entity_address (op_entity_key op))) \<and>
    wp (resolve_id (host C) (adapter C) i) s' (\<lambda>r _. r = None) \<and>
    wp (read_pair_bitmap (host C) (adapter C) k x) s' (\<lambda>ids _. i \<notin> ids)"
proof -
  obtain l' where l': "led_run C inp [op] l = Inr ((), l')" "l_entities l' = (l_entities l)(op_entity_key op := None)"
    using removal_runs[OF op e] by blast
  then obtain s' where s': "arkiv_precompile B C inp s = (Success 67000 [], s')"
    "answers (host C) (adapter C) w s' (l_entities l')"
    using call_follows[OF S] gas by (auto simp: removal_gas[OF op] not_less[symmetric])
  have W: "db_world (host C) w" and R: "store_rep (host C) w (o_mem (v s)) (l_entities l) (l_count l)"
    using S by (simp_all add: call_setting_def arkiv_world_def ledger_rep_def mem_rep_def db_rep_def)
  have k: "op_entity_key op \<in> ekeys w" using store_repD(2)[OF R e(1)] .
  have i: "unat i < max_ids w" using store_repD(1,5)[OF R] e(1) by (fastforce simp: entity_at_def)
  have only: "l_entities l' key \<noteq> Some (i, f)" for key f
    using id_unique[OF W R e(1), of key f] l'(2) by (auto split: if_splits)
  have gone: "i \<notin> matching_ids (l_entities l') P" for P using only by (auto simp: matching_ids_def)
  have "read_entity (host C) (adapter C) (entity_address (op_entity_key op)) s' =
      Inl (NoEntity (entity_address (op_entity_key op)))"
    using s'(2) k l'(2) by (simp add: answers_def)
  moreover have "wp (resolve_id (host C) (adapter C) i) s' (\<lambda>r _. r = None)"
    using s'(2) i only unfolding answers_def by blast
  moreover have "wp (read_pair_bitmap (host C) (adapter C) k x) s' (\<lambda>ids _. i \<notin> ids)"
    using answers_bitmap[OF s'(2) pair] gone by (auto elim: wp_mono)
  ultimately show ?thesis using s'(1) by blast
qed

end
