(* ===== verification/PayloadAuth.thy ===== *)
theory PayloadAuth
  imports PrecompileRun Utf8
begin

text \<open>
  What the precompile knows of a signed payload reference once it has accepted it, and how far
  the signature of the payload provider determines it.
\<close>

subsection \<open>The question mark operator\<close>

lemma try_then_Inr: "try_then r f = Inr y \<longleftrightarrow> (\<exists>x. r = Inr x \<and> f x = Inr y)"
  by (simp add: try_then_def split: sum.split)

lemma ensure_Inr [simp]: "ensure c e = Inr u \<longleftrightarrow> c"
  by (simp add: ensure_def)

lemma if_Inl_Inr: "(if c then Inl e else r) = Inr y \<longleftrightarrow> \<not> c \<and> r = Inr y"
  by simp

lemma case_option_Inr: "(case z of None \<Rightarrow> Inl e | Some x \<Rightarrow> f x) = Inr y \<longleftrightarrow> (\<exists>x. z = Some x \<and> f x = Inr y)"
  by (simp split: option.split)

lemmas accepts = try_then_Inr if_Inl_Inr case_option_Inr

subsection \<open>The checks\<close>

definition printable :: "nat \<Rightarrow> ustring \<Rightarrow> bool" where
  "printable n v \<longleftrightarrow> v \<noteq> [] \<and> length (utf8 v) \<le> n \<and> list_all printable_byte (utf8 v)"

definition content_type_ok :: "ustring option \<Rightarrow> bool" where
  "content_type_ok ct \<longleftrightarrow> (case ct of None \<Rightarrow> True | Some v \<Rightarrow> printable 128 v)"

definition content_type_bytes :: "ustring option \<Rightarrow> bytes" where
  "content_type_bytes ct = (case ct of None \<Rightarrow> [] | Some v \<Rightarrow> utf8 v)"

lemma validate_content_type_iff: "validate_payload_content_type ct = Inr u \<longleftrightarrow> content_type_ok ct"
  by (auto simp: validate_payload_content_type_def content_type_ok_def printable_def ensure_def
      split: option.split)

lemma validate_nonce_iff:
  "validate_payload_reference_nonce L v = Inr n \<longleftrightarrow> decode_prefixed_hex_32 L v = Inr n \<and> n \<noteq> zero_b256"
  by (auto simp: validate_payload_reference_nonce_def split: sum.split)

lemma validate_payment_iff: "validate_payload_reference_payment p = Inr u \<longleftrightarrow> p \<noteq> 0"
  by (simp add: validate_payload_reference_payment_def)

text \<open>
  \<open>signed L receipt sg signer\<close>: the signature object carries this receipt, its packed signature
  is one of the given address on the EIP-191 hash of the receipt.
\<close>

definition signed :: "payload_lib \<Rightarrow> payload_receipt \<Rightarrow> payload_signature \<Rightarrow> address \<Rightarrow> bool" where
  "signed L receipt sg signer \<longleftrightarrow>
     sig_receipt sg = receipt \<and> sig_v sg \<in> {27, 28} \<and>
     (\<exists>r s packed. decode_prefixed_hex_exact L (sig_signature sg) 65 = Inr packed \<and>
        take 32 packed = r \<and> take 32 (drop 32 packed) = s \<and> packed ! 64 = sig_v sg \<and>
        recover_address_from_prehash L r s (sig_v sg = 28)
          (eip191_hash_message L (receipt_to_vec L receipt)) = Some signer)"

lemma signature_accepted:
  assumes "validate_payload_signature L receipt sg chain = Inr signer"
  shows "signed L receipt sg signer" "is_trusted_payload_provider_signer signer chain"
  using assms unfolding validate_payload_signature_def Let_def accepts signed_def by auto

definition receipt_syntax :: "payload_lib \<Rightarrow> payload_reference \<Rightarrow> bool" where
  "receipt_syntax L ref \<longleftrightarrow>
     ref_kind ref = PAYLOAD_REFERENCE_KIND \<and> ref_version ref = PAYLOAD_REFERENCE_VERSION \<and>
     ref_provider ref = PAYLOAD_PROVIDER_SERVICE \<and>
     validate_payload_id (ref_id ref) = Inr () \<and> validate_payload_namespace (ref_namespace ref) = Inr () \<and>
     validate_payload_checksum (ref_checksum ref) = Inr () \<and>
     validate_payload_size (ref_size_bytes ref) = Inr () \<and> validate_submitted_at (ref_submitted_at ref) = Inr ()"

lemma validate_reference_iff:
  "validate_payload_reference L payload chain = Inr auth \<longleftrightarrow>
    (\<exists>ref nonce provider. from_slice L payload = Some ref \<and> receipt_syntax L ref \<and>
       content_type_ok (ref_content_type ref) \<and> decode_prefixed_hex_32 L (ref_nonce ref) = Inr nonce \<and>
       nonce \<noteq> zero_b256 \<and> ref_payment ref \<noteq> 0 \<and>
       validate_payload_signature L (expected_receipt_of ref) (ref_signature ref) chain = Inr provider \<and>
       auth = \<lparr>auth_nonce = nonce, auth_content_type = content_type_bytes (ref_content_type ref),
         auth_payment = ref_payment ref, auth_provider = provider\<rparr>)"
proof -
  have u: "(\<exists>x :: unit. P x) \<longleftrightarrow> P ()" for P by (metis old.unit.exhaust)
  show ?thesis
    unfolding validate_payload_reference_def Let_def accepts validate_content_type_iff validate_nonce_iff
      validate_payment_iff receipt_syntax_def content_type_bytes_def u not_not sum.inject
    by blast
qed

lemma trusted_iff:
  "is_trusted_payload_provider_signer a chain \<longleftrightarrow>
    a = TRUSTED_PAYLOAD_PROVIDER_SIGNERS ! 0 \<or> (chain = 1337 \<and> a = TRUSTED_DEV_PAYLOAD_PROVIDER_SIGNERS ! 0)"
  by (simp add: is_trusted_payload_provider_signer_def TRUSTED_PAYLOAD_PROVIDER_SIGNERS_def
      TRUSTED_DEV_PAYLOAD_PROVIDER_SIGNERS_def DEV_CHAIN_ID_def)

text \<open>
  C6. Payload references are authorised: an accepted payload is the JSON of a reference whose
  receipt was signed, as EIP-191 message, by the address the payment will go to; that address is
  the production signer, or the development signer on chain 1337 only. The receipt the signer saw
  names the id, namespace, checksum, size, time, nonce and payment of the reference, the nonce and
  the payment are not zero, and the content type to be stored is printable ASCII of at most 128
  bytes.
\<close>

theorem payload_reference_authorised:
  assumes "validate_payload_reference L payload chain = Inr auth"
  shows "\<exists>ref. from_slice L payload = Some ref \<and>
    signed L (expected_receipt_of ref) (ref_signature ref) (auth_provider auth) \<and>
    (auth_provider auth = TRUSTED_PAYLOAD_PROVIDER_SIGNERS ! 0 \<or>
      chain = 1337 \<and> auth_provider auth = TRUSTED_DEV_PAYLOAD_PROVIDER_SIGNERS ! 0) \<and>
    decode_prefixed_hex_32 L (ref_nonce ref) = Inr (auth_nonce auth) \<and> auth_nonce auth \<noteq> zero_b256 \<and>
    auth_payment auth = ref_payment ref \<and> auth_payment auth \<noteq> 0 \<and>
    length (auth_content_type auth) \<le> 128 \<and> list_all printable_byte (auth_content_type auth)"
proof -
  from assms obtain ref nonce provider where ref: "from_slice L payload = Some ref"
    "content_type_ok (ref_content_type ref)" "decode_prefixed_hex_32 L (ref_nonce ref) = Inr nonce"
    "nonce \<noteq> zero_b256" "ref_payment ref \<noteq> 0"
    and sg: "validate_payload_signature L (expected_receipt_of ref) (ref_signature ref) chain = Inr provider"
    and auth: "auth = \<lparr>auth_nonce = nonce, auth_content_type = content_type_bytes (ref_content_type ref),
         auth_payment = ref_payment ref, auth_provider = provider\<rparr>"
    unfolding validate_reference_iff by blast
  have "length (auth_content_type auth) \<le> 128 \<and> list_all printable_byte (auth_content_type auth)"
    using ref(2) auth
    by (auto simp: content_type_ok_def content_type_bytes_def printable_def split: option.splits)
  then show ?thesis
    using ref signature_accepted[OF sg] auth by (auto simp: trusted_iff)
qed

text \<open>
  C34. What the signature covers: among the references that carry the signature object of an
  accepted one, those accepted are exactly the ones that differ from it in the content type only,
  by any printable content type. The signature fixes everything else (in particular nonce, payment
  and checksum), and it does not cover the content type, although this is what is stored and
  indexed with the entity.
\<close>

theorem signature_covers_all_but_content_type:
  assumes ref: "from_slice L payload = Some ref"
    and auth: "validate_payload_reference L payload chain = Inr auth"
    and ref': "from_slice L payload' = Some ref'"
  shows "ref_signature ref' = ref_signature ref \<and> validate_payload_reference L payload' chain = Inr auth' \<longleftrightarrow>
    (\<exists>ct. content_type_ok ct \<and> ref' = ref\<lparr>ref_content_type := ct\<rparr> \<and>
      auth' = auth\<lparr>auth_content_type := content_type_bytes ct\<rparr>)"
    (is "?l \<longleftrightarrow> ?r")
proof
  assume l: ?l
  then have s: "ref_signature ref' = ref_signature ref" by blast
  from l ref' have a': "receipt_syntax L ref'" "content_type_ok (ref_content_type ref')"
    "\<exists>nonce provider. decode_prefixed_hex_32 L (ref_nonce ref') = Inr nonce \<and>
       validate_payload_signature L (expected_receipt_of ref') (ref_signature ref') chain = Inr provider \<and>
       auth' = \<lparr>auth_nonce = nonce, auth_content_type = content_type_bytes (ref_content_type ref'),
         auth_payment = ref_payment ref', auth_provider = provider\<rparr>"
    by (auto simp: validate_reference_iff)
  from auth ref have a: "receipt_syntax L ref"
    "\<exists>nonce provider. decode_prefixed_hex_32 L (ref_nonce ref) = Inr nonce \<and>
       validate_payload_signature L (expected_receipt_of ref) (ref_signature ref) chain = Inr provider \<and>
       auth = \<lparr>auth_nonce = nonce, auth_content_type = content_type_bytes (ref_content_type ref),
         auth_payment = ref_payment ref, auth_provider = provider\<rparr>"
    by (auto simp: validate_reference_iff)
  have e: "expected_receipt_of ref' = expected_receipt_of ref"
    using a(2) a'(3) s signature_accepted(1) unfolding signed_def by metis
  then have "ref' = ref\<lparr>ref_content_type := ref_content_type ref'\<rparr>"
    using s a(1) a'(1) by (cases ref; cases ref') (simp add: expected_receipt_of_def receipt_syntax_def)
  moreover have "auth' = auth\<lparr>auth_content_type := content_type_bytes (ref_content_type ref')\<rparr>"
    using a(2) a'(3) e s by (auto simp: expected_receipt_of_def)
  ultimately show ?r using a'(2) by blast
next
  assume ?r
  then obtain ct where ct: "content_type_ok ct" "ref' = ref\<lparr>ref_content_type := ct\<rparr>"
    "auth' = auth\<lparr>auth_content_type := content_type_bytes ct\<rparr>" by blast
  then show ?l
    using auth ref ref' by (auto simp: validate_reference_iff receipt_syntax_def expected_receipt_of_def)
qed


subsection \<open>A concrete library\<close>

text \<open>
  Hexadecimal text is coded for real; the JSON of a reference is stood for by the byte its nonce is
  made of, optionally followed by a further byte for a content type, and every signature recovers
  the development signer.
\<close>

definition hex_value :: "uchar \<Rightarrow> byte option" where
  "hex_value c =
     (if 0x30 \<le> c \<and> c \<le> 0x39 then Some (of_nat (c - 0x30))
      else if 0x61 \<le> c \<and> c \<le> 0x66 then Some (of_nat (c - 0x61 + 10)) else None)"

fun hex_pairs :: "ustring \<Rightarrow> bytes option" where
  "hex_pairs [] = Some []"
| "hex_pairs (a # b # r) =
     (case (hex_value a, hex_value b, hex_pairs r) of
        (Some x, Some y, Some bs) \<Rightarrow> Some ((16 * x + y) # bs)
      | _ \<Rightarrow> None)"
| "hex_pairs [a] = None"

lemma hex_value_digit: "n < 16 \<Longrightarrow> hex_value (hex_digit n) = Some (of_nat n)"
  by (auto simp: hex_value_def hex_digit_def)

lemma hex_pairs_digits: "hex_pairs (hex_digits bs) = Some bs"
proof (induction bs)
  case (Cons b bs)
  have "(of_nat (16 * (unat b div 16) + unat b mod 16) :: byte) = b"
    by (simp only: mult_div_mod_eq) simp
  then have "16 * of_nat (unat b div 16) + of_nat (unat b mod 16) = b"
    by (simp only: of_nat_add of_nat_mult of_nat_numeral)
  then show ?case
    using unat_bound[of b] Cons by - (simp add: hex_digits_def hex_value_digit less_mult_imp_div_less, assumption?)
qed (simp add: hex_digits_def)

definition prefixed_hex :: "bytes \<Rightarrow> ustring" where
  "prefixed_hex bs = ascii ''0x'' @ hex_digits bs"

definition demo_signer :: address where
  "demo_signer = TRUSTED_DEV_PAYLOAD_PROVIDER_SIGNERS ! 0"

definition demo_receipt :: "byte \<Rightarrow> payload_receipt" where
  "demo_receipt b =
     \<lparr>rc_service = PAYLOAD_PROVIDER_SERVICE, rc_action = PAYLOAD_PROVIDER_RECEIPT_ACTION,
      rc_payload_id = replicate 64 0x61, rc_namespace = ascii ''atlas.test'',
      rc_checksum = ascii ''sha256:'' @ replicate 64 0x61, rc_size_bytes = 42,
      rc_submitted_at = ascii ''2026-06-24'', rc_nonce = prefixed_hex (replicate 32 b),
      rc_payment = 100000\<rparr>"

definition demo_reference :: "byte \<Rightarrow> ustring option \<Rightarrow> payload_reference" where
  "demo_reference b ct =
     \<lparr>ref_kind = PAYLOAD_REFERENCE_KIND, ref_version = 1, ref_provider = PAYLOAD_PROVIDER_SERVICE,
      ref_id = replicate 64 0x61, ref_namespace = ascii ''atlas.test'', ref_content_type = ct,
      ref_checksum = ascii ''sha256:'' @ replicate 64 0x61, ref_size_bytes = 42,
      ref_submitted_at = ascii ''2026-06-24'', ref_nonce = prefixed_hex (replicate 32 b),
      ref_payment = 100000,
      ref_signature =
        \<lparr>sig_scheme = ascii ''eip191'', sig_signer = ascii ''dev'', sig_receipt = demo_receipt b,
         sig_message_hash = prefixed_hex (replicate 32 5),
         sig_signature = prefixed_hex (replicate 64 9 @ [27]),
         sig_r = prefixed_hex (replicate 32 9), sig_s = prefixed_hex (replicate 32 9), sig_v = 27\<rparr>\<rparr>"

definition demo_lib :: payload_lib where
  "demo_lib =
     \<lparr>from_slice = \<lambda>p. (case p of
        [b] \<Rightarrow> Some (demo_reference b None)
      | [b, _] \<Rightarrow> Some (demo_reference b (Some (ascii ''text/plain'')))
      | _ \<Rightarrow> None),
      receipt_to_vec = \<lambda>r. utf8 (rc_nonce r),
      eip191_hash_message = \<lambda>_. replicate 32 5,
      encode_prefixed = prefixed_hex,
      decode_to_slice = \<lambda>s n. hex_pairs s,
      parse_address = \<lambda>_. Some demo_signer,
      recover_address_from_prehash = \<lambda>_ _ _ _. Some demo_signer\<rparr>"

lemma utf8_replicate: "c < 128 \<Longrightarrow> utf8 (replicate n c) = replicate n (of_nat c)"
  by (induction n) (auto simp: utf8_char_def)

lemmas utf8_eval = utf8_char_def len_utf8_def utf8_replicate ascii_def

lemma length_utf8_hex: "length (utf8 (hex_digits bs)) = 2 * length bs"
proof -
  have "utf8_char (hex_digit n) = [of_nat (hex_digit n)]" if "n < 16" for n
    using that by (auto simp: utf8_char_def hex_digit_def)
  then show ?thesis
    by (induction bs) (auto simp: hex_digits_def less_mult_imp_div_less unat_bound[THEN less_le_trans])
qed

lemma demo_hex: "length bs = n \<Longrightarrow> decode_prefixed_hex_exact demo_lib (prefixed_hex bs) n = Inr bs"
  by (simp add: decode_prefixed_hex_exact_def Let_def prefixed_hex_def ascii_def length_utf8_hex
      demo_lib_def hex_pairs_digits)

lemma demo_syntax: "receipt_syntax demo_lib (demo_reference b ct)"
  by (simp add: receipt_syntax_def demo_reference_def PAYLOAD_REFERENCE_VERSION_def
      validate_payload_id_def validate_payload_namespace_def validate_payload_checksum_def
      validate_payload_size_def validate_submitted_at_def utf8_eval ensure_def is_lower_hex_def
      namespace_byte_def printable_byte_def list_all_iff)

lemma demo_accepted:
  assumes "b \<noteq> 0" and "content_type_ok ct" and "from_slice demo_lib p = Some (demo_reference b ct)"
  shows "validate_payload_reference demo_lib p 1337 =
    Inr \<lparr>auth_nonce = replicate 32 b, auth_content_type = content_type_bytes ct,
      auth_payment = 100000, auth_provider = demo_signer\<rparr>"
proof -
  have "validate_payload_signature demo_lib (expected_receipt_of (demo_reference b ct))
      (ref_signature (demo_reference b ct)) 1337 = Inr demo_signer"
    by (simp add: validate_payload_signature_def demo_reference_def expected_receipt_of_def
        demo_receipt_def decode_prefixed_hex_32_def demo_hex try_then_def nth_append)
      (simp add: demo_lib_def demo_signer_def trusted_iff)
  moreover have "replicate 32 b \<noteq> zero_b256" using assms(1) by (simp add: zero_b256_def)
  moreover have "decode_prefixed_hex_32 demo_lib (ref_nonce (demo_reference b ct)) = Inr (replicate 32 b)"
    by (simp add: demo_reference_def decode_prefixed_hex_32_def demo_hex)
  ultimately show ?thesis
    unfolding validate_reference_iff using assms(2,3) demo_syntax[of b ct]
    by (auto simp: demo_reference_def)
qed

lemma text_plain_ok: "content_type_ok None" "content_type_ok (Some (ascii ''text/plain''))"
  by (simp_all add: content_type_ok_def printable_def utf8_eval printable_byte_def)

lemma demo_payloads:
  "from_slice demo_lib [b] = Some (demo_reference b None)"
  "from_slice demo_lib [b, c] = Some (demo_reference b (Some (ascii ''text/plain'')))"
  by (simp_all add: demo_lib_def)

lemma payload_reference_authorised_witness:
  "signed demo_lib (expected_receipt_of (demo_reference 7 None)) (ref_signature (demo_reference 7 None)) demo_signer"
  using payload_reference_authorised[OF demo_accepted[of 7 None "[7]"]] demo_payloads text_plain_ok by simp

lemma signature_covers_all_but_content_type_witness:
  "\<exists>ct. demo_reference 7 (Some (ascii ''text/plain'')) = (demo_reference 7 None)\<lparr>ref_content_type := ct\<rparr>"
  using signature_covers_all_but_content_type[OF demo_payloads(1)
      demo_accepted[of 7, OF _ text_plain_ok(1) demo_payloads(1)] demo_payloads(2)[of 7 1], of "\<lparr>auth_nonce = replicate 32 7, auth_content_type = content_type_bytes (Some (ascii ''text/plain'')),
      auth_payment = 100000, auth_provider = demo_signer\<rparr>"]
    demo_accepted[of 7, OF _ text_plain_ok(2) demo_payloads(2)[of 7 1]]
  by (auto simp: demo_reference_def)

end
