(* ===== verification/Attributes.thy ===== *)
theory Attributes
  imports Utf8 EntityStore Parser
begin

text \<open>
  What the precompile lets through: attribute names, attribute values, and how they agree with the
  literals of the query language.
\<close>

subsection \<open>Identifiers\<close>

definition ident_leading :: "byte \<Rightarrow> bool" where
  "ident_leading b \<longleftrightarrow> 0x61 \<le> b \<and> b \<le> 0x7A"

definition ident_byte :: "byte \<Rightarrow> bool" where
  "ident_byte b \<longleftrightarrow> ident_leading b \<or> (0x30 \<le> b \<and> b \<le> 0x39) \<or> b = 0x2E \<or> b = 0x2D \<or> b = 0x5F"

lemma bit_ident_mask: "bit (ident_mask bs) n \<longleftrightarrow> n \<in> set bs \<and> n < 128"
  by (induction bs) (auto simp: ident_mask_def bit_or_iff bit_push_bit_iff bit_exp_iff)

lemma mask_test: "drop_bit n m AND 1 = 0 \<longleftrightarrow> \<not> bit m n" for m :: u128
  by (simp add: bit_iff_odd_drop_bit and_one_eq even_iff_mod_2_eq_zero)

lemma ident_nat:
  "ident_leading b \<longleftrightarrow> 0x61 \<le> unat b \<and> unat b < 0x7B"
  "ident_byte b \<longleftrightarrow> (0x61 \<le> unat b \<and> unat b < 0x7B) \<or> (0x30 \<le> unat b \<and> unat b < 0x3A) \<or>
     unat b = 0x2E \<or> unat b = 0x2D \<or> unat b = 0x5F"
proof -
  have "0x61 \<le> b \<longleftrightarrow> 0x61 \<le> unat b" "b \<le> 0x7A \<longleftrightarrow> unat b < 0x7B" "0x30 \<le> b \<longleftrightarrow> 0x30 \<le> unat b"
    "b \<le> 0x39 \<longleftrightarrow> unat b < 0x3A" "b = 0x2E \<longleftrightarrow> unat b = 0x2E" "b = 0x2D \<longleftrightarrow> unat b = 0x2D"
    "b = 0x5F \<longleftrightarrow> unat b = 0x5F"
    by (auto simp add: word_le_nat_alt byte_eq_unat)
  then show "ident_leading b \<longleftrightarrow> 0x61 \<le> unat b \<and> unat b < 0x7B"
    "ident_byte b \<longleftrightarrow> (0x61 \<le> unat b \<and> unat b < 0x7B) \<or> (0x30 \<le> unat b \<and> unat b < 0x3A) \<or>
     unat b = 0x2E \<or> unat b = 0x2D \<or> unat b = 0x5F"
    unfolding ident_leading_def ident_byte_def by (simp_all only:)
qed

lemma charset_bits:
  "bit IDENT_LEADING n \<longleftrightarrow> 0x61 \<le> n \<and> n < 0x7B"
  "bit IDENT_CHARSET n \<longleftrightarrow> (0x61 \<le> n \<and> n < 0x7B) \<or> (0x30 \<le> n \<and> n < 0x3A) \<or> n = 0x2E \<or> n = 0x2D \<or> n = 0x5F"
  unfolding IDENT_LEADING_def IDENT_CHARSET_def bit_ident_mask set_append set_upt list.set
  by auto

lemma charset_test:
  "127 < b \<or> drop_bit (unat b) IDENT_LEADING AND 1 = 0 \<longleftrightarrow> \<not> ident_leading b"
  "127 < b \<or> drop_bit (unat b) IDENT_CHARSET AND 1 = 0 \<longleftrightarrow> \<not> ident_byte b"
proof -
  have "127 < b \<longleftrightarrow> 127 < unat b" by (simp add: word_less_nat_alt)
  then show "127 < b \<or> drop_bit (unat b) IDENT_LEADING AND 1 = 0 \<longleftrightarrow> \<not> ident_leading b"
    "127 < b \<or> drop_bit (unat b) IDENT_CHARSET AND 1 = 0 \<longleftrightarrow> \<not> ident_byte b"
    unfolding mask_test charset_bits ident_nat by linarith+
qed

lemma ident_loop_seen: "ident_loop p True bs = Inr () \<longleftrightarrow> list_all (\<lambda>b. b = 0) bs"
  by (induction bs arbitrary: p) auto

lemma ident_loop_rest:
  "0 < p \<Longrightarrow> ident_loop p False bs = Inr () \<longleftrightarrow>
    (\<exists>name k. bs = name @ replicate k 0 \<and> list_all ident_byte name)"
proof (induction bs arbitrary: p)
  case (Cons b bs)
  have z: "\<not> ident_byte 0" by (simp add: ident_byte_def ident_leading_def)
  have zeros: "list_all (\<lambda>b. b = 0) bs \<longleftrightarrow> (\<exists>k. bs = replicate k 0)"
    by (auto simp: list_all_iff intro!: exI[of _ "length bs"] replicate_eqI)
  show ?case
  proof (cases "b = 0")
    case True
    have "(\<exists>name k. 0 # bs = name @ replicate k 0 \<and> list_all ident_byte name) \<longleftrightarrow> (\<exists>k. bs = replicate k 0)"
    proof
      assume "\<exists>name k. 0 # bs = name @ replicate k 0 \<and> list_all ident_byte name"
      then obtain name k where n: "0 # bs = name @ replicate k 0" "list_all ident_byte name" by blast
      have "name = []" using n z by (cases name) auto
      then show "\<exists>k. bs = replicate k 0" using n by (cases k) auto
    next
      assume "\<exists>k. bs = replicate k 0"
      then obtain k where "bs = replicate k 0" by blast
      then show "\<exists>name k. 0 # bs = name @ replicate k 0 \<and> list_all ident_byte name"
        by (intro exI[of _ "[]"] exI[of _ "Suc k"]) simp
    qed
    then show ?thesis using True zeros by (simp add: ident_loop_seen)
  next
    case False
    have step: "ident_loop p False (b # bs) = Inr () \<longleftrightarrow> ident_byte b \<and> ident_loop (Suc p) False bs = Inr ()"
      using False Cons.prems charset_test(2)[of b] by (auto simp: Let_def)
    have "(\<exists>name k. b # bs = name @ replicate k 0 \<and> list_all ident_byte name) \<longleftrightarrow>
        ident_byte b \<and> (\<exists>name k. bs = name @ replicate k 0 \<and> list_all ident_byte name)"
    proof
      assume "\<exists>name k. b # bs = name @ replicate k 0 \<and> list_all ident_byte name"
      then obtain name k where n: "b # bs = name @ replicate k 0" "list_all ident_byte name" by blast
      have "name \<noteq> []" using n False by (cases k) auto
      then show "ident_byte b \<and> (\<exists>name k. bs = name @ replicate k 0 \<and> list_all ident_byte name)"
        using n by (cases name) auto
    next
      assume "ident_byte b \<and> (\<exists>name k. bs = name @ replicate k 0 \<and> list_all ident_byte name)"
      then obtain name k where "ident_byte b" "bs = name @ replicate k 0" "list_all ident_byte name" by blast
      then show "\<exists>name k. b # bs = name @ replicate k 0 \<and> list_all ident_byte name"
        by (intro exI[of _ "b # name"] exI[of _ k]) simp
    qed
    then show ?thesis using step Cons.IH[of "Suc p"] by simp
  qed
qed (auto intro: exI[of _ "[]"])

definition is_ident :: "bytes \<Rightarrow> bool" where
  "is_ident name \<longleftrightarrow> name \<noteq> [] \<and> ident_leading (hd name) \<and> list_all ident_byte name"

lemma validate_ident32_iff:
  assumes "raw \<noteq> []"
  shows "validate_ident32 raw = Inr () \<longleftrightarrow> (\<exists>name k. raw = name @ replicate k 0 \<and> is_ident name)"
proof -
  obtain b bs where raw: "raw = b # bs" using assms by (cases raw) auto
  have z: "\<not> ident_leading 0" by (simp add: ident_leading_def)
  have "validate_ident32 raw = Inr () \<longleftrightarrow> ident_leading b \<and> ident_loop 1 False bs = Inr ()"
    using charset_test(1)[of b] z by (auto simp: validate_ident32_def raw Let_def)
  also have "\<dots> \<longleftrightarrow> ident_leading b \<and> (\<exists>name k. bs = name @ replicate k 0 \<and> list_all ident_byte name)"
    by (simp add: ident_loop_rest)
  also have "\<dots> \<longleftrightarrow> (\<exists>name k. raw = name @ replicate k 0 \<and> is_ident name)"
  proof
    assume "ident_leading b \<and> (\<exists>name k. bs = name @ replicate k 0 \<and> list_all ident_byte name)"
    then obtain name k where "ident_leading b" "bs = name @ replicate k 0" "list_all ident_byte name" by blast
    then show "\<exists>name k. raw = name @ replicate k 0 \<and> is_ident name"
      by (intro exI[of _ "b # name"] exI[of _ k]) (simp add: raw is_ident_def ident_byte_def)
  next
    assume "\<exists>name k. raw = name @ replicate k 0 \<and> is_ident name"
    then obtain name k where "b # bs = name @ replicate k 0" "is_ident name" by (auto simp: raw)
    then show "ident_leading b \<and> (\<exists>name k. bs = name @ replicate k 0 \<and> list_all ident_byte name)"
      by (cases name) (auto simp: is_ident_def)
  qed
  finally show ?thesis .
qed

lemma strip_name:
  assumes "is_ident name"
  shows "strip_trailing_zeros (name @ replicate k 0) = name"
proof -
  have "last name \<noteq> 0" using assms by (auto simp: is_ident_def list_all_iff ident_byte_def ident_leading_def dest!: last_in_set)
  then have "dropWhile (\<lambda>b. b = 0) (rev name) = rev name"
    using assms by (simp add: is_ident_def dropWhile_eq_self_iff hd_rev)
  moreover have "dropWhile (\<lambda>b. b = 0) (replicate k 0 @ rev name) = dropWhile (\<lambda>b. b = 0) (rev name)"
    by (induction k) auto
  ultimately show ?thesis by (simp add: strip_trailing_zeros_def)
qed


text \<open>Decoded ABI attributes: a name of 32 bytes and four words of 32 bytes.\<close>

definition abi_attribute :: "op_attribute \<Rightarrow> bool" where
  "abi_attribute a \<longleftrightarrow> length (at_name a) = 32 \<and> length (at_value a) = 4 \<and>
     list_all (\<lambda>w. length w = 32) (at_value a)"

lemma ident_not_builtin: "is_ident name \<Longrightarrow> name \<notin> builtin_keys"
proof -
  assume n: "is_ident name"
  have "hd k = 0x24" if "k \<in> builtin_keys" for k
    using that by (auto simp: builtin_keys_def ANNOT_ALL_def ANNOT_CREATOR_def ANNOT_CREATED_AT_BLOCK_def
        ANNOT_OWNER_def ANNOT_KEY_def ANNOT_EXPIRATION_def ANNOT_CONTENT_TYPE_def bstr_def)
  moreover have "hd name \<noteq> 0x24" using n by (auto simp: is_ident_def ident_leading_def)
  ultimately show ?thesis by blast
qed

lemma names_converted:
  "validate_attribute_names as = Inr () \<Longrightarrow> convert_attributes as = Inr bs \<Longrightarrow> list_all abi_attribute as \<Longrightarrow>
    list_all (\<lambda>b. is_ident (attr_key b)) bs"
proof (induction as arbitrary: bs)
  case (Cons a as)
  have v: "validate_ident32 (at_name a) = Inr ()" "validate_attribute_names as = Inr ()"
    using Cons.prems(1) by (auto split: sum.splits)
  obtain v cs where c: "convert_attributes as = Inr cs"
    "bs = \<lparr>attr_key = ident32_to_bytes (at_name a), attr_type = at_value_type a, attr_value = v\<rparr> # cs"
    using Cons.prems(2) by (auto split: sum.splits)
  have "at_name a \<noteq> []" using Cons.prems(3) by (auto simp: abi_attribute_def)
  then obtain name k where "at_name a = name @ replicate k 0" "is_ident name"
    using v(1) validate_ident32_iff by blast
  then show ?case using Cons.IH[OF v(2) c(1)] Cons.prems(3) c(2) by (simp add: ident32_to_bytes_def strip_name)
qed simp


subsection \<open>Values\<close>

definition value_ok :: "attribute \<Rightarrow> bool" where
  "value_ok b \<longleftrightarrow>
     (attr_type b = ATTR_UINT \<or> attr_type b = ATTR_ENTITY_KEY) \<and> length (attr_value b) = 32 \<or>
     attr_type b = ATTR_STRING \<and> length (attr_value b) \<le> 128 \<and> 0 \<notin> set (attr_value b) \<and>
       attr_value b \<in> utf8 ` {s. list_all is_scalar s}"

lemma null_loop_iff:
  "null_loop name p seen bs = Inr () \<longleftrightarrow>
     (if seen then \<exists>k. bs = replicate k 0 else \<exists>v k. bs = v @ replicate k 0 \<and> 0 \<notin> set v)"
proof (induction bs arbitrary: p seen)
  case (Cons b bs)
  show ?case
  proof (cases "b = 0")
    case True
    have z: "(\<exists>k. 0 # bs = replicate k 0) \<longleftrightarrow> (\<exists>k. bs = replicate k 0)"
      by (metis replicate_Suc list.inject replicate_empty list.distinct(1) not0_implies_Suc)
    have "(\<exists>v k. 0 # bs = v @ replicate k 0 \<and> 0 \<notin> set v) \<longleftrightarrow> (\<exists>k. 0 # bs = replicate k 0)"
    proof
      assume "\<exists>v k. 0 # bs = v @ replicate k 0 \<and> 0 \<notin> set v"
      then obtain v k where "0 # bs = v @ replicate k 0" "0 \<notin> set v" by blast
      then show "\<exists>k. 0 # bs = replicate k 0" by (cases v) auto
    qed (metis append_Nil empty_iff empty_set)
    then show ?thesis using True Cons.IH z by simp
  next
    case False
    have "(\<exists>v k. b # bs = v @ replicate k 0 \<and> 0 \<notin> set v) \<longleftrightarrow> (\<exists>v k. bs = v @ replicate k 0 \<and> 0 \<notin> set v)"
    proof
      assume "\<exists>v k. b # bs = v @ replicate k 0 \<and> 0 \<notin> set v"
      then obtain v k where n: "b # bs = v @ replicate k 0" "0 \<notin> set v" by blast
      have "v \<noteq> []" using n False by (cases k) auto
      then show "\<exists>v k. bs = v @ replicate k 0 \<and> 0 \<notin> set v" using n by (cases v) auto
    next
      assume "\<exists>v k. bs = v @ replicate k 0 \<and> 0 \<notin> set v"
      then obtain v k where "bs = v @ replicate k 0" "0 \<notin> set v" by blast
      then show "\<exists>v k. b # bs = v @ replicate k 0 \<and> 0 \<notin> set v"
        using False by (intro exI[of _ "b # v"] exI[of _ k]) simp
    qed
    moreover have "\<nexists>k. b # bs = replicate k 0" using False by (metis in_set_replicate list.set_intros(1))
    ultimately show ?thesis using False Cons.IH by simp
  qed
qed auto

lemma strip_no_zero: "0 \<notin> set v \<Longrightarrow> strip_trailing_zeros (v @ replicate k 0) = v"
proof -
  assume v: "0 \<notin> set v"
  have "dropWhile (\<lambda>b. b = 0) (rev v) = rev v"
    using v by (cases "rev v") (auto simp: dropWhile_eq_self_iff simp flip: set_rev[of v])
  moreover have "dropWhile (\<lambda>b. b = 0) (replicate k 0 @ rev v) = dropWhile (\<lambda>b. b = 0) (rev v)"
    by (induction k) auto
  ultimately show ?thesis by (simp add: strip_trailing_zeros_def)
qed

lemma upper_words_iff: "upper_words_loop a i ws = Inr () \<longleftrightarrow> list_all (\<lambda>w. w = zero_b256) ws"
  by (induction ws arbitrary: i) auto

lemma rmap_iff [simp]: "rmap r x = Inr y \<longleftrightarrow> r = Inr () \<and> x = y"
  by (cases r) (auto simp: rmap_def)

lemma convert_string:
  "at_value_type a = ATTR_STRING \<Longrightarrow> convert_value a = Inr v \<longleftrightarrow>
    v = pack_bytes32_4 (at_value a) \<and> (\<exists>k. concat (at_value a) = v @ replicate k 0 \<and> 0 \<notin> set v) \<and>
    v \<in> utf8 ` {s. list_all is_scalar s}"
proof -
  assume t: "at_value_type a = ATTR_STRING"
  have ne: "ATTR_STRING \<noteq> ATTR_UINT" by (simp add: ATTR_STRING_def ATTR_UINT_def)
  have n: "reject_embedded_null_in_string a = Inr () \<longleftrightarrow>
      (\<exists>k. concat (at_value a) = pack_bytes32_4 (at_value a) @ replicate k 0 \<and> 0 \<notin> set (pack_bytes32_4 (at_value a)))"
    unfolding reject_embedded_null_in_string_def null_loop_iff pack_bytes32_4_def
    by (auto simp: strip_no_zero)
  have "convert_value a = Inr v \<longleftrightarrow> reject_embedded_null_in_string a = Inr () \<and>
      reject_invalid_utf8_in_string a = Inr () \<and> v = pack_bytes32_4 (at_value a)"
    using t ne by (cases "reject_embedded_null_in_string a") (auto simp: convert_value_def rmap_def split: sum.split)
  moreover have "reject_invalid_utf8_in_string a = Inr () \<longleftrightarrow>
      pack_bytes32_4 (at_value a) \<in> utf8 ` {s. list_all is_scalar s}"
    unfolding utf8_error_iff[symmetric]
    by (simp add: reject_invalid_utf8_in_string_def Let_def split: option.split)
  ultimately show ?thesis unfolding n by blast
qed

lemma length_concat_words: "list_all (\<lambda>w. length w = 32) ws \<Longrightarrow> length (concat ws) = 32 * length ws"
  by (induction ws) auto

lemma convert_value_ok:
  assumes a: "abi_attribute a" and c: "convert_value a = Inr v"
  shows "value_ok \<lparr>attr_key = k, attr_type = at_value_type a, attr_value = v\<rparr>"
proof -
  have t: "ATTR_STRING \<noteq> ATTR_UINT" "ATTR_STRING \<noteq> ATTR_ENTITY_KEY"
    by (simp_all add: ATTR_STRING_def ATTR_UINT_def ATTR_ENTITY_KEY_def)
  show ?thesis
  proof (cases "at_value_type a = ATTR_STRING")
    case True
    then have s: "v \<in> utf8 ` {s. list_all is_scalar s}" "\<exists>k. concat (at_value a) = v @ replicate k 0 \<and> 0 \<notin> set v"
      using c convert_string by blast+
    have "length (concat (at_value a)) = 128"
      using a length_concat_words[of "at_value a"] by (simp add: abi_attribute_def)
    with s(2) have "length v \<le> 128 \<and> 0 \<notin> set v" by (metis le_add1 length_append)
    then show ?thesis using True s(1) by (simp add: value_ok_def)
  next
    case False
    have "length (at_value a ! 0) = 32" using a by (simp add: abi_attribute_def list_all_length)
    then show ?thesis
      using c False by (auto simp: convert_value_def value_ok_def split: if_splits)
  qed
qed

text \<open>
  C19. Attribute values: whatever the calldata, a converted unsigned integer or entity key is its
  32-byte word, and a converted string is well-formed UTF-8 of at most 128 bytes without a zero.
\<close>

theorem attribute_values_ok:
  assumes "convert_attributes as = Inr bs" "list_all abi_attribute as"
  shows "list_all value_ok bs"
  using assms
proof (induction as arbitrary: bs)
  case (Cons a as)
  obtain v cs where c: "convert_value a = Inr v" "convert_attributes as = Inr cs"
    "bs = \<lparr>attr_key = ident32_to_bytes (at_name a), attr_type = at_value_type a, attr_value = v\<rparr> # cs"
    using Cons.prems(1) by (auto split: sum.splits)
  then show ?case using Cons.IH[OF c(2)] Cons.prems(2) convert_value_ok[OF _ c(1)] by simp
qed simp

subsection \<open>Attributes and query literals\<close>

text \<open>How the client packs an integer or a string into the four words of an attribute.\<close>

definition pack_words :: "bytes \<Rightarrow> words4" where
  "pack_words bs = (let p = bs @ replicate (128 - length bs) 0 in
     [take 32 p, take 32 (drop 32 p), take 32 (drop 64 p), take 32 (drop 96 p)])"

definition uint_attribute :: "b256 \<Rightarrow> u64 \<Rightarrow> op_attribute" where
  "uint_attribute name n = \<lparr>at_name = name, at_value_type = ATTR_UINT,
     at_value = [u256_be (ucast n), zero_b256, zero_b256, zero_b256]\<rparr>"

definition string_attribute :: "b256 \<Rightarrow> ustring \<Rightarrow> op_attribute" where
  "string_attribute name s = \<lparr>at_name = name, at_value_type = ATTR_STRING, at_value = pack_words (utf8 s)\<rparr>"

lemma concat_pack_words:
  assumes "length bs \<le> 128"
  shows "concat (pack_words bs) = bs @ replicate (128 - length bs) 0"
proof -
  let ?p = "bs @ replicate (128 - length bs) (0 :: byte)"
  have l: "length ?p = 128" using assms by simp
  have "drop 96 ?p = take 32 (drop 96 ?p)" using l by simp
  then have "?p = take 32 ?p @ take 32 (drop 32 ?p) @ take 32 (drop 64 ?p) @ take 32 (drop 96 ?p)"
    using append_take_drop_id[of 32 ?p] append_take_drop_id[of 32 "drop 32 ?p"]
      append_take_drop_id[of 32 "drop 64 ?p"] by (simp only: drop_drop) simp
  then show ?thesis by (simp only: pack_words_def Let_def concat.simps append_Nil2)
qed

lemma u256_be_u64: "u256_be (ucast (n :: u64)) = replicate 24 0 @ u64_be n"
proof -
  have v: "be_val (replicate k 0 @ bs) = be_val bs" for k bs
    by (induction k) (simp_all add: be_val_def)
  have "unat (ucast n :: u256) = unat n"
    using u64_bound[of n] by (simp add: unsigned_ucast_eq take_bit_nat_eq_self)
  then show ?thesis
    using be_bytes_be_val[of "replicate 24 0 @ u64_be n" 32] by (simp add: u256_be_def v)
qed

text \<open>
  C21. Literals find attributes: the bytes a query literal is encoded to (a number, a string) are
  exactly the bytes the precompile stores for the attribute with that value, so equality queries
  hit the entities that carry it.
\<close>

theorem literal_matches_attribute:
  assumes "list_all is_scalar s" "0 \<notin> set s" "length (utf8 s) \<le> 128"
  shows "(convert_value (uint_attribute name n) = Inr v \<longleftrightarrow> encode_for_key env (User k) (LNumber n) = Inr v) \<and>
    (convert_value (string_attribute name s) = Inr w \<longleftrightarrow> encode_for_key env (User k) (LString s) = Inr w)"
proof -
  have "convert_value (uint_attribute name n) = Inr v \<longleftrightarrow> encode_for_key env (User k) (LNumber n) = Inr v"
    by (simp add: convert_value_def uint_attribute_def reject_non_zero_upper_words_def rmap_def
        ATTR_UINT_def u256_be_u64)
  moreover have "0 \<notin> set (utf8_char c)" if "c \<noteq> 0" "is_scalar c" for c
  proof -
    have "b \<noteq> 0 \<and> b < 256" if "b \<in> set (char_nat c)" for b
      using that \<open>c \<noteq> 0\<close> char_nat_bytes[of c] \<open>is_scalar c\<close> by (fastforce simp: is_scalar_def split: if_splits)
    from this this[of 0] show ?thesis by (auto simp: utf8_char_nat byte_eq_unat simp del: char_nat.simps)
  qed
  ultimately have u: "convert_value (uint_attribute name n) = Inr v \<longleftrightarrow> encode_for_key env (User k) (LNumber n) = Inr v"
    and z: "0 \<notin> set (utf8 s)" using assms(1,2) by (simp, induction s, auto)
  have p: "pack_bytes32_4 (pack_words (utf8 s)) = utf8 s"
    using z by (simp add: pack_bytes32_4_def concat_pack_words[OF assms(3)] strip_no_zero)
  then have "convert_value (string_attribute name s) = Inr w \<longleftrightarrow> w = utf8 s"
    using convert_string[of "string_attribute name s" w] z assms(1)
    by (auto simp: string_attribute_def concat_pack_words[OF assms(3)])
  with u show ?thesis by auto
qed


subsection \<open>A concrete attribute\<close>

definition demo_name :: b256 where
  "demo_name = bstr ''tag'' @ replicate 29 0"

definition demo_attribute :: op_attribute where
  "demo_attribute = string_attribute demo_name (ascii ''music'')"

lemma demo_converts:
  "validate_attribute_names [demo_attribute] = Inr ()" "list_all abi_attribute [demo_attribute]"
  "convert_attributes [demo_attribute] =
    Inr [\<lparr>attr_key = bstr ''tag'', attr_type = ATTR_STRING, attr_value = utf8 (ascii ''music'')\<rparr>]"
proof -
  have i: "is_ident (bstr ''tag'')"
    by (simp add: is_ident_def bstr_def ident_byte_def ident_leading_def)
  then have "\<exists>name k. demo_name = name @ replicate k 0 \<and> is_ident name" unfolding demo_name_def by blast
  moreover have "demo_name \<noteq> []" by (simp add: demo_name_def)
  ultimately have "validate_ident32 demo_name = Inr ()" using validate_ident32_iff by blast
  then show "validate_attribute_names [demo_attribute] = Inr ()"
    by (simp add: demo_attribute_def string_attribute_def)
  show "list_all abi_attribute [demo_attribute]"
    by (simp add: demo_attribute_def string_attribute_def abi_attribute_def demo_name_def bstr_def
        pack_words_def ascii_def utf8_char_def)
  have s: "list_all is_scalar (ascii ''music'')" by (simp add: ascii_def is_scalar_def)
  have u: "utf8 (ascii ''music'') = [0x6D, 0x75, 0x73, 0x69, 0x63]" by (simp add: ascii_def utf8_char_def)
  have z: "0 \<notin> set (utf8 (ascii ''music''))" "length (utf8 (ascii ''music'')) \<le> 128" by (simp_all add: u)
  have "convert_value demo_attribute = Inr (utf8 (ascii ''music''))"
    using convert_string[of demo_attribute "utf8 (ascii ''music'')"] s z
    by (auto simp: demo_attribute_def string_attribute_def concat_pack_words[OF z(2)] pack_bytes32_4_def strip_no_zero)
  moreover have "ident32_to_bytes demo_name = bstr ''tag''"
    by (simp add: ident32_to_bytes_def demo_name_def strip_name[OF i])
  ultimately show "convert_attributes [demo_attribute] =
    Inr [\<lparr>attr_key = bstr ''tag'', attr_type = ATTR_STRING, attr_value = utf8 (ascii ''music'')\<rparr>]"
    by (simp add: demo_attribute_def string_attribute_def)
qed


lemma attribute_values_ok_witness:
  "value_ok \<lparr>attr_key = bstr ''tag'', attr_type = ATTR_STRING, attr_value = utf8 (ascii ''music'')\<rparr>"
  using attribute_values_ok[OF demo_converts(3,2)] by simp

lemma literal_matches_attribute_witness:
  "convert_value (uint_attribute demo_name 7) = Inr (replicate 24 0 @ u64_be 7)"
proof -
  have "list_all is_scalar (ascii ''music'')" "0 \<notin> set (ascii ''music'')" "length (utf8 (ascii ''music'')) \<le> 128"
    by (simp_all add: ascii_def is_scalar_def utf8_char_def)
  from literal_matches_attribute[OF this, of demo_name 7 "replicate 24 0 @ u64_be 7" plain k demo_name]
  show ?thesis by simp
qed

end
