(* ===== verification/LedgerDemo.thy ===== *)
theory LedgerDemo
  imports LedgerProps TableHost PayloadAuth Attributes
begin

text \<open>
  A chain with two accounts, on which the theorems about calls are applied: the journal is the
  plain one, the hash is a table, and every account may create one entity.
\<close>

subsection \<open>The chain\<close>

definition key_of :: "byte \<Rightarrow> b256" where
  "key_of c = replicate 4 0 @ replicate 20 c @ 0x44 # replicate 7 0"

definition acct :: "byte \<Rightarrow> address" where
  "acct c = replicate 20 c"

definition ref_nonce7 :: b256 where
  "ref_nonce7 = replicate 32 7"

definition chain_pairs :: "(bytes \<times> bytes) list" where
  "chain_pairs = [(ANNOT_ALL, []), (ANNOT_CREATOR, acct 0xAA), (ANNOT_CREATOR, acct 0xBB),
     (ANNOT_CREATED_AT_BLOCK, u64_be 100), (ANNOT_OWNER, acct 0xAA), (ANNOT_OWNER, acct 0xBB),
     (ANNOT_KEY, key_of 0xAA), (ANNOT_KEY, key_of 0xBB), (ANNOT_EXPIRATION, u64_be 150),
     (ANNOT_CONTENT_TYPE, [])]"

definition chain_slots :: "bytes list" where
  "chain_slots = [nonce_preimage (acct 0xAA), nonce_preimage (acct 0xBB),
     reference_preimage (acct 0xAA) ref_nonce7, reference_preimage (acct 0xBB) ref_nonce7]"

abbreviation chain_keys :: "b256 list" where
  "chain_keys \<equiv> [key_of 0xAA, key_of 0xBB]"

definition chain_table :: "bytes list" where
  "chain_table = preimage_list chain_pairs chain_keys 2 chain_slots"

definition chain_host :: hostlib where
  "chain_host = table_host chain_table"

definition chain_universe :: universe where
  "chain_universe = list_universe chain_pairs demo_tier chain_keys 2 chain_slots"

definition chain_domain :: domain where
  "chain_domain = {(acct 0xAA, 0), (acct 0xBB, 0)}"

lemma chain_values: "list_all (\<lambda>(k, v). 0 \<notin> set k \<and> (demo_tier k \<longrightarrow> ff_free v \<and> length v \<le> 255)) chain_pairs"
  by code_simp

lemma chain_apart: "list_all (\<lambda>x. x \<notin> set (slot_list chain_keys 2)) chain_slots"
proof -
  have "hd x \<in> {110, 112}" if "x \<in> set chain_slots" for x
    using that by (auto simp: chain_slots_def nonce_preimage_def reference_preimage_def bstr_def)
  moreover have "hd y \<notin> {110, 112}" if "y \<in> set (slot_list chain_keys 2)" for y
    using that by (auto simp: slot_list_def bstr_def)
  ultimately show ?thesis unfolding list_all_iff by blast
qed

lemma chain_keys_ok:
  "distinct (map entity_address chain_keys)" "list_all (\<lambda>key. length key = 32 \<and> key ! 19 \<noteq> 0) chain_keys"
  by (simp_all add: key_of_def entity_address_def nth_append nth_Cons')

lemma chain_counts: "length chain_pairs = 10" "length chain_slots = 4" "length chain_keys = 2"
  by (simp_all add: chain_pairs_def chain_slots_def)

lemma chain_db_world: "db_world chain_host chain_universe"
  unfolding chain_host_def chain_universe_def chain_table_def
proof (rule list_world_ok)
  show "list_world chain_pairs demo_tier chain_keys 2 chain_slots"
    using chain_values chain_apart chain_keys_ok unfolding list_world_def
    by (simp only: chain_counts) simp
qed

lemma length_bstr: "length (bstr s) = length s"
  by (simp add: bstr_def)

lemma chain_lengths:
  "list_all (\<lambda>(k, v). length (pair_preimage k v) \<noteq> 76 \<and> length (index_preimage k) \<noteq> 76) chain_pairs"
  "list_all (\<lambda>x. length x \<noteq> 76) (slot_list chain_keys 2)" "list_all (\<lambda>x. length x \<noteq> 76) chain_slots"
  by (simp_all add: chain_pairs_def pair_preimage_def index_preimage_def length_bstr acct_def key_of_def
      ANNOT_ALL_def ANNOT_CREATOR_def ANNOT_CREATED_AT_BLOCK_def ANNOT_OWNER_def ANNOT_KEY_def
      ANNOT_EXPIRATION_def ANNOT_CONTENT_TYPE_def slot_list_def list_all_iff entity_address_def
      chain_slots_def nonce_preimage_def reference_preimage_def ref_nonce7_def)

lemma chain_table_lengths: "x \<in> set chain_table \<Longrightarrow> length x \<noteq> 76"
  using chain_lengths by (auto simp: chain_table_def preimage_list_def list_all_iff)

lemma derived_key: "derived chain_host 1337 (acct c, 0) = key_of c"
proof -
  let ?b = "u256_be (ucast (1337 :: u64)) @ ARKIV_ADDRESS @ acct c @ u32_be 0"
  have "length ?b = 76" by (simp add: ARKIV_ADDRESS_def acct_def)
  then have "?b \<notin> set chain_table" using chain_table_lengths by blast
  then have "List.find (\<lambda>i. chain_table ! i = ?b) [0..<length chain_table] = None"
    by (auto simp: find_None_iff in_set_conv_nth)
  then have k: "derived chain_host 1337 (acct c, 0) = take 32 (rev ?b @ replicate 32 255)"
    by (simp add: derived_def derive_entity_key_def chain_host_def table_host_def table_hash_def)
  have "be_bytes n 0 = replicate n 0" for n
    by (induction n) (auto simp: replicate_append_same)
  then have "u32_be 0 = replicate 4 0" by (simp add: u32_be_def)
  then have "rev ?b = (replicate 4 0 @ replicate 20 c @ 0x44 # replicate 7 0) @
      replicate 11 0 @ 0x44 # rev (u256_be (ucast (1337 :: u64)))"
    by (simp add: acct_def ARKIV_ADDRESS_def flip: replicate_add)
  then show ?thesis unfolding k by (simp add: key_of_def)
qed

lemma two_accounts: "acct 0xAA \<noteq> acct 0xBB" "key_of 0xAA \<noteq> key_of 0xBB" "length (acct c) = 20"
  by (simp_all add: acct_def key_of_def)

lemma chain_world: "arkiv_world chain_host chain_universe 1337 chain_domain"
  using chain_db_world two_accounts unfolding arkiv_world_def
  by (auto simp: inj_on_def chain_domain_def derived_key)

subsection \<open>Calls\<close>

definition chain_schedule :: schedule where
  "chain_schedule = [\<lparr>activation_block = 0, entry_params = default_params\<lparr>payload_provider_payment :=
     \<lparr>pp_enabled = True, provider_share_bps = 5000, minimum_payment = 1\<rparr>\<rparr>\<rparr>]"

definition chain_ctx :: "u256 \<Rightarrow> observation call_ctx" where
  "chain_ctx number = \<lparr>host = chain_host, plib = demo_lib, sched = chain_schedule, evm = plain_evm number 2 1337\<rparr>"

definition create_op :: operation where
  "create_op = \<lparr>operation_type = 1, op_entity_key = zero_b256, op_payload = [7],
     op_content_type = pack_words PAYLOAD_REFERENCE_CONTENT_TYPE, op_attributes = [], op_btl = 50,
     op_new_owner = zero_address\<rparr>"

definition expire_op :: "byte \<Rightarrow> operation" where
  "expire_op c = \<lparr>operation_type = 6, op_entity_key = key_of c, op_payload = [],
     op_content_type = pack_words [], op_attributes = [], op_btl = 0, op_new_owner = zero_address\<rparr>"

definition demo_abi :: abi where
  "demo_abi = \<lparr>nonces_selector = [1, 2, 3, 4], execute_selector = [5, 6, 7, 8],
     decode_nonces = \<lambda>b. (if length b = 20 then Some b else None), encode_nonces = u32_be,
     decode_execute = \<lambda>b. (case b of [_] \<Rightarrow> Some [create_op] | [_, c] \<Rightarrow> Some [expire_op c] | _ \<Rightarrow> None)\<rparr>"

definition demo_call :: "byte \<Rightarrow> bytes \<Rightarrow> call_input" where
  "demo_call c body = \<lparr>target_address = ARKIV_ADDRESS, bytecode_address = ARKIV_ADDRESS, call_value = 0,
     call_data = [5, 6, 7, 8] @ body, is_static = False, call_gas = 1000000, call_caller = acct c\<rparr>"

lemma chain_sel [simp]:
  "host (chain_ctx b) = chain_host" "plib (chain_ctx b) = demo_lib" "sched (chain_ctx b) = chain_schedule"
  "evm (chain_ctx b) = plain_evm b 2 1337" "block_number (plain_evm b f i) = b" "basefee (plain_evm b f i) = f"
  "evm_chain_id (plain_evm b f i) = i" "call_caller (demo_call c body) = acct c" "call_gas (demo_call c body) = 1000000"
  by (simp_all add: chain_ctx_def plain_evm_def demo_call_def)

lemma demo_execute: "execute_call demo_abi (demo_call c [0]) [create_op]" "execute_call demo_abi (demo_call c [0, d]) [expire_op d]"
  by (simp_all add: execute_call_def demo_abi_def demo_call_def)

lemma reference_content_type: "mime128_to_bytes (pack_words PAYLOAD_REFERENCE_CONTENT_TYPE) = PAYLOAD_REFERENCE_CONTENT_TYPE"
proof -
  have "length PAYLOAD_REFERENCE_CONTENT_TYPE \<le> 128" "0 \<notin> set PAYLOAD_REFERENCE_CONTENT_TYPE"
    by (simp_all add: PAYLOAD_REFERENCE_CONTENT_TYPE_def bstr_def)
  then show ?thesis by (simp add: mime128_to_bytes_def pack_bytes32_4_def concat_pack_words strip_no_zero)
qed

lemma demo_auth: "validate_payload_reference demo_lib [7] 1337 =
    Inr \<lparr>auth_nonce = ref_nonce7, auth_content_type = [], auth_payment = 100000, auth_provider = demo_signer\<rparr>"
  using demo_accepted[OF _ text_plain_ok(1) demo_payloads(1)[of 7]]
  by (simp add: ref_nonce7_def content_type_bytes_def)

lemma create_ok: "c \<in> {0xAA, 0xBB} \<Longrightarrow> op_ok chain_universe (OpCreate (acct c) (key_of c) 150 100 [7] [] [])"
  unfolding chain_universe_def op_ok_list
  by (auto simp: chain_pairs_def entity_annotations_def built_in_annotations_def new_entity_def user_annotations_def
      encode_address_def encode_u64_be_def encode_b256_def demo_tier_def builtin_distinct two_accounts key_of_def
      user_keys_ok_def ANNOT_CREATED_AT_BLOCK_def ANNOT_EXPIRATION_def ANNOT_CONTENT_TYPE_def ANNOT_ALL_def
      ANNOT_CREATOR_def ANNOT_OWNER_def ANNOT_KEY_def bstr_def)

lemma sat_100: "sat_add 100 (ucast (50 :: u32)) = (150 :: u64)" "sat_add 100 50 = (150 :: u64)"
  by (simp_all add: sat_add_def)

lemma create_admissible:
  assumes "c \<in> {0xAA, 0xBB}" "l_nonces l (acct c) = 0" "l_count l < 2"
  shows "admissible (chain_ctx 100) chain_universe 1337 chain_domain (acct c) 100 create_op l"
  using assms create_ok[of c] two_accounts(3) derived_key
  by (auto simp: admissible_def create_op_def demo_auth sat_100 chain_universe_def list_universe_def chain_slots_def
      chain_domain_def)

definition demo_ledger :: ledger where
  "demo_ledger = \<lparr>l_entities = Map.empty, l_count = 0, l_nonces = \<lambda>_. 0, l_used = {},
     l_balances = \<lambda>_. 1000000000, l_log = []\<rparr>"

definition demo_genesis :: observation where
  "demo_genesis = \<lparr>o_mem = empty_mem, o_nonce = \<lambda>_. 0, o_bal = \<lambda>_. 1000000000, o_logs = []\<rparr>"

lemma genesis_rep: "ledger_rep chain_host chain_universe 1337 chain_domain (\<lambda>s. s) (\<lambda>_. True) demo_genesis demo_ledger"
proof -
  have "storage_to_u32 zero_b256 = 0"
  proof -
    have "be_bytes n 0 = replicate n 0" for n by (induction n) (auto simp: replicate_append_same)
    then have "u32_to_storage 0 = zero_b256"
      by (simp add: u32_to_storage_def u32_be_def zero_b256_def flip: replicate_add)
    then show ?thesis by (metis storage_roundtrips(2))
  qed
  then show ?thesis
    using db_rep_empty by (simp add: ledger_rep_def quiet_def persistent_def mem_rep_def keys_derived_def
        demo_ledger_def demo_genesis_def, simp add: empty_mem_def)
qed

lemma chain_params: "payload_provider_payment (params_for_block chain_schedule b) =
    \<lparr>pp_enabled = True, provider_share_bps = 5000, minimum_payment = 1\<rparr>"
  by (simp add: chain_schedule_def params_for_block_def)

lemma demo_pays:
  assumes c: "c \<in> {0xAA, 0xBB}" and bal: "bal (acct c) = 1000000000" "unat (bal demo_signer) < 10000000000"
  shows "\<exists>bal'. pay_provider \<lparr>pp_enabled = True, provider_share_bps = 5000, minimum_payment = 1\<rparr> 2 (acct c)
      \<lparr>auth_nonce = n, auth_content_type = ct, auth_payment = 100000, auth_provider = demo_signer\<rparr> bal = Inr bal' \<and>
    (\<forall>a. a \<noteq> acct c \<and> a \<noteq> demo_signer \<longrightarrow> bal' a = bal a) \<and>
    unat (bal' demo_signer) = unat (bal demo_signer) + 100000"
proof -
  have "hd (acct c) = c" "hd demo_signer = 0x7e"
    by (simp_all add: acct_def demo_signer_def TRUSTED_DEV_PAYLOAD_PROVIDER_SIGNERS_def)
  then have d: "acct c \<noteq> demo_signer" using c by auto
  have can: "can_move (acct c) demo_signer 100000 bal"
    using bal d by (simp add: can_move_def)
  show ?thesis
    using can bal d moved_balances(2,4)[OF can] by (auto simp: pay_provider_def Let_def)
qed

lemma create_runs:
  assumes c: "c \<in> {0xAA, 0xBB}" and l: "l_nonces l (acct c) = 0" "(acct c, ref_nonce7) \<notin> l_used l"
    "l_balances l (acct c) = 1000000000" "unat (l_balances l demo_signer) < 10000000000"
  shows "\<exists>l'. led_batch (chain_ctx 100) (acct c) 1337 100 [create_op] l = Inr ((), l') \<and>
    l_entities l' = (l_entities l)(key_of c \<mapsto> (of_nat (l_count l), new_entity (acct c) (key_of c) 150 100 [7] [] [])) \<and>
    l_count l' = Suc (l_count l) \<and> l_nonces l' = (l_nonces l)(acct c := 1) \<and>
    l_used l' = insert (acct c, ref_nonce7) (l_used l) \<and>
    (\<forall>a. a \<noteq> acct c \<and> a \<noteq> demo_signer \<longrightarrow> l_balances l' a = l_balances l a) \<and>
    unat (l_balances l' demo_signer) = unat (l_balances l demo_signer) + 100000"
proof -
  obtain bal where bal: "pay_provider \<lparr>pp_enabled = True, provider_share_bps = 5000, minimum_payment = 1\<rparr> 2 (acct c)
      \<lparr>auth_nonce = ref_nonce7, auth_content_type = [], auth_payment = 100000, auth_provider = demo_signer\<rparr>
      (l_balances l) = Inr bal" "\<forall>a. a \<noteq> acct c \<and> a \<noteq> demo_signer \<longrightarrow> bal a = l_balances l a"
    "unat (bal demo_signer) = unat (l_balances l demo_signer) + 100000"
    using demo_pays[OF c l(3,4)] by blast
  have key: "derive_entity_key chain_host 1337 (acct c) 0 = key_of c" using derived_key[of c] by (simp add: derived_def)
  show ?thesis
    using bal l key by (simp add: led_batch_def led_op_def led_create_def create_op_def reference_content_type
        led_claim_def led_pay_def led_nonce_def checked_succ led_db_def led_emit_def chain_params demo_auth sat_100
        sbind_def sret_def slift_def slift_revert_def)
qed

abbreviation chain_rep :: "observation \<Rightarrow> ledger \<Rightarrow> bool" where
  "chain_rep \<equiv> ledger_rep chain_host chain_universe 1337 chain_domain (\<lambda>s. s) (\<lambda>_. True)"

lemma answers_entity:
  assumes "answers H A w s M" "M key = Some (i, e)"
  shows "wp (read_entity H A (entity_address key)) s (\<lambda>e' _. e' = e)" "wp (resolve_id H A i) s (\<lambda>r _. r = Some e)"
  using assms unfolding answers_def by blast+

lemma demo_no_reference: "validate_payload_reference demo_lib [] 1337 = Inl PayloadReferenceMalformed"
  by (simp add: validate_payload_reference_def demo_lib_def)

lemma batch_single: "admissible C w chain D caller b op l \<Longrightarrow> batch_admissible C w chain D caller b [op] l"
  by (auto simp: batch_admissible_def led_batch_def sret_def Cons_eq_append_conv)

lemma chain_setting:
  assumes "chain_rep s l" "execute_call demo_abi (demo_call c body) [op]"
    "admissible (chain_ctx n) chain_universe 1337 chain_domain (acct c) (ucast (min n 0xFFFFFFFFFFFFFFFF)) op l"
  shows "call_setting demo_abi (chain_ctx n) chain_universe chain_domain (\<lambda>s. s) (\<lambda>_. True) (demo_call c body) [op] s l"
  using assms chain_world plain_evm_laws by (simp add: call_setting_def batch_single)

lemma create_setting:
  assumes "chain_rep s l" "c \<in> {0xAA, 0xBB}" "l_nonces l (acct c) = 0" "l_count l < 2"
  shows "call_setting demo_abi (chain_ctx 100) chain_universe chain_domain (\<lambda>s. s) (\<lambda>_. True) (demo_call c [0]) [create_op] s l"
  by (rule chain_setting[OF assms(1) demo_execute(1)]) (use create_admissible[OF assms(2-4)] in simp)

lemma create_cost: "addressable create_op" "gas_formula create_op = 130016" "total_gas [create_op] \<le> 1000000"
proof -
  show a: "addressable create_op" by (simp add: addressable_def create_op_def)
  show g: "gas_formula create_op = 130016"
    using reference_content_type by (simp add: gas_formula_def gas_base_def create_op_def)
  have "unat (total_gas [create_op]) = 135016" using total_gas_formula[of "[create_op]"] a g by simp
  then show "total_gas [create_op] \<le> 1000000" by (simp add: word_le_nat_alt)
qed

text \<open>The state after the first account has created its entity.\<close>

lemma first_call:
  "\<exists>s l. arkiv_precompile demo_abi (chain_ctx 100) (demo_call 0xAA [0]) demo_genesis = (Success (total_gas [create_op]) [], s) \<and>
    chain_rep s l \<and> l_count l = 1 \<and> l_nonces l = (\<lambda>_. 0)(acct 0xAA := 1) \<and> l_used l = {(acct 0xAA, ref_nonce7)} \<and>
    l_entities l = [key_of 0xAA \<mapsto> (0, new_entity (acct 0xAA) (key_of 0xAA) 150 100 [7] [] [])] \<and>
    l_balances l (acct 0xBB) = 1000000000 \<and> unat (l_balances l demo_signer) = 1000100000"
proof -
  have S: "call_setting demo_abi (chain_ctx 100) chain_universe chain_domain (\<lambda>s. s) (\<lambda>_. True)
      (demo_call 0xAA [0]) [create_op] demo_genesis demo_ledger"
    by (rule create_setting[OF genesis_rep]) (simp_all add: demo_ledger_def)
  have d: "acct 0xBB \<noteq> demo_signer"
  proof -
    have "hd (acct 0xBB) = 0xBB" "hd demo_signer = 0x7e"
      by (simp_all add: acct_def demo_signer_def TRUSTED_DEV_PAYLOAD_PROVIDER_SIGNERS_def)
    then show ?thesis by auto
  qed
  obtain l where l: "led_batch (chain_ctx 100) (acct 0xAA) 1337 100 [create_op] demo_ledger = Inr ((), l)"
    "l_entities l = [key_of 0xAA \<mapsto> (0, new_entity (acct 0xAA) (key_of 0xAA) 150 100 [7] [] [])]"
    "l_count l = 1" "l_nonces l = (\<lambda>_. 0)(acct 0xAA := 1)" "l_used l = {(acct 0xAA, ref_nonce7)}"
    "l_balances l (acct 0xBB) = 1000000000" "unat (l_balances l demo_signer) = 1000100000"
    using create_runs[of "0xAA" demo_ledger] d two_accounts by (auto simp: demo_ledger_def)
  then show ?thesis using call_follows[OF S] create_cost(3) by (auto simp: not_less[symmetric])
qed

subsection \<open>The theorems applied\<close>



lemma second_setting:
  obtains s l where "call_setting demo_abi (chain_ctx 100) chain_universe chain_domain (\<lambda>s. s) (\<lambda>_. True)
      (demo_call 0xBB [0]) [create_op] s l" "chain_rep s l" "l_used l = {(acct 0xAA, ref_nonce7)}"
    "l_entities l = [key_of 0xAA \<mapsto> (0, new_entity (acct 0xAA) (key_of 0xAA) 150 100 [7] [] [])]"
    "\<exists>s'. arkiv_precompile demo_abi (chain_ctx 100) (demo_call 0xBB [0]) s = (Success (total_gas [create_op]) [], s')"
proof -
  obtain s l where l: "chain_rep s l" "l_count l = 1" "l_nonces l = (\<lambda>_. 0)(acct 0xAA := 1)"
    "l_used l = {(acct 0xAA, ref_nonce7)}"
    "l_entities l = [key_of 0xAA \<mapsto> (0, new_entity (acct 0xAA) (key_of 0xAA) 150 100 [7] [] [])]"
    "l_balances l (acct 0xBB) = 1000000000" "unat (l_balances l demo_signer) = 1000100000"
    using first_call by blast
  have S: "call_setting demo_abi (chain_ctx 100) chain_universe chain_domain (\<lambda>s. s) (\<lambda>_. True)
      (demo_call 0xBB [0]) [create_op] s l"
    by (rule create_setting[OF l(1)]) (use l two_accounts in auto)
  obtain l' where "led_batch (chain_ctx 100) (acct 0xBB) 1337 100 [create_op] l = Inr ((), l')"
    using create_runs[of "0xBB" l] l two_accounts by auto
  then have "\<exists>s'. arkiv_precompile demo_abi (chain_ctx 100) (demo_call 0xBB [0]) s = (Success (total_gas [create_op]) [], s')"
    using call_follows[OF S] create_cost(3) by (auto simp: not_less[symmetric])
  with that[OF S l(1,4,5)] show thesis .
qed

lemma other_owners_safe_witness:
  "\<exists>s s' g. arkiv_precompile demo_abi (chain_ctx 100) (demo_call 0xBB [0]) s = (Success g [], s') \<and>
    wp (resolve_id chain_host (adapter (chain_ctx 100)) 0) s' (\<lambda>r _. \<exists>e. r = Some e \<and> ent_owner e = acct 0xAA)"
proof -
  obtain s l s' where S: "call_setting demo_abi (chain_ctx 100) chain_universe chain_domain (\<lambda>s. s) (\<lambda>_. True)
      (demo_call 0xBB [0]) [create_op] s l"
    and e: "l_entities l = [key_of 0xAA \<mapsto> (0, new_entity (acct 0xAA) (key_of 0xAA) 150 100 [7] [] [])]"
    and r: "arkiv_precompile demo_abi (chain_ctx 100) (demo_call 0xBB [0]) s = (Success (total_gas [create_op]) [], s')"
    by (rule second_setting) blast
  have "wp (resolve_id chain_host (adapter (chain_ctx 100)) 0) s'
      (\<lambda>r _. r = Some (new_entity (acct 0xAA) (key_of 0xAA) 150 100 [7] [] []))"
    using other_owners_safe[OF S r, of "key_of 0xAA" 0 "new_entity (acct 0xAA) (key_of 0xAA) 150 100 [7] [] []"]
      e two_accounts by (simp add: new_entity_def)
  then show ?thesis using r by (fastforce simp: new_entity_def elim: wp_mono)
qed

lemma references_used_once_witness:
  "\<exists>s s'. arkiv_precompile demo_abi (chain_ctx 100) (demo_call 0xBB [0]) s = (Success (total_gas [create_op]) [], s') \<and>
    wp (payload_reference_nonce_used chain_host (adapter (chain_ctx 100)) (acct 0xBB) ref_nonce7) s (\<lambda>u _. \<not> u) \<and>
    wp (payload_reference_nonce_used chain_host (adapter (chain_ctx 100)) (acct 0xBB) ref_nonce7) s' (\<lambda>u _. u)"
proof -
  obtain s l s' where S: "call_setting demo_abi (chain_ctx 100) chain_universe chain_domain (\<lambda>s. s) (\<lambda>_. True)
      (demo_call 0xBB [0]) [create_op] s l"
    and r: "arkiv_precompile demo_abi (chain_ctx 100) (demo_call 0xBB [0]) s = (Success (total_gas [create_op]) [], s')"
    by (rule second_setting) blast
  have "references_of (chain_ctx 100) 1337 create_op = [ref_nonce7]"
    using demo_auth by (simp add: references_of_def create_op_def)
  then show ?thesis using references_used_once[OF S r] r by (auto simp: Let_def)
qed

lemma nonces_count_creates_witness:
  "\<exists>s s'. arkiv_precompile demo_abi (chain_ctx 100) (demo_call 0xBB [0]) s = (Success (total_gas [create_op]) [], s') \<and>
    (\<exists>n n'. wp (read_nonce chain_host (adapter (chain_ctx 100)) (acct 0xBB)) s (\<lambda>k _. k = n) \<and>
      wp (read_nonce chain_host (adapter (chain_ctx 100)) (acct 0xBB)) s' (\<lambda>k _. k = n') \<and> unat n' = unat n + 1)"
proof -
  obtain s l s' where S: "call_setting demo_abi (chain_ctx 100) chain_universe chain_domain (\<lambda>s. s) (\<lambda>_. True)
      (demo_call 0xBB [0]) [create_op] s l"
    and r: "arkiv_precompile demo_abi (chain_ctx 100) (demo_call 0xBB [0]) s = (Success (total_gas [create_op]) [], s')"
    by (rule second_setting) blast
  have "nonce_preimage (acct 0xBB) \<in> other_slots chain_universe"
    by (simp add: chain_universe_def list_universe_def chain_slots_def)
  from nonces_count_creates[OF S r this] r show ?thesis by (fastforce simp: creates_def create_op_def)
qed


lemma removal_succeeds_witness:
  "\<exists>s s'. arkiv_precompile demo_abi (chain_ctx 200) (demo_call 0xBB [0, 0xAA]) s = (Success 67000 [], s') \<and>
    wp (resolve_id chain_host (adapter (chain_ctx 200)) 0) s (\<lambda>r _. r \<noteq> None) \<and>
    wp (resolve_id chain_host (adapter (chain_ctx 200)) 0) s' (\<lambda>r _. r = None)"
proof -
  obtain s l where l: "chain_rep s l"
    "l_entities l = [key_of 0xAA \<mapsto> (0, new_entity (acct 0xAA) (key_of 0xAA) 150 100 [7] [] [])]"
    using first_call by blast
  have S: "call_setting demo_abi (chain_ctx 200) chain_universe chain_domain (\<lambda>s. s) (\<lambda>_. True)
      (demo_call 0xBB [0, 0xAA]) [expire_op 0xAA] s l"
    by (rule chain_setting[OF l(1) demo_execute(2)])
      (simp add: admissible_def expire_op_def chain_universe_def list_universe_def two_accounts demo_no_reference)
  have e: "l_entities l (op_entity_key (expire_op 0xAA)) = Some (0, new_entity (acct 0xAA) (key_of 0xAA) 150 100 [7] [] [])"
    using l(2) by (simp add: expire_op_def)
  have a: "answers chain_host (adapter (chain_ctx 200)) chain_universe s (l_entities l)"
    using answers_ledger[of "chain_ctx 200" chain_universe 1337 chain_domain "\<lambda>s. s" "\<lambda>_. True" s l]
      chain_world plain_evm_laws l(1) by simp
  have "wp (resolve_id chain_host (adapter (chain_ctx 200)) 0) s (\<lambda>r _. r \<noteq> None)"
    using answers_entity(2)[OF a e] by (auto elim: wp_mono)
  moreover have p: "(ANNOT_ALL, []) \<in> pairs chain_universe"
    by (simp add: chain_universe_def list_universe_def chain_pairs_def)
  moreover have "\<exists>s'. arkiv_precompile demo_abi (chain_ctx 200) (demo_call 0xBB [0, 0xAA]) s = (Success 67000 [], s') \<and>
      wp (resolve_id chain_host (adapter (chain_ctx 200)) 0) s' (\<lambda>r _. r = None)"
    using removal_succeeds[OF S _ _ e _ p] by (auto simp: removal_def due_def expire_op_def new_entity_def)
  ultimately show ?thesis by blast
qed

end
