(* ===== verification/RpcAnswers.thy ===== *)
theory RpcAnswers
  imports Rpc LedgerDemo
begin

text \<open>
  From a call of the precompile to the answer of the RPC: a snapshot that serves the memory the
  call left behind is read by the read-only adapter, the pages of \<open>arkiv_query\<close> list the matching
  entities of the ledger, and \<open>arkiv_getEntityCount\<close> counts its entities.
\<close>

subsection \<open>Snapshots\<close>

text \<open>\<open>serves P s m\<close>: the state provider \<open>P\<close> shows the memory \<open>m\<close> in its state \<open>s\<close>.\<close>

definition serves :: "'s provider \<Rightarrow> 's \<Rightarrow> mem \<Rightarrow> bool" where
  "serves P s m \<longleftrightarrow>
     (\<forall>a. \<exists>c. account_code P s a = Inr c \<and> code_bytes c = codes m a) \<and>
     (\<forall>a k. \<exists>x. provider_storage P s a k = Inr x \<and> (case x of None \<Rightarrow> zero_b256 | Some w \<Rightarrow> w) = slots m a k)"

definition plain_provider :: "mem provider" where
  "plain_provider = \<lparr>account_code = \<lambda>s a. Inr (Some (codes s a)), provider_storage = \<lambda>s a k. Inr (Some (slots s a k))\<rparr>"

lemma plain_serves: "serves plain_provider m m"
  by (simp add: serves_def plain_provider_def code_bytes_def)

lemma read_only_laws:
  assumes "serves P s m"
  shows "reader_laws (read_only_adapter P) (\<lambda>_. m) (\<lambda>t. t = s)"
proof
  fix t a k
  assume t: "t = s"
  show "\<exists>s'. ad_code (read_only_adapter P) a t = Inr (codes m a, s') \<and> m = m \<and> s' = s"
    using assms t spec[of _ a] unfolding serves_def read_only_adapter_def code_bytes_def
    by (metis (no_types, lifting) old.sum.simps(6) state_adapter.select_convs(1))
  obtain x where "provider_storage P s a k = Inr x" "(case x of None \<Rightarrow> zero_b256 | Some w \<Rightarrow> w) = slots m a k"
    using assms unfolding serves_def by blast
  then show "\<exists>s'. ad_storage (read_only_adapter P) a k t = Inr (slots m a k, s') \<and> m = m \<and> s' = s"
    using t by (simp add: read_only_adapter_def)
qed

text \<open>The provider of a memory that is its own snapshot, and the writes it refuses.\<close>

interpretation snapshot: reader_laws "read_only_adapter plain_provider" "\<lambda>s. s" "\<lambda>_. True"
  by unfold_locales (simp_all add: read_only_adapter_def plain_provider_def)

subsection \<open>Pages of responses\<close>

lemma those_append:
  "those (xs @ ys) = (case those xs of None \<Rightarrow> None | Some a \<Rightarrow> map_option ((@) a) (those ys))"
proof (induction xs)
  case Nil
  show ?case by (cases "those ys") simp_all
next
  case (Cons x xs)
  then show ?case by (cases x; cases "those ys") (auto split: option.split)
qed

text \<open>A client that passes the cursor of each response to the next request.\<close>

fun rpc_walk ::
  "nat \<Rightarrow> rpc_lib \<Rightarrow> lexenv \<Rightarrow> hostlib \<Rightarrow> 's node \<Rightarrow> ustring \<Rightarrow> query_options \<Rightarrow>
    rpc_error + entity_data list option" where
  "rpc_walk 0 L env H N q opts = Inr None"
| "rpc_walk (Suc k) L env H N q opts =
     try_then (run_query L env H N q opts) (\<lambda>r.
     case resp_cursor r of
       None \<Rightarrow> Inr (Some (resp_data r))
     | Some c \<Rightarrow> map_sum id (map_option ((@) (resp_data r)))
         (rpc_walk k L env H N q (opts\<lparr>qo_cursor := Some c\<rparr>)))"

definition as_response :: "entity_data list option \<Rightarrow> rpc_error + entity_data list option" where
  "as_response ds = (case ds of None \<Rightarrow> Inl BlockingTaskJoin | Some xs \<Rightarrow> Inr (Some xs))"

abbreviation project :: "rpc_lib \<Rightarrow> query_options \<Rightarrow> entity_rlp list \<Rightarrow> entity_data list option" where
  "project L opts es \<equiv> those (map (entity_data_from L (from_options (include_data opts))) es)"

lemma page_size_not_0: "page_size_of opts \<noteq> 0"
  by (auto simp: page_size_of_def DEFAULT_PAGE_SIZE_def MAX_PAGE_SIZE_def Let_def split: option.split)

lemma run_query_page:
  assumes W: "db_world H w" and s: "db_rep H w m M n" and all: "(ANNOT_ALL, []) \<in> pairs w"
    and q: "query_in w env str q" and N: "snapshot_for N (at_block opts) = Inr (st, b)" "serves (state_provider N) st m"
    and c: "parse_cursor (qo_cursor opts) = Inr c"
  obtains pg where "page_of M (unat (page_size_of opts)) (ids_below (matching_ids M (satisfies w q)) c) pg"
    "run_query L env H N str opts =
      (case project L opts (entries pg) of
         None \<Rightarrow> Inl BlockingTaskJoin
       | Some ds \<Rightarrow> Inr \<lparr>resp_data = ds, resp_block_number = b, resp_cursor = map_option ser_u64_hex (next_cursor pg)\<rparr>)"
proof -
  have p: "parse env str = Inr q" "query_ok w q" using q by (simp_all add: query_in_def)
  have "wp (execute env H mem_adapter str (page_size_of opts) c) m (\<lambda>pg _.
      page_of M (unat (page_size_of opts)) (ids_below (matching_ids M (satisfies w q)) c) pg)"
    using execute_eq[OF W s all p page_size_not_0[of opts], of c] by (auto simp: wp_iff)
  from reader_laws.sim_result[OF read_only_laws[OF N(2)] reader_laws.sim_execute[OF read_only_laws[OF N(2)]] refl this]
  obtain pg st' where "execute env H (read_only_adapter (state_provider N)) str (page_size_of opts) c st = Inr (pg, st')"
    "page_of M (unat (page_size_of opts)) (ids_below (matching_ids M (satisfies w q)) c) pg"
    by (auto simp: wp_iff)
  then show thesis
    using that[of pg] N(1) c by (simp add: run_query_def try_then_def)
qed

lemma rpc_walk_ok:
  assumes W: "db_world H w" and s: "db_rep H w m M n" and all: "(ANNOT_ALL, []) \<in> pairs w"
    and q: "query_in w env str q" and N: "snapshot_for N (at_block opts) = Inr (st, b)" "serves (state_provider N) st m"
    and c: "parse_cursor (qo_cursor opts) = Inr c"
    and k: "length (ids_below (matching_ids M (satisfies w q)) c) < k"
  shows "\<exists>es. entities_of M (ids_below (matching_ids M (satisfies w q)) c) es \<and>
    rpc_walk k L env H N str opts = as_response (project L opts es)"
  using N(1) c k
proof (induction k arbitrary: opts c)
  case (Suc k)
  let ?ids = "ids_below (matching_ids M (satisfies w q)) c" and ?n = "unat (page_size_of opts)"
  obtain pg where pg: "page_of M ?n ?ids pg" "run_query L env H N str opts =
      (case project L opts (entries pg) of
         None \<Rightarrow> Inl BlockingTaskJoin
       | Some ds \<Rightarrow> Inr \<lparr>resp_data = ds, resp_block_number = b, resp_cursor = map_option ser_u64_hex (next_cursor pg)\<rparr>)"
    by (rule run_query_page[OF W s all q Suc.prems(1) N(2) Suc.prems(2)])
  show ?case
  proof (cases "?n < length ?ids")
    case False
    then show ?thesis
      using pg by (intro exI[of _ "entries pg"])
        (auto simp: page_of_def as_response_def try_then_def split: option.split)
  next
    case True
    have n: "0 < ?n" using page_size_not_0[of opts] by (simp add: unat_gt_0)
    let ?c = "?ids ! (?n - 1)" and ?opts = "opts\<lparr>qo_cursor := Some (ser_u64_hex (?ids ! (?n - 1)))\<rparr>"
    have "length (drop ?n ?ids) < k" using Suc.prems(3) True n by simp
    moreover have "snapshot_for N (at_block ?opts) = Inr (st, b)" "parse_cursor (qo_cursor ?opts) = Inr (Some ?c)"
      using Suc.prems(1) by (simp_all add: parse_cursor_def ser_u64_hex_def)
    ultimately obtain es where es: "entities_of M (drop ?n ?ids) es"
      "rpc_walk k L env H N str ?opts = as_response (project L ?opts es)"
      using Suc.IH[of ?opts "Some ?c", unfolded ids_below_next[OF n True]] by blast
    have "entities_of M (take ?n ?ids @ drop ?n ?ids) (entries pg @ es)"
      using pg(1) es(1) unfolding entities_of_def page_of_def by (intro list_all2_appendI) auto
    then show ?thesis
      using pg es(2) True by (intro exI[of _ "entries pg @ es"])
        (auto simp: page_of_def as_response_def try_then_def those_append split: option.split)
  qed
qed simp


subsection \<open>Counting\<close>

definition removes :: "operation \<Rightarrow> bool" where
  "removes op \<longleftrightarrow> operation_type op = 5 \<or> operation_type op = 6"

lemma op_domain:
  assumes inj: "inj_on (derived (host C) chain) D" and k: "keys_derived (host C) chain D l"
    and A: "admissible C w chain D caller b op l" and run: "led_op C caller chain b op l = Inr ((), l')"
    and fin: "finite (dom (l_entities l))"
  shows "finite (dom (l_entities l')) \<and>
    card (dom (l_entities l')) + (if removes op then 1 else 0) = card (dom (l_entities l)) + (if creates op then 1 else 0)"
proof -
  have drop: "Suc (card (dom (l_entities l)) - Suc 0) = card (dom (l_entities l))" if "key \<in> dom (l_entities l)" for key
    using that fin by (metis One_nat_def card_Suc_Diff1 card_Diff_singleton)
  show ?thesis
  using run
proof (cases rule: led_op_cases)
  case create
  then have "l_entities l (derived (host C) chain (caller, l_nonces l caller)) = None"
    using A by (intro fresh_key[OF inj k]) (simp add: admissible_def)
  then have "derived (host C) chain (caller, l_nonces l caller) \<notin> dom (l_entities l)" by auto
  then show ?thesis
    using fin by - (rule led_create_Inr[OF create(2)], simp add: creates_def removes_def create(1))
next
  case update
  show ?thesis
    by (rule led_update_Inr[OF update(2)]) (use fin update(1) in \<open>simp add: creates_def removes_def insert_absorb domI\<close>)
next
  case delete
  then show ?thesis using fin drop[of "op_entity_key op"]
    by (auto simp: led_delete_def led_all creates_def removes_def domI split: if_splits)
next
  case expire
  show ?thesis
    by (rule led_expire_Inr[OF expire(2)]) (use fin expire(1) drop[of "op_entity_key op"] in \<open>auto simp: creates_def removes_def domI\<close>)
qed (use fin in \<open>auto simp: led_extend_def led_transfer_def led_all creates_def removes_def
    insert_absorb domI split: if_splits\<close>)
qed

lemma count_reads:
  assumes W: "db_world H w" and s: "db_rep H w m M n" and all: "(ANNOT_ALL, []) \<in> pairs w"
    and N: "latest_state N = Inr st" "serves (state_provider N) st m"
  shows "finite (dom M) \<and> (\<exists>k. get_entity_count H N = Inr k \<and> unat k = card (dom M))"
proof -
  have st: "store_rep H w m M n" using s by (simp add: db_rep_def)
  let ?id = "\<lambda>key. fst (the (M key))"
  have inj: "inj_on ?id (dom M)"
    using id_unique[OF W st] by (fastforce simp: inj_on_def)
  have img: "?id ` dom M = matching_ids M (\<lambda>_. True)" by (force simp: matching_ids_def)
  have fin: "finite (dom M)" using inj finite_imageD[of ?id "dom M"] by simp
  have card: "card (matching_ids M (\<lambda>_. True)) = card (dom M)" using card_image[OF inj] img by simp
  have "unat i < max_ids w" if "i \<in> matching_ids M (\<lambda>_. True)" for i
    using that store_repD(1)[OF st] store_repD(5)[OF st] by (fastforce simp: matching_ids_def entity_at_def)
  then have "unat ` matching_ids M (\<lambda>_. True) \<subseteq> {..< max_ids w}" by auto
  then have "card (unat ` matching_ids M (\<lambda>_. True)) \<le> max_ids w" using card_mono[of "{..< max_ids w}"] by fastforce
  moreover have "card (unat ` matching_ids M (\<lambda>_. True)) = card (matching_ids M (\<lambda>_. True))"
    by (rule card_image) (simp add: inj_on_def word_unat_eq_iff)
  moreover have "max_ids w < 2 ^ 64" using W by (simp add: db_world_def)
  ultimately have small: "card (dom M) < 2 ^ 64" using card by linarith
  have "eval H mem_adapter QAll m = Inr (matching_ids M (satisfies w QAll), m)"
    by (rule eval_eq[OF W s all]) simp
  then have "wp (all_entities H mem_adapter) m (\<lambda>b _. b = matching_ids M (\<lambda>_. True))"
    by (simp add: wp_iff satisfies_fun)
  from reader_laws.sim_result[OF read_only_laws[OF N(2)] reader_laws.sim_readers(4)[OF read_only_laws[OF N(2)]] refl this]
  show ?thesis
    using N(1) fin card small by (auto simp: wp_iff get_entity_count_def try_then_def unat_of_nat)
qed

text \<open>
  C11. The entity count: a node whose snapshots show the states before and after a successful call
  reports, before and after, the numbers of live entities, and they differ by exactly the creations
  less the deletions and expirations of the batch.
\<close>

theorem entity_count_follows:
  assumes S: "call_setting B C w D v ok inp ops s l" and r: "arkiv_precompile B C inp s = (Success g out, s')"
    and all: "(ANNOT_ALL, []) \<in> pairs w"
    and N: "latest_state N = Inr st" "serves (state_provider N) st (o_mem (v s))"
    and N': "latest_state N' = Inr st'" "serves (state_provider N') st' (o_mem (v s'))"
  shows "\<exists>n n'. get_entity_count (host C) N = Inr n \<and> get_entity_count (host C) N' = Inr n' \<and>
    unat n = card (dom (l_entities l)) \<and>
    unat n' + length (filter removes ops) = unat n + length (filter creates ops)"
proof -
  obtain l' where l': "led_run C inp ops l = Inr ((), l')" "ledger_rep (host C) w (evm_chain_id (evm C)) D v ok s' l'"
    using call_succeeds[OF S r] by blast
  have W: "db_world (host C) w" and inj: "inj_on (derived (host C) (evm_chain_id (evm C))) D"
    using S by (simp_all add: call_setting_def arkiv_world_def)
  have m: "db_rep (host C) w (o_mem (v s)) (l_entities l) (l_count l)"
    "db_rep (host C) w (o_mem (v s')) (l_entities l') (l_count l')"
    using S l'(2) by (simp_all add: call_setting_def ledger_rep_def mem_rep_def)
  note before = count_reads[OF W m(1) all N] and after = count_reads[OF W m(2) all N']
  have "finite (dom (l_entities l')) \<and> card (dom (l_entities l')) + length (filter removes ops) =
      card (dom (l_entities l)) + length (filter creates ops)"
  proof (rule call_invariant[OF S l'(1), where P = "\<lambda>ops l1. finite (dom (l_entities l1)) \<and>
      card (dom (l_entities l1)) + length (filter removes ops) = card (dom (l_entities l)) + length (filter creates ops)"])
    fix pre op l1 l2
    assume "keys_derived (host C) (evm_chain_id (evm C)) D l1"
      "admissible C w (evm_chain_id (evm C)) D (call_caller inp) (call_block C) op l1"
      "led_op C (call_caller inp) (evm_chain_id (evm C)) (call_block C) op l1 = Inr ((), l2)"
      and P: "finite (dom (l_entities l1)) \<and>
        card (dom (l_entities l1)) + length (filter removes pre) = card (dom (l_entities l)) + length (filter creates pre)"
    from op_domain[OF inj this(1-3)] P show "finite (dom (l_entities l2)) \<and>
        card (dom (l_entities l2)) + length (filter removes (pre @ [op])) =
        card (dom (l_entities l)) + length (filter creates (pre @ [op]))"
      by (auto split: if_splits)
  qed (use before in simp)
  then show ?thesis using before after by auto
qed

subsection \<open>The properties on the chain with two accounts\<close>

definition plain_node :: "mem \<Rightarrow> mem node" where
  "plain_node m = \<lparr>best_block_number = Inr 100, latest_state = Inr m, history_by_block_number = \<lambda>_. Inr m,
     header_by_number = \<lambda>n. Inr (Some (2 * n)), state_provider = plain_provider\<rparr>"

definition plain_rpc_lib :: rpc_lib where
  "plain_rpc_lib = \<lparr>u256_to_string = \<lambda>n. dec_digits (unat n), hex_encode_prefixed = \<lambda>b. [0x30, 0x78] @ hex_digits b,
     decode_stored = \<lambda>_. None\<rparr>"

definition star_query :: ustring where
  "star_query = show_tokens [TStar]"

lemma star_parse: "query_in w plain_env star_query QAll"
proof -
  have "tokenize plain_env star_query = Inr [TStar]"
    using tokenize_from_show[OF _ plain_hex_law, of "[TStar]" "[]" 0]
    by (simp add: tokenize_def star_query_def LexerPrint.printable_def)
  then show ?thesis by (simp add: query_in_def parse_def parse_top_level_def peek_def)
qed

lemma first_setting: "call_setting demo_abi (chain_ctx 100) chain_universe chain_domain (\<lambda>s. s) (\<lambda>_. True)
    (demo_call 0xAA [0]) [create_op] demo_genesis demo_ledger"
  by (rule create_setting[OF genesis_rep]) (simp_all add: demo_ledger_def)

lemma chain_all: "(ANNOT_ALL, []) \<in> pairs chain_universe"
  by (simp add: chain_universe_def list_universe_def chain_pairs_def)


lemma entity_count_follows_witness:
  "\<exists>s. arkiv_precompile demo_abi (chain_ctx 100) (demo_call 0xAA [0]) demo_genesis = (Success (total_gas [create_op]) [], s) \<and>
    get_entity_count chain_host (plain_node (o_mem demo_genesis)) = Inr 0 \<and>
    get_entity_count chain_host (plain_node (o_mem s)) = Inr 1"
proof -
  obtain s where s: "arkiv_precompile demo_abi (chain_ctx 100) (demo_call 0xAA [0]) demo_genesis =
      (Success (total_gas [create_op]) [], s)" using first_call by blast
  have N: "latest_state (plain_node m) = Inr m" "serves (state_provider (plain_node m)) m m" for m
    by (simp_all add: plain_node_def plain_serves)
  have "l_entities demo_ledger = Map.empty" by (simp add: demo_ledger_def)
  moreover have "filter removes [create_op] = []" "filter creates [create_op] = [create_op]"
    by (simp_all add: removes_def creates_def create_op_def)
  ultimately obtain n n' where "get_entity_count chain_host (plain_node (o_mem demo_genesis)) = Inr n"
    "get_entity_count chain_host (plain_node (o_mem s)) = Inr n'" "unat n = 0" "unat n' = 1"
    using entity_count_follows[OF first_setting s chain_all N N] by auto
  then show ?thesis using s by (auto simp: word_unat_eq_iff)
qed

end
