(* ===== verification/Simulate.thy ===== *)
theory Simulate
  imports PrecompileRun Schedule "HOL-Library.AList"
begin

text \<open>
  The load generator of \<open>crates/arkiv-cli/src/simulate.rs\<close>: the weights it is given, the pool of
  entities it tracks, the batches it plans for idle signers, and what a receipt does to the pool.
  The random number generator, the iteration order of the hash map and the constructors of the
  contract bindings are the records \<open>rng_lib\<close> and \<open>bindings\<close>.
\<close>

subsection \<open>Kinds and weights\<close>

datatype op_kind = KCreate | KUpdate | KExtend | KTransfer | KDelete | KExpire

definition kind_name :: "op_kind \<Rightarrow> ustring" where
  "kind_name k =
     (case k of
        KCreate \<Rightarrow> ascii ''create'' | KUpdate \<Rightarrow> ascii ''update'' | KExtend \<Rightarrow> ascii ''extend''
      | KTransfer \<Rightarrow> ascii ''transfer'' | KDelete \<Rightarrow> ascii ''delete'' | KExpire \<Rightarrow> ascii ''expire'')"

datatype sim_error =
    UnknownKind ustring
  | ExpectedKeyValue ustring
  | InvalidWeight ustring
  | AllWeightsZero
  | EmptyRange
  | InvalidMime
  | IndexOutOfRange nat

definition from_name :: "ustring \<Rightarrow> sim_error + op_kind" where
  "from_name s =
     (if s = ascii ''create'' then Inr KCreate
      else if s = ascii ''update'' then Inr KUpdate
      else if s = ascii ''extend'' then Inr KExtend
      else if s = ascii ''transfer'' then Inr KTransfer
      else if s = ascii ''delete'' then Inr KDelete
      else Inl (UnknownKind s))"

fun split_on :: "uchar \<Rightarrow> ustring \<Rightarrow> ustring list" where
  "split_on d [] = [[]]"
| "split_on d (c # cs) = (if c = d then [] # split_on d cs else (c # hd (split_on d cs)) # tl (split_on d cs))"

definition split_once :: "uchar \<Rightarrow> ustring \<Rightarrow> (ustring \<times> ustring) option" where
  "split_once d s =
     (if d \<in> set s then Some (takeWhile (\<lambda>c. c \<noteq> d) s, drop 1 (dropWhile (\<lambda>c. c \<noteq> d) s)) else None)"

text \<open>\<open>str::parse::<u32>\<close>.\<close>

definition parse_u32 :: "ustring \<Rightarrow> u32 option" where
  "parse_u32 s =
     (case from_str_radix 10 s of None \<Rightarrow> None | Some n \<Rightarrow> if unat n < 2 ^ 32 then Some (ucast n) else None)"

fun weight_entries :: "ustring list \<Rightarrow> sim_error + (op_kind \<times> u32) list" where
  "weight_entries [] = Inr []"
| "weight_entries (entry # es) =
     (case split_once 0x3D entry of
        None \<Rightarrow> Inl (ExpectedKeyValue entry)
      | Some (k, v) \<Rightarrow>
          try_then (from_name (trim k)) (\<lambda>kind.
          case parse_u32 (trim v) of
            None \<Rightarrow> Inl (InvalidWeight v)
          | Some weight \<Rightarrow> map_sum id ((#) (kind, weight)) (weight_entries es)))"

definition parse_weights :: "ustring \<Rightarrow> sim_error + (op_kind \<times> u32) list" where
  "parse_weights s =
     try_then (weight_entries (split_on 0x2C s)) (\<lambda>out.
     if \<forall>(_, w) \<in> set out. w = 0 then Inl AllWeightsZero else Inr out)"

subsection \<open>The pool\<close>

record alive_entity =
  owner_idx :: nat
  al_expires_at :: u32
  pending :: bool

record counters =
  sent :: u64
  confirmed :: u64
  failed :: u64

text \<open>A counter that was never touched is the default one.\<close>

record pool =
  alive :: "(b256 \<times> alive_entity) list"
  expired :: "b256 list"
  expired_pending :: "b256 list"
  counts :: "op_kind \<Rightarrow> counters"

definition empty_pool :: pool where
  "empty_pool = \<lparr>alive = [], expired = [], expired_pending = [], counts = \<lambda>_. \<lparr>sent = 0, confirmed = 0, failed = 0\<rparr>\<rparr>"

definition record_sent :: "op_kind \<Rightarrow> pool \<Rightarrow> pool" where
  "record_sent k p = p\<lparr>counts := (counts p)(k := (counts p k)\<lparr>sent := sent (counts p k) + 1\<rparr>)\<rparr>"

definition record_confirmed :: "op_kind \<Rightarrow> pool \<Rightarrow> pool" where
  "record_confirmed k p = p\<lparr>counts := (counts p)(k := (counts p k)\<lparr>confirmed := confirmed (counts p k) + 1\<rparr>)\<rparr>"

definition record_failed :: "op_kind \<Rightarrow> pool \<Rightarrow> pool" where
  "record_failed k p = p\<lparr>counts := (counts p)(k := (counts p k)\<lparr>failed := failed (counts p k) + 1\<rparr>)\<rparr>"

definition get_entity :: "b256 \<Rightarrow> pool \<Rightarrow> alive_entity option" where
  "get_entity key p = map_of (alive p) key"

definition alive_count :: "pool \<Rightarrow> nat" where
  "alive_count p = length (alive p)"

text \<open>
  \<open>alive.get_mut(&key)\<close> with an assignment, \<open>alive.insert\<close> and \<open>alive.remove\<close>.
\<close>

definition modify_entity :: "b256 \<Rightarrow> (alive_entity \<Rightarrow> alive_entity) \<Rightarrow> pool \<Rightarrow> pool" where
  "modify_entity key f p =
     (case get_entity key p of None \<Rightarrow> p | Some e \<Rightarrow> p\<lparr>alive := AList.update key (f e) (alive p)\<rparr>)"

definition insert_entity :: "b256 \<Rightarrow> alive_entity \<Rightarrow> pool \<Rightarrow> pool" where
  "insert_entity key e p = p\<lparr>alive := AList.update key e (alive p)\<rparr>"

definition remove_entity :: "b256 \<Rightarrow> pool \<Rightarrow> pool" where
  "remove_entity key p = p\<lparr>alive := AList.delete key (alive p)\<rparr>"

record 'g rng_lib =
  rnd :: "nat \<Rightarrow> nat \<Rightarrow> 'g \<Rightarrow> nat \<times> 'g"
  choose_key :: "b256 list \<Rightarrow> 'g \<Rightarrow> b256 option \<times> 'g"
  choose_type :: "ustring list \<Rightarrow> 'g \<Rightarrow> ustring option \<times> 'g"
  fill_bytes :: "nat \<Rightarrow> 'g \<Rightarrow> bytes \<times> 'g"
  hash_order :: "(b256 \<times> alive_entity) list \<Rightarrow> (b256 \<times> alive_entity) list"

record bindings =
  op_create_new :: "u32 \<Rightarrow> bytes \<Rightarrow> words4 \<Rightarrow> op_attribute list \<Rightarrow> operation"
  op_update_new :: "b256 \<Rightarrow> bytes \<Rightarrow> words4 \<Rightarrow> op_attribute list \<Rightarrow> operation"
  op_extend_new :: "b256 \<Rightarrow> u32 \<Rightarrow> operation"
  op_transfer_new :: "b256 \<Rightarrow> address \<Rightarrow> operation"
  op_delete_new :: "b256 \<Rightarrow> operation"
  op_expire_new :: "b256 \<Rightarrow> operation"
  mime_encode :: "ustring \<Rightarrow> words4 option"

fun expire_keys :: "b256 list \<Rightarrow> pool \<Rightarrow> pool" where
  "expire_keys [] p = p"
| "expire_keys (k # ks) p =
     expire_keys ks ((remove_entity k p)\<lparr>expired := expired p @ [k]\<rparr>)"

definition promote_expired :: "'g rng_lib \<Rightarrow> u32 \<Rightarrow> pool \<Rightarrow> pool" where
  "promote_expired R block p =
     expire_keys
       (map fst (filter (\<lambda>(_, e). \<not> pending e \<and> al_expires_at e \<le> block) (hash_order R (alive p)))) p"

subsection \<open>Planning\<close>

record planned_op =
  pl_kind :: op_kind
  pl_op :: operation
  pl_target :: "b256 option"
  pl_new_expires_at :: "u32 option"
  pl_new_owner_idx :: "nat option"

record batch_plan =
  bp_signer_idx :: nat
  bp_ops :: "planned_op list"

record 'g sim =
  the_pool :: pool
  the_rng :: 'g

type_synonym ('g, 'a) sim_m = "('g sim, sim_error, 'a) sm"

text \<open>\<open>random_range\<close> panics on an empty range.\<close>

definition random_range :: "'g rng_lib \<Rightarrow> nat \<Rightarrow> nat \<Rightarrow> ('g, nat) sim_m" where
  "random_range R lo hi s =
     (if lo < hi then (case rnd R lo hi (the_rng s) of (n, g) \<Rightarrow> Inr (n, s\<lparr>the_rng := g\<rparr>))
      else Inl EmptyRange)"

definition get_pool :: "('g, pool) sim_m" where
  "get_pool s = Inr (the_pool s, s)"

definition change_pool :: "(pool \<Rightarrow> pool) \<Rightarrow> ('g, unit) sim_m" where
  "change_pool f s = Inr ((), s\<lparr>the_pool := f (the_pool s)\<rparr>)"

definition random_payload :: "'g rng_lib \<Rightarrow> nat \<Rightarrow> ('g, bytes) sim_m" where
  "random_payload R n s = (case fill_bytes R n (the_rng s) of (bs, g) \<Rightarrow> Inr (bs, s\<lparr>the_rng := g\<rparr>))"

definition TYPES :: "ustring list" where
  "TYPES = [ascii ''application/json'', ascii ''application/octet-stream'', ascii ''text/plain'',
     ascii ''image/png'', ascii ''image/jpeg'']"

definition random_content_type :: "'g rng_lib \<Rightarrow> bindings \<Rightarrow> ('g, words4) sim_m" where
  "random_content_type R B s =
     (case choose_type R TYPES (the_rng s) of (t, g) \<Rightarrow>
        case mime_encode B (case t of None \<Rightarrow> TYPES ! 0 | Some t \<Rightarrow> t) of
          None \<Rightarrow> Inl InvalidMime
        | Some m \<Rightarrow> Inr (m, s\<lparr>the_rng := g\<rparr>))"

definition owned_available :: "nat \<Rightarrow> pool \<Rightarrow> bool" where
  "owned_available signer p \<longleftrightarrow> (\<exists>(_, e) \<in> set (alive p). owner_idx e = signer \<and> \<not> pending e)"

definition is_feasible :: "op_kind \<Rightarrow> pool \<Rightarrow> nat \<Rightarrow> nat \<Rightarrow> nat \<Rightarrow> nat \<Rightarrow> bool" where
  "is_feasible kind p signer max_alive signer_count creates_in_batch =
     (case kind of
        KCreate \<Rightarrow> alive_count p + creates_in_batch < max_alive
      | KUpdate \<Rightarrow> owned_available signer p
      | KExtend \<Rightarrow> owned_available signer p
      | KDelete \<Rightarrow> owned_available signer p
      | KTransfer \<Rightarrow> owned_available signer p \<and> 2 \<le> signer_count
      | KExpire \<Rightarrow> expired p \<noteq> [])"

fun roll_loop :: "(op_kind \<times> u32) list \<Rightarrow> u32 \<Rightarrow> op_kind option" where
  "roll_loop [] roll = None"
| "roll_loop ((kind, weight) # ws) roll = (if roll < weight then Some kind else roll_loop ws (roll - weight))"

text \<open>The sum of the weights is a 32-bit one; it wraps around as in a release build.\<close>

definition pick_op_kind ::
  "'g rng_lib \<Rightarrow> (op_kind \<times> u32) list \<Rightarrow> nat \<Rightarrow> nat \<Rightarrow> nat \<Rightarrow> nat \<Rightarrow> ('g, op_kind option) sim_m" where
  "pick_op_kind R weights signer max_alive signer_count creates_in_batch =
     sbind get_pool (\<lambda>p.
     if expired p \<noteq> [] then sret (Some KExpire)
     else
       let feasible = filter (\<lambda>(k, w). 0 < w \<and> is_feasible k p signer max_alive signer_count creates_in_batch) weights in
       if feasible = [] then sret None
       else
         sbind (random_range R 0 (unat (sum_list (map snd feasible)))) (\<lambda>roll.
         sret (roll_loop feasible (of_nat roll))))"

definition pick_owned_alive :: "'g rng_lib \<Rightarrow> nat \<Rightarrow> ('g, b256 option) sim_m" where
  "pick_owned_alive R signer s =
     (case choose_key R (map fst (filter (\<lambda>(_, e). owner_idx e = signer \<and> \<not> pending e)
         (hash_order R (alive (the_pool s))))) (the_rng s) of
        (k, g) \<Rightarrow> Inr (k, s\<lparr>the_rng := g\<rparr>))"

definition on_owned :: "'g rng_lib \<Rightarrow> nat \<Rightarrow> (b256 \<Rightarrow> ('g, planned_op option) sim_m) \<Rightarrow>
    ('g, planned_op option) sim_m" where
  "on_owned R signer f =
     sbind (pick_owned_alive R signer) (\<lambda>k. case k of None \<Rightarrow> sret None | Some key \<Rightarrow> f key)"

definition build_op ::
  "'g rng_lib \<Rightarrow> bindings \<Rightarrow> op_kind \<Rightarrow> nat \<Rightarrow> nat \<Rightarrow> u64 \<Rightarrow> ('g, planned_op option) sim_m" where
  "build_op R B kind signer signer_count block =
     (case kind of
        KCreate \<Rightarrow>
          sbind (random_range R 30 300) (\<lambda>lifespan.
          sbind (random_range R 64 512) (\<lambda>len.
          sbind (random_payload R len) (\<lambda>payload.
          sbind (random_content_type R B) (\<lambda>mime.
          sret (Some \<lparr>pl_kind = kind, pl_op = op_create_new B (of_nat lifespan) payload mime [],
            pl_target = None, pl_new_expires_at = Some (ucast (block + of_nat lifespan)),
            pl_new_owner_idx = None\<rparr>)))))
      | KUpdate \<Rightarrow> on_owned R signer (\<lambda>key.
          sbind (random_range R 64 512) (\<lambda>len.
          sbind (random_payload R len) (\<lambda>payload.
          sbind (random_content_type R B) (\<lambda>mime.
          sret (Some \<lparr>pl_kind = kind, pl_op = op_update_new B key payload mime [], pl_target = Some key,
            pl_new_expires_at = None, pl_new_owner_idx = None\<rparr>)))))
      | KExtend \<Rightarrow> on_owned R signer (\<lambda>key.
          sbind get_pool (\<lambda>p.
          case get_entity key p of
            None \<Rightarrow> sret None
          | Some entity \<Rightarrow>
              sbind (random_range R 50 400) (\<lambda>bump.
              let new_expires_at = ucast (max (block + of_nat bump) (ucast (al_expires_at entity) + 1)) :: u32;
                  btl = ucast (ucast new_expires_at - block) :: u32 in
              sret (Some \<lparr>pl_kind = kind, pl_op = op_extend_new B key btl, pl_target = Some key,
                pl_new_expires_at = Some new_expires_at, pl_new_owner_idx = None\<rparr>))))
      | KTransfer \<Rightarrow> on_owned R signer (\<lambda>key.
          sbind (random_range R 0 signer_count) (\<lambda>idx.
          let new_idx = (if idx = signer then (idx + 1) mod signer_count else idx) in
          sret (Some \<lparr>pl_kind = kind, pl_op = op_transfer_new B key zero_address, pl_target = Some key,
            pl_new_expires_at = None, pl_new_owner_idx = Some new_idx\<rparr>)))
      | KDelete \<Rightarrow> on_owned R signer (\<lambda>key.
          sret (Some \<lparr>pl_kind = kind, pl_op = op_delete_new B key, pl_target = Some key,
            pl_new_expires_at = None, pl_new_owner_idx = None\<rparr>))
      | KExpire \<Rightarrow>
          sbind get_pool (\<lambda>p.
          if expired p = [] then sret None
          else
            let key = last (expired p) in
            sbind (change_pool (\<lambda>p. p\<lparr>expired := butlast (expired p), expired_pending := expired_pending p @ [key]\<rparr>)) (\<lambda>_.
            sret (Some \<lparr>pl_kind = kind, pl_op = op_expire_new B key, pl_target = None,
              pl_new_expires_at = None, pl_new_owner_idx = None\<rparr>))))"

text \<open>
  The loop of \<open>build_batch\<close> with the number of slots left: \<open>None\<close> is the early return of the
  whole function when no kind is feasible.
\<close>

fun batch_loop ::
  "nat \<Rightarrow> 'g rng_lib \<Rightarrow> bindings \<Rightarrow> (op_kind \<times> u32) list \<Rightarrow> nat \<Rightarrow> nat \<Rightarrow> nat \<Rightarrow> u64 \<Rightarrow> nat \<Rightarrow> planned_op list \<Rightarrow>
    ('g, planned_op list option) sim_m" where
  "batch_loop 0 R B weights signer max_alive signer_count block creates ops = sret (Some ops)"
| "batch_loop (Suc n) R B weights signer max_alive signer_count block creates ops =
     sbind (pick_op_kind R weights signer max_alive signer_count creates) (\<lambda>k.
     case k of
       None \<Rightarrow> sret None
     | Some kind \<Rightarrow>
         sbind (build_op R B kind signer signer_count block) (\<lambda>planned.
         case planned of
           None \<Rightarrow> sret (Some ops)
         | Some p \<Rightarrow>
             batch_loop n R B weights signer max_alive signer_count block
               (if pl_kind p = KCreate then creates + 1 else creates) (ops @ [p])))"

definition mark_pending :: "planned_op \<Rightarrow> pool \<Rightarrow> pool" where
  "mark_pending op p =
     (case pl_target op of None \<Rightarrow> p | Some key \<Rightarrow> modify_entity key (\<lambda>e. e\<lparr>pending := True\<rparr>) p)"

definition build_batch ::
  "'g rng_lib \<Rightarrow> bindings \<Rightarrow> nat \<Rightarrow> (op_kind \<times> u32) list \<Rightarrow> nat \<Rightarrow> nat \<Rightarrow> nat \<Rightarrow> u64 \<Rightarrow>
    ('g, batch_plan option) sim_m" where
  "build_batch R B signer weights max_alive max_ops_per_tx signer_count block =
     sbind (random_range R 1 (max max_ops_per_tx 1 + 1)) (\<lambda>target_size.
     sbind (batch_loop target_size R B weights signer max_alive signer_count block 0 []) (\<lambda>r.
     case r of
       None \<Rightarrow> sret None
     | Some ops \<Rightarrow>
         if ops = [] then sret None
         else
           sbind (change_pool (fold mark_pending ops)) (\<lambda>_.
           sbind (change_pool (fold (\<lambda>op. record_sent (pl_kind op)) ops)) (\<lambda>_.
           sret (Some \<lparr>bp_signer_idx = signer, bp_ops = ops\<rparr>)))))"

subsection \<open>Submission and receipts\<close>

text \<open>\<open>submit_plan\<close> fills in the new owners of transfers before it encodes the call.\<close>

definition with_owner :: "address list \<Rightarrow> planned_op \<Rightarrow> sim_error + planned_op" where
  "with_owner addrs p =
     (if pl_kind p = KTransfer then
        (case pl_new_owner_idx p of
           None \<Rightarrow> Inl (IndexOutOfRange (length addrs))
         | Some idx \<Rightarrow>
             if idx < length addrs then Inr (p\<lparr>pl_op := (pl_op p)\<lparr>op_new_owner := addrs ! idx\<rparr>\<rparr>)
             else Inl (IndexOutOfRange idx))
      else Inr p)"

definition created_in :: "event option list \<Rightarrow> b256 list" where
  "created_in logs = map ev_entity_key (filter (\<lambda>ev. ev_operation_type ev = OP_CREATE) (map the (filter (\<lambda>ev. ev \<noteq> None) logs)))"

text \<open>One operation of a successful batch; \<open>keys\<close> is the reversed list of created keys.\<close>

definition confirm_op :: "nat \<Rightarrow> planned_op \<Rightarrow> pool \<times> b256 list \<Rightarrow> pool \<times> b256 list" where
  "confirm_op sender op = (\<lambda>(p, keys).
     let (p', keys') =
       (case pl_kind op of
          KCreate \<Rightarrow>
            if keys = [] then (p, keys)
            else
              (insert_entity (last keys)
                 \<lparr>owner_idx = sender, al_expires_at = (case pl_new_expires_at op of None \<Rightarrow> 0 | Some x \<Rightarrow> x),
                  pending = False\<rparr> p, butlast keys)
        | KUpdate \<Rightarrow>
            ((case pl_target op of None \<Rightarrow> p | Some key \<Rightarrow> modify_entity key (\<lambda>e. e\<lparr>pending := False\<rparr>) p), keys)
        | KExtend \<Rightarrow>
            ((case pl_target op of None \<Rightarrow> p | Some key \<Rightarrow> modify_entity key (\<lambda>e. e\<lparr>al_expires_at :=
                (case pl_new_expires_at op of None \<Rightarrow> al_expires_at e | Some x \<Rightarrow> x), pending := False\<rparr>) p), keys)
        | KTransfer \<Rightarrow>
            ((case (pl_target op, pl_new_owner_idx op) of
                (Some key, Some idx) \<Rightarrow> modify_entity key (\<lambda>e. e\<lparr>owner_idx := idx, pending := False\<rparr>) p
              | _ \<Rightarrow> p), keys)
        | _ \<Rightarrow>
            ((case pl_target op of
                Some key \<Rightarrow> remove_entity key p
              | None \<Rightarrow> p\<lparr>expired_pending := remove1 (op_entity_key (pl_op op)) (expired_pending p)\<rparr>), keys))
     in (record_confirmed (pl_kind op) p', keys'))"

definition apply_success :: "planned_op list \<Rightarrow> event option list \<Rightarrow> nat \<Rightarrow> pool \<Rightarrow> pool" where
  "apply_success planned logs sender p =
     fst (fold (confirm_op sender) planned (p, rev (created_in logs)))"

definition fail_op :: "planned_op \<Rightarrow> pool \<Rightarrow> pool" where
  "fail_op op p =
     (let p1 = (case pl_target op of None \<Rightarrow> p | Some key \<Rightarrow> modify_entity key (\<lambda>e. e\<lparr>pending := False\<rparr>) p);
          key = op_entity_key (pl_op op);
          p2 = (if pl_kind op = KExpire \<and> key \<in> set (expired_pending p1)
            then p1\<lparr>expired_pending := remove1 key (expired_pending p1), expired := expired p1 @ [key]\<rparr> else p1)
      in record_failed (pl_kind op) p2)"

definition apply_failure :: "planned_op list \<Rightarrow> pool \<Rightarrow> pool" where
  "apply_failure planned p = fold fail_op planned p"

end
