(* ===== verification/SimulateInv.thy ===== *)
theory SimulateInv
  imports Simulate "HOL-Library.Multiset"
begin

text \<open>
  The driver of the load generator as a transition system: ticks that plan a batch for an idle slot,
  and receipts, in any order, that end one. In every reachable state an entity is in at most one
  batch, the batch of the signer the pool says owns it.
\<close>

subsection \<open>The driver\<close>

record 'g driver =
  d_sim :: "'g sim"
  in_flight :: "nat \<Rightarrow> batch_plan option"

record drive_args =
  dr_weights :: "(op_kind \<times> u32) list"
  dr_max_alive :: nat
  dr_max_ops :: nat
  dr_signers :: "address list"

definition idle_slot :: "nat \<Rightarrow> (nat \<Rightarrow> batch_plan option) \<Rightarrow> nat option" where
  "idle_slot n fl = find (\<lambda>i. fl i = None) [0..<n]"

abbreviation pool_of :: "'g driver \<Rightarrow> pool" where
  "pool_of d \<equiv> the_pool (d_sim d)"

definition set_pool :: "pool \<Rightarrow> 'g driver \<Rightarrow> 'g driver" where
  "set_pool p d = d\<lparr>d_sim := (d_sim d)\<lparr>the_pool := p\<rparr>\<rparr>"

text \<open>The keys of new entities are new: this is what the chain's key derivation gives.\<close>

definition fresh_logs :: "pool \<Rightarrow> event option list \<Rightarrow> bool" where
  "fresh_logs p logs \<longleftrightarrow> distinct (created_in logs) \<and>
     (\<forall>k \<in> set (created_in logs). get_entity k p = None \<and> k \<notin> set (expired p) \<and> k \<notin> set (expired_pending p))"

fun submitted :: "address list \<Rightarrow> planned_op list \<Rightarrow> sim_error + planned_op list" where
  "submitted addrs [] = Inr []"
| "submitted addrs (op # ops) =
     try_then (with_owner addrs op) (\<lambda>op'. try_then (submitted addrs ops) (\<lambda>ops'. Inr (op' # ops')))"

text \<open>
  \<open>tick\<close> is one round of the loop of \<open>run\<close>; \<open>confirm\<close> and \<open>fail\<close> are the ends of \<open>submit_plan\<close>;
  \<open>crash\<close> is a panic in it, after which only the guard of the slot runs.
\<close>

inductive drive_step :: "'g rng_lib \<Rightarrow> bindings \<Rightarrow> drive_args \<Rightarrow> 'g driver \<Rightarrow> 'g driver \<Rightarrow> bool"
  for R :: "'g rng_lib" and B :: bindings and args :: drive_args where
  tick: "idle_slot (length (dr_signers args)) (in_flight d) = Some i \<Longrightarrow>
    build_batch R B i (dr_weights args) (dr_max_alive args) (dr_max_ops args) (length (dr_signers args)) block
      ((d_sim d)\<lparr>the_pool := promote_expired R (ucast block) (pool_of d)\<rparr>) = Inr (plan, s) \<Longrightarrow>
    drive_step R B args d (d\<lparr>d_sim := s, in_flight := (in_flight d)(i := plan)\<rparr>)"
| confirm: "in_flight d i = Some plan \<Longrightarrow> submitted (dr_signers args) (bp_ops plan) = Inr ops \<Longrightarrow>
    fresh_logs (pool_of d) logs \<Longrightarrow>
    drive_step R B args d
      ((set_pool (apply_success ops logs (bp_signer_idx plan) (pool_of d)) d)\<lparr>in_flight := (in_flight d)(i := None)\<rparr>)"
| fail: "in_flight d i = Some plan \<Longrightarrow> submitted (dr_signers args) (bp_ops plan) = Inr ops \<Longrightarrow>
    drive_step R B args d
      ((set_pool (apply_failure ops (pool_of d)) d)\<lparr>in_flight := (in_flight d)(i := None)\<rparr>)"
| crash: "in_flight d i = Some plan \<Longrightarrow> submitted (dr_signers args) (bp_ops plan) = Inl e \<Longrightarrow>
    drive_step R B args d (d\<lparr>in_flight := (in_flight d)(i := None)\<rparr>)"

definition start_driver :: "'g \<Rightarrow> 'g driver" where
  "start_driver g = \<lparr>d_sim = \<lparr>the_pool = empty_pool, the_rng = g\<rparr>, in_flight = \<lambda>_. None\<rparr>"

definition drive_reach :: "'g rng_lib \<Rightarrow> bindings \<Rightarrow> drive_args \<Rightarrow> 'g \<Rightarrow> 'g driver \<Rightarrow> bool" where
  "drive_reach R B args g d \<longleftrightarrow> (drive_step R B args)\<^sup>*\<^sup>* (start_driver g) d"

text \<open>What is documented of the generator, the hash map and the bindings.\<close>

definition rng_ok :: "'g rng_lib \<Rightarrow> bool" where
  "rng_ok R \<longleftrightarrow> (\<forall>lo hi g. lo < hi \<longrightarrow> lo \<le> fst (rnd R lo hi g) \<and> fst (rnd R lo hi g) < hi) \<and>
     (\<forall>ks g k. fst (choose_key R ks g) = Some k \<longrightarrow> k \<in> set ks) \<and>
     (\<forall>xs. mset (hash_order R xs) = mset xs)"

definition expire_binding_ok :: "bindings \<Rightarrow> bool" where
  "expire_binding_ok B \<longleftrightarrow> (\<forall>k. op_entity_key (op_expire_new B k) = k)"

subsection \<open>Reading the pool\<close>

lemma get_entity_update [simp]:
  "get_entity k' (modify_entity k f p) = ((\<lambda>k. get_entity k p)(k := map_option f (get_entity k p))) k'"
  "get_entity k' (insert_entity k e p) = (if k' = k then Some e else get_entity k' p)"
  "get_entity k' (remove_entity k p) = (if k' = k then None else get_entity k' p)"
  "get_entity k (p\<lparr>expired := x\<rparr>) = get_entity k p" "get_entity k (p\<lparr>expired_pending := y\<rparr>) = get_entity k p"
  "get_entity k (p\<lparr>counts := c\<rparr>) = get_entity k p"
  by (auto simp: get_entity_def modify_entity_def insert_entity_def remove_entity_def update_conv' delete_conv'
      split: option.split)

lemma pool_fields [simp]:
  "expired (modify_entity k f p) = expired p" "expired_pending (modify_entity k f p) = expired_pending p"
  "expired (insert_entity k e p) = expired p" "expired_pending (insert_entity k e p) = expired_pending p"
  "expired (remove_entity k p) = expired p" "expired_pending (remove_entity k p) = expired_pending p"
  by (simp_all add: modify_entity_def insert_entity_def remove_entity_def split: option.split)

lemma record_fields [simp]:
  "alive (record_sent x p) = alive p" "expired (record_sent x p) = expired p"
  "expired_pending (record_sent x p) = expired_pending p"
  "alive (record_confirmed x p) = alive p" "expired (record_confirmed x p) = expired p"
  "expired_pending (record_confirmed x p) = expired_pending p"
  "alive (record_failed x p) = alive p" "expired (record_failed x p) = expired p"
  "expired_pending (record_failed x p) = expired_pending p"
  by (simp_all add: record_sent_def record_confirmed_def record_failed_def)

lemma get_recorded [simp]:
  "get_entity k (record_sent x p) = get_entity k p" "get_entity k (record_confirmed x p) = get_entity k p"
  "get_entity k (record_failed x p) = get_entity k p"
  by (simp_all add: get_entity_def)

definition map_like :: "pool \<Rightarrow> bool" where
  "map_like p \<longleftrightarrow> distinct (map fst (alive p))"

lemma map_like_ops [simp]:
  "map_like p \<Longrightarrow> map_like (modify_entity k f p)" "map_like p \<Longrightarrow> map_like (insert_entity k e p)"
  "map_like p \<Longrightarrow> map_like (remove_entity k p)" "map_like (p\<lparr>expired := x\<rparr>) = map_like p"
  "map_like (p\<lparr>expired_pending := y\<rparr>) = map_like p" "map_like (record_sent x' p) = map_like p"
  "map_like (record_confirmed x' p) = map_like p" "map_like (record_failed x' p) = map_like p"
  by (auto simp: map_like_def modify_entity_def insert_entity_def remove_entity_def distinct_update distinct_delete
      split: option.split)

subsection \<open>The invariant\<close>

definition targets :: "planned_op list \<Rightarrow> b256 set" where
  "targets ops = {k. \<exists>op \<in> set ops. pl_target op = Some k}"

definition expire_targets :: "planned_op list \<Rightarrow> b256 list" where
  "expire_targets ops = map (\<lambda>op. op_entity_key (pl_op op)) (filter (\<lambda>op. pl_kind op = KExpire) ops)"

text \<open>A planned operation has a target unless it creates or expires, and a transfer goes to another signer.\<close>

definition well_planned :: "nat \<Rightarrow> nat \<Rightarrow> planned_op \<Rightarrow> bool" where
  "well_planned n i op \<longleftrightarrow> (pl_target op = None \<longleftrightarrow> pl_kind op \<in> {KCreate, KExpire}) \<and>
     (pl_kind op = KTransfer \<longrightarrow> (\<exists>j. pl_new_owner_idx op = Some j \<and> j < n \<and> j \<noteq> i))"

definition pool_ok :: "pool \<Rightarrow> bool" where
  "pool_ok p \<longleftrightarrow> map_like p \<and> distinct (expired p @ expired_pending p) \<and>
     (\<forall>k \<in> set (expired p) \<union> set (expired_pending p). get_entity k p = None)"

definition batch_ok :: "nat \<Rightarrow> pool \<Rightarrow> nat \<Rightarrow> batch_plan \<Rightarrow> bool" where
  "batch_ok n p i plan \<longleftrightarrow> bp_signer_idx plan = i \<and> i < n \<and> list_all (well_planned n i) (bp_ops plan) \<and>
     (\<forall>k \<in> targets (bp_ops plan). \<exists>e. get_entity k p = Some e \<and> owner_idx e = i \<and> pending e) \<and>
     distinct (expire_targets (bp_ops plan)) \<and> set (expire_targets (bp_ops plan)) \<subseteq> set (expired_pending p)"

definition driver_ok :: "nat \<Rightarrow> 'g driver \<Rightarrow> bool" where
  "driver_ok n d \<longleftrightarrow> pool_ok (pool_of d) \<and>
     (\<forall>i plan. in_flight d i = Some plan \<longrightarrow> batch_ok n (pool_of d) i plan) \<and>
     (\<forall>i j plan plan'. in_flight d i = Some plan \<longrightarrow> in_flight d j = Some plan' \<longrightarrow> i \<noteq> j \<longrightarrow>
        set (expire_targets (bp_ops plan)) \<inter> set (expire_targets (bp_ops plan')) = {}) \<and>
     (\<forall>k e. get_entity k (pool_of d) = Some e \<longrightarrow> pending e \<longrightarrow>
        (\<exists>plan. in_flight d (owner_idx e) = Some plan \<and> k \<in> targets (bp_ops plan)))"

lemma targets_simps [simp]:
  "targets [] = {}" "targets (op # ops) = (case pl_target op of None \<Rightarrow> {} | Some k \<Rightarrow> {k}) \<union> targets ops"
  "targets (xs @ ys) = targets xs \<union> targets ys"
  by (auto simp: targets_def split: option.split)

lemma expire_targets_simps [simp]:
  "expire_targets [] = []" "expire_targets (xs @ ys) = expire_targets xs @ expire_targets ys"
  "expire_targets (op # ops) = (if pl_kind op = KExpire then op_entity_key (pl_op op) # expire_targets ops else expire_targets ops)"
  by (simp_all add: expire_targets_def)

subsection \<open>Promotion\<close>

lemma expire_keys_effect:
  "expired (expire_keys ks p) = expired p @ ks" "expired_pending (expire_keys ks p) = expired_pending p"
  "get_entity k (expire_keys ks p) = (if k \<in> set ks then None else get_entity k p)"
  "map_like p \<Longrightarrow> map_like (expire_keys ks p)"
  by (induction ks arbitrary: p) simp_all

lemma promote_effect:
  assumes R: "rng_ok R" and p: "pool_ok p"
  obtains ks where "promote_expired R b p = expire_keys ks p" "distinct ks"
    "\<forall>k \<in> set ks. \<exists>e. get_entity k p = Some e \<and> \<not> pending e"
proof -
  let ?L = "hash_order R (alive p)"
  let ?ks = "map fst (filter (\<lambda>(_, e). \<not> pending e \<and> al_expires_at e \<le> b) ?L)"
  have m: "mset ?L = mset (alive p)" using R by (simp add: rng_ok_def)
  have d: "distinct (map fst (alive p))" using p by (simp add: pool_ok_def map_like_def)
  have "mset (map fst ?L) = mset (map fst (alive p))" by (simp only: mset_map m)
  then have "distinct (map fst ?L)" using d mset_eq_imp_distinct_iff by blast
  then have "distinct ?ks" by (rule distinct_map_filter)
  moreover have "\<exists>e. get_entity k p = Some e \<and> \<not> pending e" if "k \<in> set ?ks" for k
    using that d mset_eq_setD[OF m] by (auto simp: get_entity_def)
  ultimately show thesis using that[of ?ks] by (simp add: promote_expired_def)
qed

lemma promote_ok:
  assumes "rng_ok R" "pool_ok p"
  shows "pool_ok (promote_expired R b p) \<and> expired_pending (promote_expired R b p) = expired_pending p \<and>
    (\<forall>k e. get_entity k p = Some e \<longrightarrow> pending e \<longrightarrow> get_entity k (promote_expired R b p) = Some e) \<and>
    (\<forall>k e. get_entity k (promote_expired R b p) = Some e \<longrightarrow> get_entity k p = Some e)"
proof -
  obtain ks where ks: "promote_expired R b p = expire_keys ks p" "distinct ks"
    "\<forall>k \<in> set ks. \<exists>e. get_entity k p = Some e \<and> \<not> pending e"
    by (rule promote_effect[OF assms])
  have none: "get_entity k p = None" if "k \<in> set (expired p) \<union> set (expired_pending p)" for k
    using assms(2) that by (simp add: pool_ok_def)
  then have apart: "k \<notin> set ks" if "k \<in> set (expired p) \<union> set (expired_pending p)" for k
    using ks(3) that by fastforce
  have "pool_ok (expire_keys ks p)"
    using assms(2) ks(2) apart none by (auto simp: pool_ok_def expire_keys_effect)
  moreover have "get_entity k (expire_keys ks p) = Some e" if "get_entity k p = Some e" "pending e" for k e
    using ks(3) that by (auto simp: expire_keys_effect)
  ultimately show ?thesis unfolding ks(1) by (auto simp: expire_keys_effect split: if_splits)
qed

subsection \<open>Building a batch\<close>

lemma sbind_eq_Inr: "sbind m f s = Inr (y, s') \<longleftrightarrow> (\<exists>x s1. m s = Inr (x, s1) \<and> f x s1 = Inr (y, s'))"
  by (auto simp: sbind_def split: sum.splits)

lemma sim_prims_Inr:
  "random_range R lo hi s = Inr (n, s') \<longleftrightarrow> lo < hi \<and> n = fst (rnd R lo hi (the_rng s)) \<and>
     s' = s\<lparr>the_rng := snd (rnd R lo hi (the_rng s))\<rparr>"
  "get_pool s = Inr (p, s') \<longleftrightarrow> p = the_pool s \<and> s' = s"
  "change_pool f s = Inr (u, s') \<longleftrightarrow> s' = s\<lparr>the_pool := f (the_pool s)\<rparr>"
  "sret x s = Inr (y, s') \<longleftrightarrow> y = x \<and> s' = s"
  by (auto simp: random_range_def get_pool_def change_pool_def sret_def split: prod.splits)

lemma sim_random_Inr:
  "random_payload R n s = Inr (bs, s') \<Longrightarrow> the_pool s' = the_pool s"
  "random_content_type R B s = Inr (m, s') \<Longrightarrow> the_pool s' = the_pool s"
  "pick_op_kind R ws i ma n c s = Inr (k, s') \<Longrightarrow> the_pool s' = the_pool s"
  by (auto simp: random_payload_def random_content_type_def pick_op_kind_def sbind_eq_Inr sim_prims_Inr Let_def
      split: prod.splits option.splits if_splits)

lemma pick_owned_Inr:
  assumes R: "rng_ok R" and p: "map_like (the_pool s)" and r: "pick_owned_alive R i s = Inr (Some k, s')"
  shows "the_pool s' = the_pool s \<and> (\<exists>e. get_entity k (the_pool s) = Some e \<and> owner_idx e = i \<and> \<not> pending e)"
proof -
  let ?L = "hash_order R (alive (the_pool s))"
  have m: "set ?L = set (alive (the_pool s))"
    using R by (intro mset_eq_setD) (simp add: rng_ok_def)
  have "fst (choose_key R (map fst (filter (\<lambda>(_, e). owner_idx e = i \<and> \<not> pending e) ?L)) (the_rng s)) = Some k"
    using r by (auto simp: pick_owned_alive_def split: prod.splits)
  then have "k \<in> set (map fst (filter (\<lambda>(_, e). owner_idx e = i \<and> \<not> pending e) ?L))"
    using R unfolding rng_ok_def by blast
  then obtain e where "(k, e) \<in> set (alive (the_pool s))" "owner_idx e = i" "\<not> pending e"
    using m by auto
  then show ?thesis
    using r p by (auto simp: get_entity_def map_like_def pick_owned_alive_def split: prod.splits)
qed

text \<open>What a planned operation takes from the pool, before the targets are marked.\<close>

definition ready :: "nat \<Rightarrow> nat \<Rightarrow> pool \<Rightarrow> planned_op \<Rightarrow> bool" where
  "ready n i p op \<longleftrightarrow> well_planned n i op \<and>
     (\<forall>k. pl_target op = Some k \<longrightarrow> (\<exists>e. get_entity k p = Some e \<and> owner_idx e = i \<and> \<not> pending e))"

definition took :: "pool \<Rightarrow> b256 list \<Rightarrow> pool \<Rightarrow> bool" where
  "took p ks p' \<longleftrightarrow> alive p' = alive p \<and> expired p = expired p' @ rev ks \<and> expired_pending p' = expired_pending p @ ks"

lemma took_refl [simp]: "took p [] p"
  by (simp add: took_def)

lemma took_trans: "took p ks p1 \<Longrightarrow> took p1 ks' p2 \<Longrightarrow> took p (ks @ ks') p2"
  by (simp add: took_def)

lemma ready_took: "took p ks p' \<Longrightarrow> ready n i p' = ready n i p"
  by (simp add: took_def ready_def get_entity_def fun_eq_iff)

lemma build_op_None:
  assumes "build_op R B kind i n b s = Inr (None, s')" "map_like (the_pool s)" "rng_ok R"
  shows "the_pool s' = the_pool s"
  using assms
  by (cases kind) (auto simp: build_op_def on_owned_def sbind_eq_Inr sim_prims_Inr Let_def pick_owned_alive_def
      dest: sim_random_Inr split: option.splits if_splits prod.splits)

lemma on_owned_Some:
  assumes R: "rng_ok R" and p: "map_like (the_pool s)" and r: "on_owned R i f s = Inr (Some op, s')"
  obtains k e s1 where "f k s1 = Inr (Some op, s')" "the_pool s1 = the_pool s"
    "get_entity k (the_pool s) = Some e" "owner_idx e = i" "\<not> pending e"
proof -
  obtain k s1 where "pick_owned_alive R i s = Inr (Some k, s1)" "f k s1 = Inr (Some op, s')"
    using r by (auto simp: on_owned_def sbind_eq_Inr sret_def split: option.splits)
  then show thesis using pick_owned_Inr[OF R p] that by blast
qed

lemma other_signer: "i < n \<Longrightarrow> 2 \<le> n \<Longrightarrow> (i + 1) mod n \<noteq> (i :: nat)"
  by (cases "i + 1 = n") auto

lemma build_op_Some:
  assumes R: "rng_ok R" and B: "expire_binding_ok B" and p: "map_like (the_pool s)" and i: "i < n"
    and two: "kind = KTransfer \<Longrightarrow> 2 \<le> n" and r: "build_op R B kind i n b s = Inr (Some op, s')"
  shows "ready n i (the_pool s) op \<and> took (the_pool s) (expire_targets [op]) (the_pool s')"
proof (cases kind)
  case KCreate
  then show ?thesis
    using r by (auto simp: build_op_def sbind_eq_Inr sim_prims_Inr ready_def well_planned_def dest!: sim_random_Inr)
next
  case KUpdate
  show ?thesis
    using r unfolding build_op_def KUpdate op_kind.case
    by (elim on_owned_Some[OF R p])
      (auto simp: sbind_eq_Inr sim_prims_Inr ready_def well_planned_def dest!: sim_random_Inr)
next
  case KExtend
  show ?thesis
    using r unfolding build_op_def KExtend op_kind.case
    by (elim on_owned_Some[OF R p])
      (auto simp: sbind_eq_Inr sim_prims_Inr ready_def well_planned_def Let_def split: option.splits)
next
  case KTransfer
  have less: "fst (rnd R 0 n g) < n" for g using R i by (auto simp: rng_ok_def)
  show ?thesis
    using r unfolding build_op_def KTransfer op_kind.case
    by (elim on_owned_Some[OF R p])
      (use less i other_signer[OF i two[OF KTransfer]] in
        \<open>auto simp: sbind_eq_Inr sim_prims_Inr ready_def well_planned_def Let_def\<close>)
next
  case KDelete
  show ?thesis
    using r unfolding build_op_def KDelete op_kind.case
    by (elim on_owned_Some[OF R p]) (auto simp: sim_prims_Inr ready_def well_planned_def)
next
  case KExpire
  show ?thesis
    using r B unfolding build_op_def KExpire op_kind.case
    by (auto simp: sbind_eq_Inr sim_prims_Inr ready_def well_planned_def took_def Let_def expire_binding_ok_def
        split: if_splits)
qed

lemma roll_loop_in: "roll_loop ws roll = Some k \<Longrightarrow> \<exists>w. (k, w) \<in> set ws"
  by (induction ws roll rule: roll_loop.induct) (auto split: if_splits)

lemma pick_transfer:
  assumes "pick_op_kind R ws i ma n c s = Inr (Some KTransfer, s')"
  shows "2 \<le> n"
  using assms
  by (auto simp: pick_op_kind_def sbind_eq_Inr sim_prims_Inr Let_def is_feasible_def
      dest!: roll_loop_in[OF sym] split: if_splits)

lemma batch_loop_Inr:
  assumes R: "rng_ok R" and B: "expire_binding_ok B" and p: "map_like (the_pool s)" and i: "i < n"
    and r: "batch_loop k R B ws i ma n b c ops s = Inr (res, s')"
  shows "\<exists>ks. took (the_pool s) ks (the_pool s') \<and>
    (\<forall>all. res = Some all \<longrightarrow> (\<exists>new. all = ops @ new \<and> list_all (ready n i (the_pool s)) new \<and> expire_targets new = ks))"
  using p r
proof (induction k arbitrary: c ops s)
  case 0
  then show ?case by (auto simp: sim_prims_Inr intro!: exI[of _ "[]"])
next
  case (Suc k)
  obtain kind s1 where s1: "pick_op_kind R ws i ma n c s = Inr (kind, s1)" "the_pool s1 = the_pool s"
    using Suc.prems(2) sim_random_Inr(3) by (fastforce simp: sbind_eq_Inr)
  show ?case
  proof (cases kind)
    case None
    then show ?thesis using Suc.prems(2) s1 by (auto simp: sbind_def sret_def intro!: exI[of _ "[]"])
  next
    case (Some kd)
    obtain planned s2 where s2: "build_op R B kd i n b s1 = Inr (planned, s2)"
      using Suc.prems(2) s1 Some by (auto simp: sbind_eq_Inr)
    have p1: "map_like (the_pool s1)" using Suc.prems(1) s1(2) by simp
    show ?thesis
    proof (cases planned)
      case None
      then show ?thesis
        using Suc.prems(2) s1 s2 Some build_op_None[OF _ p1 R] by (auto simp: sbind_def sret_def intro!: exI[of _ "[]"])
    next
      case (Some op)
      have "kd = KTransfer \<Longrightarrow> 2 \<le> n" using pick_transfer s1(1) \<open>kind = Some kd\<close> by blast
      then have op: "ready n i (the_pool s) op" "took (the_pool s) (expire_targets [op]) (the_pool s2)"
        using build_op_Some[OF R B p1 i _ s2[unfolded Some]] s1(2) by simp_all
      have p2: "map_like (the_pool s2)" using op(2) Suc.prems(1) by (simp add: took_def map_like_def)
      have "batch_loop k R B ws i ma n b (if pl_kind op = KCreate then c + 1 else c) (ops @ [op]) s2 = Inr (res, s')"
        using Suc.prems(2) s1 s2 Some \<open>kind = Some kd\<close> by (simp add: sbind_def)
      from Suc.IH[OF p2 this] obtain ks where ks: "took (the_pool s2) ks (the_pool s')"
        "\<forall>all. res = Some all \<longrightarrow> (\<exists>new. all = (ops @ [op]) @ new \<and> list_all (ready n i (the_pool s2)) new \<and>
          expire_targets new = ks)" by blast
      show ?thesis
      proof (intro exI[of _ "expire_targets [op] @ ks"] conjI allI impI)
        show "took (the_pool s) (expire_targets [op] @ ks) (the_pool s')" by (rule took_trans[OF op(2) ks(1)])
        fix all assume "res = Some all"
        then obtain new where new: "all = (ops @ [op]) @ new" "list_all (ready n i (the_pool s2)) new"
          "expire_targets new = ks" using ks(2) by blast
        have "list_all (ready n i (the_pool s)) (op # new)"
          using new(2) op(1) unfolding ready_took[OF op(2)] by simp
        then show "\<exists>new. all = ops @ new \<and> list_all (ready n i (the_pool s)) new \<and>
            expire_targets new = expire_targets [op] @ ks"
          using new by (intro exI[of _ "op # new"]) simp
      qed
    qed
  qed
qed

lemma mark_fold:
  "get_entity k (fold mark_pending ops p) =
     (if k \<in> targets ops then map_option (\<lambda>e. e\<lparr>pending := True\<rparr>) (get_entity k p) else get_entity k p)"
  "expired (fold mark_pending ops p) = expired p" "expired_pending (fold mark_pending ops p) = expired_pending p"
  "map_like p \<Longrightarrow> map_like (fold mark_pending ops p)"
  by (induction ops arbitrary: p)
    (auto simp: mark_pending_def option.map_comp comp_def split: option.split)

lemma sent_fold:
  "get_entity k (fold (\<lambda>op. record_sent (pl_kind op)) ops p) = get_entity k p"
  "expired (fold (\<lambda>op. record_sent (pl_kind op)) ops p) = expired p"
  "expired_pending (fold (\<lambda>op. record_sent (pl_kind op)) ops p) = expired_pending p"
  "map_like (fold (\<lambda>op. record_sent (pl_kind op)) ops p) = map_like p"
  by (induction ops arbitrary: p) simp_all

definition plan_ops :: "batch_plan option \<Rightarrow> planned_op list" where
  "plan_ops plan = (case plan of None \<Rightarrow> [] | Some bp \<Rightarrow> bp_ops bp)"

lemma took_get: "took p ks p' \<Longrightarrow> get_entity k p' = get_entity k p" "took p ks p' \<Longrightarrow> map_like p' = map_like p"
  by (simp_all add: took_def get_entity_def map_like_def)

text \<open>What planning does to the pool, whether or not it yields a batch.\<close>

definition planned_from :: "nat \<Rightarrow> nat \<Rightarrow> pool \<Rightarrow> batch_plan option \<Rightarrow> b256 list \<Rightarrow> pool \<Rightarrow> bool" where
  "planned_from n i p plan ks p' \<longleftrightarrow> map_like p' \<and> expired p = expired p' @ rev ks \<and>
     expired_pending p' = expired_pending p @ ks \<and> list_all (ready n i p) (plan_ops plan) \<and>
     (\<forall>k. get_entity k p' = (if k \<in> targets (plan_ops plan)
        then map_option (\<lambda>e. e\<lparr>pending := True\<rparr>) (get_entity k p) else get_entity k p)) \<and>
     (\<forall>bp. plan = Some bp \<longrightarrow> expire_targets (bp_ops bp) = ks \<and> bp_signer_idx bp = i)"

lemma build_batch_Inr:
  assumes R: "rng_ok R" and B: "expire_binding_ok B" and p: "map_like (the_pool s)" and i: "i < n"
    and r: "build_batch R B i ws ma mo n b s = Inr (plan, s')"
  shows "\<exists>ks. planned_from n i (the_pool s) plan ks (the_pool s')"
proof -
  obtain size s0 res s1 where s0: "the_pool s0 = the_pool s"
    and loop: "batch_loop size R B ws i ma n b 0 [] s0 = Inr (res, s1)"
    and rest: "(case res of None \<Rightarrow> sret None | Some ops \<Rightarrow> if ops = [] then sret None else
      sbind (change_pool (fold mark_pending ops)) (\<lambda>_.
      sbind (change_pool (fold (\<lambda>op. record_sent (pl_kind op)) ops)) (\<lambda>_.
      sret (Some \<lparr>bp_signer_idx = i, bp_ops = ops\<rparr>)))) s1 = Inr (plan, s')"
  proof -
    obtain size s0 where "random_range R 1 (max mo 1 + 1) s = Inr (size, s0)" and
      L: "sbind (batch_loop size R B ws i ma n b 0 []) (\<lambda>r. case r of None \<Rightarrow> sret None
        | Some ops \<Rightarrow> if ops = [] then sret None else
          sbind (change_pool (fold mark_pending ops)) (\<lambda>_.
          sbind (change_pool (fold (\<lambda>op. record_sent (pl_kind op)) ops)) (\<lambda>_.
          sret (Some \<lparr>bp_signer_idx = i, bp_ops = ops\<rparr>)))) s0 = Inr (plan, s')"
      using r unfolding build_batch_def by (subst (asm) sbind_eq_Inr) blast
    then have s0: "the_pool s0 = the_pool s" by (simp only: sim_prims_Inr(1)) simp
    from L show thesis by (subst (asm) sbind_eq_Inr) (use that s0 in blast)
  qed
  obtain ks where ks: "took (the_pool s) ks (the_pool s1)"
    "\<forall>all. res = Some all \<longrightarrow> (\<exists>new. all = [] @ new \<and> list_all (ready n i (the_pool s)) new \<and> expire_targets new = ks)"
    using batch_loop_Inr[OF R B _ i loop] p unfolding s0 by blast
  have none: "planned_from n i (the_pool s) None ks (the_pool s1)"
    using ks(1) p took_get[OF ks(1)] by (simp add: planned_from_def plan_ops_def took_def)
  show ?thesis
  proof (cases "res = None \<or> res = Some []")
    case True
    then show ?thesis using rest none by (auto simp: sim_prims_Inr)
  next
    case False
    then obtain ops where ops: "res = Some ops" "ops \<noteq> []" by auto
    then have "plan = Some \<lparr>bp_signer_idx = i, bp_ops = ops\<rparr>"
      "the_pool s' = fold (\<lambda>op. record_sent (pl_kind op)) ops (fold mark_pending ops (the_pool s1))"
      using rest by (simp_all add: sbind_eq_Inr sim_prims_Inr)
    then have "planned_from n i (the_pool s) plan ks (the_pool s')"
      using ks ops p took_get[OF ks(1)]
      by (simp add: planned_from_def plan_ops_def sent_fold mark_fold took_def del: fold_simps)
    then show ?thesis by blast
  qed
qed

subsection \<open>A tick keeps the invariant\<close>

lemma driver_okD:
  assumes "driver_ok n d"
  shows "pool_ok (pool_of d)" "in_flight d i = Some plan \<Longrightarrow> batch_ok n (pool_of d) i plan"
    "in_flight d i = Some plan \<Longrightarrow> in_flight d j = Some plan' \<Longrightarrow> i \<noteq> j \<Longrightarrow>
      set (expire_targets (bp_ops plan)) \<inter> set (expire_targets (bp_ops plan')) = {}"
    "get_entity k (pool_of d) = Some e \<Longrightarrow> pending e \<Longrightarrow>
      \<exists>plan. in_flight d (owner_idx e) = Some plan \<and> k \<in> targets (bp_ops plan)"
  using assms unfolding driver_ok_def by blast+

lemma driver_okI:
  assumes "pool_ok (pool_of d)" "\<And>i plan. in_flight d i = Some plan \<Longrightarrow> batch_ok n (pool_of d) i plan"
    "\<And>i j plan plan'. in_flight d i = Some plan \<Longrightarrow> in_flight d j = Some plan' \<Longrightarrow> i \<noteq> j \<Longrightarrow>
      set (expire_targets (bp_ops plan)) \<inter> set (expire_targets (bp_ops plan')) = {}"
    "\<And>k e. get_entity k (pool_of d) = Some e \<Longrightarrow> pending e \<Longrightarrow>
      \<exists>plan. in_flight d (owner_idx e) = Some plan \<and> k \<in> targets (bp_ops plan)"
  shows "driver_ok n d"
  using assms unfolding driver_ok_def by blast

lemma idle_slot_Some: "idle_slot n fl = Some i \<Longrightarrow> i < n \<and> fl i = None"
  by (auto simp: idle_slot_def find_Some_iff)

lemma planned_pool_ok:
  assumes q: "pool_ok q" and P: "planned_from n i q plan ks p'"
  shows "pool_ok p'" "set ks \<inter> set (expired_pending q) = {}" "distinct ks"
proof -
  have f: "map_like p'" "expired q = expired p' @ rev ks" "expired_pending p' = expired_pending q @ ks"
    using P by (simp_all add: planned_from_def)
  have d: "distinct (expired p' @ rev ks @ expired_pending q)" using q f(2) by (simp add: pool_ok_def)
  then show "set ks \<inter> set (expired_pending q) = {}" "distinct ks" by auto
  have "get_entity k p' = None" if "k \<in> set (expired p') \<union> set (expired_pending p')" for k
  proof -
    have "get_entity k q = None" using q that f(2,3) by (auto simp: pool_ok_def)
    then show ?thesis using P by (simp add: planned_from_def)
  qed
  then show "pool_ok p'" using f d by (auto simp: pool_ok_def)
qed

lemma planned_batch_ok:
  assumes q: "pool_ok q" and P: "planned_from n i q (Some bp) ks p'" and i: "i < n"
  shows "batch_ok n p' i bp"
proof -
  have r: "list_all (ready n i q) (bp_ops bp)" using P by (simp add: planned_from_def plan_ops_def)
  have "\<exists>e. get_entity k p' = Some e \<and> owner_idx e = i \<and> pending e" if k: "k \<in> targets (bp_ops bp)" for k
  proof -
    obtain e where "get_entity k q = Some e" "owner_idx e = i"
      using r k unfolding list_all_iff ready_def targets_def by blast
    then show ?thesis using P k by (simp add: planned_from_def plan_ops_def)
  qed
  moreover have "list_all (well_planned n i) (bp_ops bp)" using r by (simp add: list_all_iff ready_def)
  ultimately show ?thesis
    using P planned_pool_ok(3)[OF q P] i by (auto simp: batch_ok_def planned_from_def)
qed

lemma tick_ok:
  assumes R: "rng_ok R" and B: "expire_binding_ok B" and d: "driver_ok n d"
    and i: "idle_slot n (in_flight d) = Some i"
    and r: "build_batch R B i ws ma mo n b ((d_sim d)\<lparr>the_pool := promote_expired R b' (pool_of d)\<rparr>) = Inr (plan, s)"
  shows "driver_ok n (d\<lparr>d_sim := s, in_flight := (in_flight d)(i := plan)\<rparr>)"
proof -
  let ?q = "promote_expired R b' (pool_of d)" and ?p = "the_pool s"
  have i: "i < n" "in_flight d i = None" using idle_slot_Some[OF i] by simp_all
  note Q = promote_ok[OF R driver_okD(1)[OF d], of b']
  then have q: "pool_ok ?q" by blast
  have "map_like ?q" using q by (simp add: pool_ok_def)
  then obtain ks where P: "planned_from n i ?q plan ks ?p"
    using build_batch_Inr[OF R B _ i(1) r] by auto
  have pend: "set (expired_pending (pool_of d)) \<subseteq> set (expired_pending ?p)"
    using P Q by (auto simp: planned_from_def)
  have keep: "batch_ok n ?p j bp" if "in_flight d j = Some bp" for j bp
  proof -
    have b: "batch_ok n (pool_of d) j bp" by (rule driver_okD(2)[OF d that])
    have "\<exists>e. get_entity k ?p = Some e \<and> owner_idx e = j \<and> pending e" if k: "k \<in> targets (bp_ops bp)" for k
    proof -
      obtain e where e: "get_entity k (pool_of d) = Some e" "owner_idx e = j" "pending e"
        using b k by (auto simp: batch_ok_def)
      then have "get_entity k ?q = Some e" using Q by blast
      then show ?thesis using P e by (auto simp: planned_from_def)
    qed
    then show ?thesis using b pend by (auto simp: batch_ok_def)
  qed
  have new: "bp_signer_idx bp = i" "expire_targets (bp_ops bp) = ks" "batch_ok n ?p i bp" if "plan = Some bp" for bp
    using P planned_batch_ok[OF q _ i(1)] that by (auto simp: planned_from_def)
  have apart: "set (expire_targets (bp_ops bp)) \<inter> set ks = {}" if "in_flight d j = Some bp" for j bp
  proof -
    have "set (expire_targets (bp_ops bp)) \<subseteq> set (expired_pending (pool_of d))"
      using driver_okD(2)[OF d that] by (simp add: batch_ok_def)
    moreover have "expired_pending ?q = expired_pending (pool_of d)" using Q by blast
    ultimately show ?thesis using planned_pool_ok(2)[OF q P] by auto
  qed
  have owned: "\<exists>bp. ((in_flight d)(i := plan)) (owner_idx e) = Some bp \<and> k \<in> targets (bp_ops bp)"
    if e: "get_entity k ?p = Some e" "pending e" for k e
  proof (cases "k \<in> targets (plan_ops plan)")
    case True
    then obtain bp where bp: "plan = Some bp" "k \<in> targets (bp_ops bp)" by (cases plan) (auto simp: plan_ops_def)
    then have "owner_idx e = i" using new(3)[OF bp(1)] e by (auto simp: batch_ok_def)
    then show ?thesis using bp by simp
  next
    case False
    then have "get_entity k ?q = Some e" using P e(1) by (simp add: planned_from_def)
    then have "get_entity k (pool_of d) = Some e" using Q by blast
    then show ?thesis using driver_okD(4)[OF d _ e(2)] i(2) by fastforce
  qed
  show ?thesis
  proof (rule driver_okI)
    fix j bp assume "in_flight (d\<lparr>d_sim := s, in_flight := (in_flight d)(i := plan)\<rparr>) j = Some bp"
    then show "batch_ok n (pool_of (d\<lparr>d_sim := s, in_flight := (in_flight d)(i := plan)\<rparr>)) j bp"
      using keep[of j bp] new(3)[of bp] by (cases "j = i") simp_all
  next
    fix j k bp bp'
    assume "in_flight (d\<lparr>d_sim := s, in_flight := (in_flight d)(i := plan)\<rparr>) j = Some bp"
      "in_flight (d\<lparr>d_sim := s, in_flight := (in_flight d)(i := plan)\<rparr>) k = Some bp'" "j \<noteq> k"
    then show "set (expire_targets (bp_ops bp)) \<inter> set (expire_targets (bp_ops bp')) = {}"
      using new(2)[of bp] new(2)[of bp'] apart[of j bp] apart[of k bp'] driver_okD(3)[OF d, of j bp k bp']
      by (cases "j = i"; cases "k = i") (simp_all add: Int_commute)
  qed (use planned_pool_ok(1)[OF q P] owned in simp_all)
qed

subsection \<open>A receipt keeps the invariant\<close>

text \<open>\<open>settled K p p'\<close>: from \<open>p\<close> to \<open>p'\<close> nothing changed outside \<open>K\<close>, and nothing in \<open>K\<close> is pending.\<close>

definition settled :: "b256 set \<Rightarrow> pool \<Rightarrow> pool \<Rightarrow> bool" where
  "settled K p p' \<longleftrightarrow> (\<forall>k. if k \<in> K then (\<forall>e. get_entity k p' = Some e \<longrightarrow> \<not> pending e)
     else get_entity k p' = get_entity k p)"

lemma settled_trans: "settled K p p1 \<Longrightarrow> settled K' p1 p2 \<Longrightarrow> settled (K \<union> K') p p2"
  unfolding settled_def by (metis Un_iff)

lemma settled_empty: "(\<And>k. get_entity k p' = get_entity k p) \<Longrightarrow> settled {} p p'"
  by (simp add: settled_def)

lemma finish_ok:
  assumes d: "driver_ok n d" and plan: "in_flight d i = Some plan" and S: "settled K (pool_of d) p'"
    and K: "targets (bp_ops plan) \<subseteq> K" "\<And>k. k \<in> K \<Longrightarrow> k \<notin> targets (bp_ops plan) \<Longrightarrow>
      get_entity k (pool_of d) = None \<and> k \<notin> set (expired (pool_of d)) \<and> k \<notin> set (expired_pending (pool_of d))"
    and p': "map_like p'" "distinct (expired p' @ expired_pending p')"
    "set (expired p') \<union> set (expired_pending p') \<subseteq> set (expired (pool_of d)) \<union> set (expired_pending (pool_of d))"
    "set (expired_pending (pool_of d)) - set (expire_targets (bp_ops plan)) \<subseteq> set (expired_pending p')"
  shows "driver_ok n ((set_pool p' d)\<lparr>in_flight := (in_flight d)(i := None)\<rparr>)"
proof -
  let ?p = "pool_of d"
  have mine: "\<exists>e. get_entity k ?p = Some e \<and> owner_idx e = i" if "k \<in> targets (bp_ops plan)" for k
    using driver_okD(2)[OF d plan] that by (auto simp: batch_ok_def)
  have same: "get_entity k p' = get_entity k ?p" if "k \<notin> K" for k using S that by (simp add: settled_def)
  have none: "get_entity k p' = None" if k: "k \<in> set (expired p') \<union> set (expired_pending p')" for k
  proof -
    have "get_entity k ?p = None" using driver_okD(1)[OF d] p'(3) k by (auto simp: pool_ok_def)
    moreover have "k \<notin> K" using K(2)[of k] mine[of k] calculation p'(3) k by auto
    ultimately show ?thesis using same by simp
  qed
  have other: "batch_ok n p' j bp" if j: "in_flight d j = Some bp" "j \<noteq> i" for j bp
  proof -
    have b: "batch_ok n ?p j bp" by (rule driver_okD(2)[OF d j(1)])
    have "\<exists>e. get_entity k p' = Some e \<and> owner_idx e = j \<and> pending e" if k: "k \<in> targets (bp_ops bp)" for k
    proof -
      obtain e where e: "get_entity k ?p = Some e" "owner_idx e = j" "pending e" using b k by (auto simp: batch_ok_def)
      then have "k \<notin> K" using K(2)[of k] mine[of k] j(2) by auto
      then show ?thesis using same e by simp
    qed
    moreover have "set (expire_targets (bp_ops bp)) \<subseteq> set (expired_pending p')"
      using b driver_okD(3)[OF d j(1) plan j(2)] p'(4) by (auto simp: batch_ok_def)
    ultimately show ?thesis using b by (auto simp: batch_ok_def)
  qed
  have owned: "\<exists>bp. ((in_flight d)(i := None)) (owner_idx e) = Some bp \<and> k \<in> targets (bp_ops bp)"
    if e: "get_entity k p' = Some e" "pending e" for k e
  proof -
    have k: "k \<notin> K" using S e by (auto simp: settled_def)
    then have "get_entity k ?p = Some e" using same e(1) by simp
    then obtain bp where bp: "in_flight d (owner_idx e) = Some bp" "k \<in> targets (bp_ops bp)"
      using driver_okD(4)[OF d _ e(2)] by blast
    then have "owner_idx e \<noteq> i" using plan k K(1) by auto
    then show ?thesis using bp by simp
  qed
  show ?thesis
  proof (rule driver_okI)
    show "pool_ok (pool_of ((set_pool p' d)\<lparr>in_flight := (in_flight d)(i := None)\<rparr>))"
      using p'(1,2) none by (simp add: pool_ok_def set_pool_def)
  next
    fix j bp assume "in_flight ((set_pool p' d)\<lparr>in_flight := (in_flight d)(i := None)\<rparr>) j = Some bp"
    then show "batch_ok n (pool_of ((set_pool p' d)\<lparr>in_flight := (in_flight d)(i := None)\<rparr>)) j bp"
      using other[of j bp] by (cases "j = i") (simp_all add: set_pool_def)
  next
    fix j k bp bp'
    assume "in_flight ((set_pool p' d)\<lparr>in_flight := (in_flight d)(i := None)\<rparr>) j = Some bp"
      "in_flight ((set_pool p' d)\<lparr>in_flight := (in_flight d)(i := None)\<rparr>) k = Some bp'" "j \<noteq> k"
    then show "set (expire_targets (bp_ops bp)) \<inter> set (expire_targets (bp_ops bp')) = {}"
      using driver_okD(3)[OF d, of j bp k bp'] by (cases "j = i"; cases "k = i") simp_all
  qed (use owned in \<open>simp add: set_pool_def\<close>)
qed

lemma settle_modify:
  assumes "\<And>e. \<not> pending (f e)"
  shows "settled {k} p (modify_entity k f p)"
  using assms by (auto simp: settled_def)

lemma settle_others:
  "settled {k} p (remove_entity k p)" "\<not> pending e \<Longrightarrow> settled {k} p (insert_entity k e p)"
  "settled K p (record_confirmed x p') = settled K p p'" "settled K p (record_failed x p') = settled K p p'"
  "settled K p (p'\<lparr>expired_pending := y\<rparr>) = settled K p p'" "settled K p (p'\<lparr>expired := y\<rparr>) = settled K p p'"
  "settled {} p p"
  by (auto simp: settled_def)

lemma confirm_op_effect:
  assumes op: "well_planned n i op" and keys: "distinct keys" and r: "confirm_op i op (p, keys) = (p', keys')"
  shows "settled (targets [op] \<union> (set keys - set keys')) p p' \<and> set keys' \<subseteq> set keys \<and> distinct keys' \<and>
    (map_like p \<longrightarrow> map_like p') \<and> expired p' = expired p \<and>
    expired_pending p' = fold remove1 (expire_targets [op]) (expired_pending p)"
proof (cases "pl_kind op")
  case KCreate
  have "set keys - set (butlast keys) = {last keys}" "set (butlast keys) \<subseteq> set keys" "distinct (butlast keys)" if "keys \<noteq> []"
    using keys that by (cases keys rule: rev_cases; auto)+
  then show ?thesis
    using KCreate op r keys
    by (auto simp: confirm_op_def Let_def well_planned_def settle_others split: if_splits)
next
  case KTransfer
  then show ?thesis
    using op r keys by (auto simp: confirm_op_def Let_def well_planned_def settle_others intro!: settle_modify)
next
  case KUpdate
  then show ?thesis
    using op r keys by (auto simp: confirm_op_def Let_def well_planned_def settle_others intro!: settle_modify)
next
  case KExtend
  then show ?thesis
    using op r keys by (auto simp: confirm_op_def Let_def well_planned_def settle_others intro!: settle_modify)
qed (use op r keys in \<open>auto simp: confirm_op_def Let_def well_planned_def settle_others\<close>)

lemma settled_mono: "settled K p p' \<Longrightarrow> (\<And>k e. k \<in> L \<Longrightarrow> k \<notin> K \<Longrightarrow> get_entity k p = Some e \<Longrightarrow> \<not> pending e) \<Longrightarrow>
    K \<subseteq> L \<Longrightarrow> settled L p p'"
  unfolding settled_def by (metis subsetD)

lemma confirm_fold:
  assumes "list_all (well_planned n i) ops" "distinct keys" "fold (confirm_op i) ops (p, keys) = (p', keys')"
  shows "settled (targets ops \<union> (set keys - set keys')) p p' \<and> set keys' \<subseteq> set keys \<and> distinct keys' \<and>
    (map_like p \<longrightarrow> map_like p') \<and> expired p' = expired p \<and>
    expired_pending p' = fold remove1 (expire_targets ops) (expired_pending p)"
  using assms
proof (induction ops arbitrary: p keys)
  case Nil
  then show ?case by (simp add: settle_others)
next
  case (Cons op ops)
  obtain p1 keys1 where s1: "confirm_op i op (p, keys) = (p1, keys1)" by (rule prod.exhaust)
  have A: "settled (targets [op] \<union> (set keys - set keys1)) p p1 \<and> set keys1 \<subseteq> set keys \<and> distinct keys1 \<and>
      (map_like p \<longrightarrow> map_like p1) \<and> expired p1 = expired p \<and>
      expired_pending p1 = fold remove1 (expire_targets [op]) (expired_pending p)"
    using Cons.prems by (intro confirm_op_effect[where n = n, OF _ _ s1]) simp_all
  have B: "settled (targets ops \<union> (set keys1 - set keys')) p1 p' \<and> set keys' \<subseteq> set keys1 \<and> distinct keys' \<and>
      (map_like p1 \<longrightarrow> map_like p') \<and> expired p' = expired p1 \<and>
      expired_pending p' = fold remove1 (expire_targets ops) (expired_pending p1)"
    using Cons.prems s1 A by (intro Cons.IH) simp_all
  have "targets (op # ops) \<union> (set keys - set keys') =
      (targets [op] \<union> (set keys - set keys1)) \<union> (targets ops \<union> (set keys1 - set keys'))"
    using A B by auto
  moreover have "settled ((targets [op] \<union> (set keys - set keys1)) \<union> (targets ops \<union> (set keys1 - set keys'))) p p'"
    using A B settled_trans by blast
  moreover have "fold remove1 (expire_targets (op # ops)) (expired_pending p) =
      fold remove1 (expire_targets ops) (expired_pending p1)"
    using A by simp
  ultimately show ?case using A B subset_trans[of "set keys'" "set keys1" "set keys"] by simp
qed

lemma set_fold_remove1: "distinct xs \<Longrightarrow> set (fold remove1 ks xs) = set xs - set ks \<and> distinct (fold remove1 ks xs)"
  by (induction ks arbitrary: xs) (auto simp: distinct_remove1)

lemma fail_fold:
  assumes "list_all (well_planned n i) ops" "distinct (expire_targets ops)"
    "set (expire_targets ops) \<subseteq> set (expired_pending p)" "distinct (expired_pending p)" "fold fail_op ops p = p'"
  shows "settled (targets ops) p p' \<and> (map_like p \<longrightarrow> map_like p') \<and> expired p' = expired p @ expire_targets ops \<and>
    expired_pending p' = fold remove1 (expire_targets ops) (expired_pending p)"
  using assms
proof (induction ops arbitrary: p)
  case Nil
  then show ?case by (simp add: settle_others)
next
  case (Cons op ops)
  have w: "well_planned n i op" using Cons.prems(1) by simp
  let ?p = "fail_op op p"
  have A: "settled (targets [op]) p ?p" "map_like p \<longrightarrow> map_like ?p" "expired ?p = expired p @ expire_targets [op]"
    "expired_pending ?p = fold remove1 (expire_targets [op]) (expired_pending p)"
    using w Cons.prems(3) by (auto simp: fail_op_def Let_def settle_others well_planned_def
        intro!: settle_modify split: option.splits)
  have e: "set (expire_targets ops) \<subseteq> set (expired_pending ?p)" "distinct (expired_pending ?p)" "distinct (expire_targets ops)"
    using Cons.prems(2-4) A(4) set_fold_remove1[OF Cons.prems(4), of "expire_targets [op]"] by (auto split: if_splits)
  have "fold fail_op ops ?p = p'" using Cons.prems(5) by simp
  from Cons.IH[OF _ e(3) e(1) e(2) this] Cons.prems(1) have B: "settled (targets ops) ?p p'"
    "map_like ?p \<longrightarrow> map_like p'" "expired p' = expired ?p @ expire_targets ops"
    "expired_pending p' = fold remove1 (expire_targets ops) (expired_pending ?p)" by simp_all
  have "targets (op # ops) = targets [op] \<union> targets ops" by simp
  then show ?case using settled_trans[OF A(1) B(1)] A(2-) B(2-) by simp
qed

text \<open>The submission finds an address for every transfer, so it never panics.\<close>

lemma submitted_ok:
  assumes "list_all (well_planned (length addrs) i) ops"
  shows "\<exists>ops'. submitted addrs ops = Inr ops' \<and> list_all (well_planned (length addrs) i) ops' \<and>
    targets ops' = targets ops \<and> expire_targets ops' = expire_targets ops"
  using assms
proof (induction ops)
  case (Cons op ops)
  then obtain ops' where ops': "submitted addrs ops = Inr ops'" "list_all (well_planned (length addrs) i) ops'"
    "targets ops' = targets ops" "expire_targets ops' = expire_targets ops" by auto
  obtain op' where "with_owner addrs op = Inr op'" "well_planned (length addrs) i op'"
    "pl_target op' = pl_target op" "pl_kind op' = pl_kind op" "op_entity_key (pl_op op') = op_entity_key (pl_op op)"
  proof (cases "pl_kind op = KTransfer")
    case True
    then obtain j where "pl_new_owner_idx op = Some j" "j < length addrs" using Cons.prems by (auto simp: well_planned_def)
    then show thesis
      using True Cons.prems that[of "op\<lparr>pl_op := (pl_op op)\<lparr>op_new_owner := addrs ! j\<rparr>\<rparr>"]
      by (simp add: with_owner_def well_planned_def)
  next
    case False
    then show thesis using that[of op] Cons.prems by (simp add: with_owner_def)
  qed
  then show ?case using ops' by (simp add: try_then_def)
qed simp

lemma step_ok:
  assumes R: "rng_ok R" and B: "expire_binding_ok B" and d: "driver_ok (length (dr_signers args)) d"
    and s: "drive_step R B args d d'"
  shows "driver_ok (length (dr_signers args)) d'"
  using s
proof cases
  case (tick i block plan s)
  show ?thesis unfolding tick(1) by (rule tick_ok[OF R B d tick(2,3)])
next
  case (confirm i plan ops logs)
  let ?p = "pool_of d" and ?keys = "rev (created_in logs)"
  have b: "batch_ok (length (dr_signers args)) ?p i plan" by (rule driver_okD(2)[OF d confirm(2)])
  then have ops: "list_all (well_planned (length (dr_signers args)) i) ops" "targets ops = targets (bp_ops plan)"
    "expire_targets ops = expire_targets (bp_ops plan)" "bp_signer_idx plan = i"
    using submitted_ok[of "dr_signers args" i "bp_ops plan"] confirm(3) by (auto simp: batch_ok_def)
  have P: "map_like ?p" "distinct (expired ?p @ expired_pending ?p)" using driver_okD(1)[OF d] by (simp_all add: pool_ok_def)
  obtain p' keys' where p': "fold (confirm_op i) ops (?p, ?keys) = (p', keys')" by (rule prod.exhaust)
  have "distinct ?keys" using confirm(4) by (simp add: fresh_logs_def)
  note F = confirm_fold[OF ops(1) this p']
  have e: "set (expired_pending p') = set (expired_pending ?p) - set (expire_targets ops) \<and> distinct (expired_pending p')"
    using F set_fold_remove1[of "expired_pending ?p" "expire_targets ops"] P(2) by simp
  have "apply_success ops logs (bp_signer_idx plan) ?p = p'" using p' ops(4) by (simp add: apply_success_def)
  then show ?thesis
    unfolding confirm(1) using F e ops(2,3) P confirm(4)
    by (intro finish_ok[OF d confirm(2), where K = "targets ops \<union> (set ?keys - set keys')"])
      (auto simp: fresh_logs_def)
next
  case (fail i plan ops)
  let ?p = "pool_of d"
  have b: "batch_ok (length (dr_signers args)) ?p i plan" by (rule driver_okD(2)[OF d fail(2)])
  then have ops: "list_all (well_planned (length (dr_signers args)) i) ops" "targets ops = targets (bp_ops plan)"
    "expire_targets ops = expire_targets (bp_ops plan)" "distinct (expire_targets ops)"
    "set (expire_targets ops) \<subseteq> set (expired_pending ?p)"
    using submitted_ok[of "dr_signers args" i "bp_ops plan"] fail(3) by (auto simp: batch_ok_def)
  have P: "map_like ?p" "distinct (expired ?p @ expired_pending ?p)" using driver_okD(1)[OF d] by (simp_all add: pool_ok_def)
  then have dp: "distinct (expired_pending ?p)" by simp
  note F = fail_fold[OF ops(1,4,5) dp refl]
  have e: "set (expired_pending (fold fail_op ops ?p)) = set (expired_pending ?p) - set (expire_targets ops) \<and>
      distinct (expired_pending (fold fail_op ops ?p))"
    using F set_fold_remove1[OF dp, of "expire_targets ops"] by simp
  show ?thesis
    unfolding fail(1) apply_failure_def using F e ops(2-5) P
    by (intro finish_ok[OF d fail(2), where K = "targets ops"]) auto
next
  case (crash i plan e)
  have "batch_ok (length (dr_signers args)) (pool_of d) i plan" by (rule driver_okD(2)[OF d crash(2)])
  then show ?thesis using submitted_ok[of "dr_signers args" i "bp_ops plan"] crash(3) by (auto simp: batch_ok_def)
qed

text \<open>
  C26. One batch per entity: however ticks and receipts interleave, in every state the load generator
  reaches no entity is live and queued for expiry at once, every operation in flight that targets an
  entity belongs to the batch of the signer the pool names as its owner, an entity is marked pending
  exactly while such a batch is in flight, no two batches expire the same entity, and every transfer
  in flight goes to another signer, so that submitting it cannot panic.
\<close>

theorem one_batch_per_entity:
  assumes "rng_ok R" "expire_binding_ok B" "drive_reach R B args g d"
  shows "driver_ok (length (dr_signers args)) d"
  using assms(3) unfolding drive_reach_def
proof (induction rule: rtranclp_induct)
  case base
  show ?case
    by (simp add: driver_ok_def start_driver_def empty_pool_def pool_ok_def map_like_def get_entity_def)
next
  case (step d d')
  then show ?case using step_ok[OF assms(1,2)] by blast
qed

subsection \<open>Reserved keys that are lost\<close>

text \<open>
  The early return of \<open>build_batch\<close> drops the operations planned so far, but not what they took: a
  key popped off the expiry queue stays reserved although no batch carries it, and is never offered
  again.
\<close>

definition lost :: "b256 \<Rightarrow> 'g driver \<Rightarrow> bool" where
  "lost k d \<longleftrightarrow> k \<in> set (expired_pending (pool_of d)) \<and>
     (\<forall>i plan. in_flight d i = Some plan \<longrightarrow> k \<notin> set (expire_targets (bp_ops plan)))"

lemma reserved_key_lost:
  assumes two: "2 \<le> fst (rnd R 1 (max mo 1 + 1) (the_rng s))" and e: "expired (the_pool s) = [k]"
    and none: "\<forall>(kind, weight) \<in> set ws. kind \<noteq> KCreate \<and> kind \<noteq> KExpire" "\<not> owned_available i (the_pool s)"
  shows "\<exists>s'. build_batch R B i ws ma mo n b s = Inr (None, s') \<and> expired (the_pool s') = [] \<and>
    expired_pending (the_pool s') = expired_pending (the_pool s) @ [k]"
proof -
  obtain m where m: "fst (rnd R 1 (max mo 1 + 1) (the_rng s)) = Suc (Suc m)"
    by (rule that[of "fst (rnd R 1 (max mo 1 + 1) (the_rng s)) - 2"]) (use two in linarith)
  have f: "filter (\<lambda>(k, w). 0 < w \<and> is_feasible k p i ma n c) ws = []"
    if "\<not> owned_available i p" for p c
    using none(1) that by (fastforce simp: filter_empty_conv is_feasible_def split: op_kind.splits)
  let ?p = "(the_pool s)\<lparr>expired := [], expired_pending := expired_pending (the_pool s) @ [k]\<rparr>"
  have o: "\<not> owned_available i ?p" using none(2) by (simp add: owned_available_def)
  have pick: "pick_op_kind R ws i ma n 0 s0 = Inr (Some KExpire, s0)" if "the_pool s0 = the_pool s" for s0
    using e that by (simp add: pick_op_kind_def sbind_def get_pool_def sret_def)
  have build: "build_op R B KExpire i n b s0 = Inr (Some \<lparr>pl_kind = KExpire, pl_op = op_expire_new B k,
      pl_target = None, pl_new_expires_at = None, pl_new_owner_idx = None\<rparr>, s0\<lparr>the_pool := ?p\<rparr>)"
    if "the_pool s0 = the_pool s" for s0
    using e that by (simp add: build_op_def sbind_def get_pool_def sret_def change_pool_def Let_def)
  have stop: "pick_op_kind R ws i ma n 0 s0 = Inr (None, s0)" if "the_pool s0 = ?p" for s0
    using that f[OF o] by (simp add: pick_op_kind_def sbind_def get_pool_def sret_def Let_def)
  have loop: "batch_loop (Suc (Suc m)) R B ws i ma n b 0 [] s0 = Inr (None, s0\<lparr>the_pool := ?p\<rparr>)"
    if "the_pool s0 = the_pool s" for s0
    using pick[OF that] build[OF that] stop[of "s0\<lparr>the_pool := ?p\<rparr>"]
    by (simp add: sbind_def sret_def)
  let ?s0 = "s\<lparr>the_rng := snd (rnd R 1 (max mo 1 + 1) (the_rng s))\<rparr>"
  have "random_range R 1 (max mo 1 + 1) s = Inr (Suc (Suc m), ?s0)"
    using m by (simp add: random_range_def case_prod_beta less_max_iff_disj)
  then have "build_batch R B i ws ma mo n b s = Inr (None, ?s0\<lparr>the_pool := ?p\<rparr>)"
    using loop[of ?s0] unfolding build_batch_def
    by (simp only: sbind_def[of "random_range R 1 (max mo 1 + 1)"] sbind_def[of "batch_loop (Suc (Suc m)) R B ws i ma n b 0 []"])
      (simp add: sret_def sbind_def del: batch_loop.simps)
  then show ?thesis by simp
qed

lemma lost_step:
  assumes R: "rng_ok R" and B: "expire_binding_ok B" and d: "driver_ok (length (dr_signers args)) d"
    and l: "lost k d" and s: "drive_step R B args d d'"
  shows "lost k d'"
  using s
proof cases
  case (tick i block plan s)
  let ?q = "promote_expired R (ucast block) (pool_of d)"
  note Q = promote_ok[OF R driver_okD(1)[OF d], of "ucast block"]
  then have "map_like ?q" "i < length (dr_signers args)" using idle_slot_Some[OF tick(2)] by (simp_all add: pool_ok_def)
  then obtain ks where P: "planned_from (length (dr_signers args)) i ?q plan ks (the_pool s)"
    using build_batch_Inr[OF R B _ _ tick(3)] by auto
  have q: "expired_pending ?q = expired_pending (pool_of d)" "pool_ok ?q" using Q by blast+
  have "k \<notin> set ks" using planned_pool_ok(2)[OF q(2) P] l q(1) by (auto simp: lost_def)
  moreover have "expired_pending (the_pool s) = expired_pending (pool_of d) @ ks"
    "\<And>bp. plan = Some bp \<Longrightarrow> expire_targets (bp_ops bp) = ks"
    using P q(1) by (simp_all add: planned_from_def)
  ultimately show ?thesis using l unfolding tick(1) by (auto simp: lost_def split: if_splits)
next
  case (confirm i plan ops logs)
  have b: "batch_ok (length (dr_signers args)) (pool_of d) i plan" by (rule driver_okD(2)[OF d confirm(2)])
  then have ops: "list_all (well_planned (length (dr_signers args)) i) ops" "expire_targets ops = expire_targets (bp_ops plan)"
    "bp_signer_idx plan = i"
    using submitted_ok[of "dr_signers args" i "bp_ops plan"] confirm(3) by (auto simp: batch_ok_def)
  obtain p' keys' where p': "fold (confirm_op i) ops (pool_of d, rev (created_in logs)) = (p', keys')" by (rule prod.exhaust)
  have "distinct (rev (created_in logs))" using confirm(4) by (simp add: fresh_logs_def)
  from confirm_fold[OF ops(1) this p']
  have "expired_pending p' = fold remove1 (expire_targets ops) (expired_pending (pool_of d))" by blast
  moreover have "distinct (expired_pending (pool_of d))" using driver_okD(1)[OF d] by (simp add: pool_ok_def)
  ultimately have "k \<in> set (expired_pending p')"
    using set_fold_remove1[of "expired_pending (pool_of d)" "expire_targets ops"] l confirm(2) ops(2) by (auto simp: lost_def)
  moreover have "apply_success ops logs (bp_signer_idx plan) (pool_of d) = p'" using p' ops(3) by (simp add: apply_success_def)
  ultimately show ?thesis using l unfolding confirm(1) by (auto simp: lost_def set_pool_def)
next
  case (fail i plan ops)
  have b: "batch_ok (length (dr_signers args)) (pool_of d) i plan" by (rule driver_okD(2)[OF d fail(2)])
  then have ops: "list_all (well_planned (length (dr_signers args)) i) ops" "expire_targets ops = expire_targets (bp_ops plan)"
    "distinct (expire_targets ops)" "set (expire_targets ops) \<subseteq> set (expired_pending (pool_of d))"
    using submitted_ok[of "dr_signers args" i "bp_ops plan"] fail(3) by (auto simp: batch_ok_def)
  have dp: "distinct (expired_pending (pool_of d))" using driver_okD(1)[OF d] by (simp add: pool_ok_def)
  from fail_fold[OF ops(1,3,4) dp refl]
  have "expired_pending (apply_failure ops (pool_of d)) = fold remove1 (expire_targets ops) (expired_pending (pool_of d))"
    by (simp add: apply_failure_def)
  then have "k \<in> set (expired_pending (apply_failure ops (pool_of d)))"
    using set_fold_remove1[OF dp, of "expire_targets ops"] l fail(2) ops(2) by (auto simp: lost_def)
  then show ?thesis using l unfolding fail(1) by (auto simp: lost_def set_pool_def)
next
  case (crash i plan e)
  then show ?thesis using l by (auto simp: lost_def)
qed

text \<open>A lost key is lost in every later state: it never returns to the queue.\<close>

lemma lost_forever:
  assumes R: "rng_ok R" and B: "expire_binding_ok B" and d: "driver_ok (length (dr_signers args)) d"
    and l: "lost k d" and s: "(drive_step R B args)\<^sup>*\<^sup>* d d'"
  shows "lost k d' \<and> k \<notin> set (expired (pool_of d')) \<and> get_entity k (pool_of d') = None"
proof -
  have "driver_ok (length (dr_signers args)) d' \<and> lost k d'"
    using s by (induction rule: rtranclp_induct) (use d l step_ok[OF R B] lost_step[OF R B] in blast)+
  then show ?thesis by (auto simp: driver_ok_def lost_def pool_ok_def)
qed

end
