(* ===== verification/SimulateDemo.thy ===== *)
theory SimulateDemo
  imports SimulateInv Attributes
begin

text \<open>
  The load generator against the precompile: the creations it plans carry no payload
  reference and are refused; and a concrete run, on which the theorem about batches is applied.
\<close>

subsection \<open>What the precompile makes of the planned operations\<close>

definition bindings_ok :: "bindings \<Rightarrow> bool" where
  "bindings_ok B \<longleftrightarrow>
     (\<forall>btl p m as. op_create_new B btl p m as = \<lparr>operation_type = 1, op_entity_key = zero_b256, op_payload = p,
        op_content_type = m, op_attributes = as, op_btl = btl, op_new_owner = zero_address\<rparr>) \<and>
     (\<forall>k. op_entity_key (op_expire_new B k) = k) \<and>
     (\<forall>t m. mime_encode B t = Some m \<longrightarrow> mime128_to_bytes m = utf8 t)"

lemma TYPES_other: "t \<in> set TYPES \<Longrightarrow> utf8 t \<noteq> PAYLOAD_REFERENCE_CONTENT_TYPE"
proof -
  have "list_all (\<lambda>t. utf8 t \<noteq> PAYLOAD_REFERENCE_CONTENT_TYPE) TYPES" by code_simp
  then show "t \<in> set TYPES \<Longrightarrow> utf8 t \<noteq> PAYLOAD_REFERENCE_CONTENT_TYPE" by (simp add: list_all_iff)
qed

text \<open>Every creation the load generator plans is refused by the precompile, whatever the state.\<close>

lemma simulated_creates_revert:
  assumes B: "bindings_ok B" and R: "\<And>ts g t. fst (choose_type R ts g) = Some t \<Longrightarrow> t \<in> set ts"
    "\<And>g. 30 \<le> fst (rnd R 30 300 g) \<and> fst (rnd R 30 300 g) < 300"
    and p: "build_op R B KCreate i n b s = Inr (Some planned, s')"
  shows "\<exists>ct. apply_op C caller chain block (pl_op planned) st = Inl (Revert (PayloadReferenceRequired ct))"
proof -
  obtain life payload t m where op: "pl_op planned = op_create_new B (of_nat life) payload m []"
    "30 \<le> life" "life < 300" "mime_encode B t = Some m" "t \<in> set TYPES"
  proof -
    from p obtain life s1 len s2 payload s3 m where
      s: "random_range R 30 300 s = Inr (life, s1)" "random_content_type R B s3 = Inr (m, s')"
      "planned = \<lparr>pl_kind = KCreate, pl_op = op_create_new B (of_nat life) payload m [], pl_target = None,
        pl_new_expires_at = Some (ucast (b + of_nat life)), pl_new_owner_idx = None\<rparr>"
      by (auto simp: build_op_def sbind_eq_Inr sret_def)
    have "TYPES ! 0 \<in> set TYPES" by (simp add: TYPES_def)
    then obtain t where "mime_encode B t = Some m" "t \<in> set TYPES"
      using s(2) R(1)[of TYPES "the_rng s3"] by (auto simp: random_content_type_def split: prod.splits option.splits)
    then show thesis using that s(1,3) R(2)[of "the_rng s"] by (auto simp: sim_prims_Inr)
  qed
  have "(of_nat life :: u32) \<noteq> 0" using op(2,3) by (simp add: word_unat_eq_iff unat_of_nat)
  moreover have "mime128_to_bytes m \<noteq> PAYLOAD_REFERENCE_CONTENT_TYPE"
    using B op(4) TYPES_other[OF op(5)] by (simp add: bindings_ok_def)
  ultimately show ?thesis
    using B op(1) by (simp add: apply_op_def apply_create_def bindings_ok_def OP_CREATE_def Let_def sbind_def
        validate_required_payload_reference_def slift_revert_def slift_def sfail_def)
qed

subsection \<open>A run of the driver\<close>

definition low_rng :: "unit rng_lib" where
  "low_rng = \<lparr>rnd = \<lambda>lo hi g. (lo, g), choose_key = \<lambda>ks g. (if ks = [] then None else Some (hd ks), g),
     choose_type = \<lambda>ts g. (if ts = [] then None else Some (hd ts), g), fill_bytes = \<lambda>n g. (replicate n 0, g),
     hash_order = \<lambda>xs. xs\<rparr>"

definition plain_op :: "byte \<Rightarrow> b256 \<Rightarrow> operation" where
  "plain_op t k = \<lparr>operation_type = t, op_entity_key = k, op_payload = [], op_content_type = [], op_attributes = [],
     op_btl = 0, op_new_owner = zero_address\<rparr>"

definition plain_bindings :: bindings where
  "plain_bindings =
     \<lparr>op_create_new = \<lambda>btl p m as. \<lparr>operation_type = 1, op_entity_key = zero_b256, op_payload = p,
        op_content_type = m, op_attributes = as, op_btl = btl, op_new_owner = zero_address\<rparr>,
      op_update_new = \<lambda>k p m as. (plain_op 2 k)\<lparr>op_payload := p, op_content_type := m, op_attributes := as\<rparr>,
      op_extend_new = \<lambda>k btl. (plain_op 3 k)\<lparr>op_btl := btl\<rparr>,
      op_transfer_new = \<lambda>k a. (plain_op 4 k)\<lparr>op_new_owner := a\<rparr>,
      op_delete_new = plain_op 5, op_expire_new = plain_op 6,
      mime_encode = \<lambda>t. Some (pack_words (utf8 t))\<rparr>"

definition demo_args :: drive_args where
  "demo_args = \<lparr>dr_weights = [(KTransfer, 2), (KCreate, 1)], dr_max_alive = 10, dr_max_ops = 1,
     dr_signers = [replicate 20 1, replicate 20 2]\<rparr>"

lemma low_rng_ok: "rng_ok low_rng" "expire_binding_ok plain_bindings"
  by (simp_all add: rng_ok_def low_rng_def expire_binding_ok_def plain_bindings_def plain_op_def)

definition creating :: batch_plan where
  "creating = \<lparr>bp_signer_idx = 0, bp_ops = [\<lparr>pl_kind = KCreate,
     pl_op = op_create_new plain_bindings 30 (replicate 64 0) (pack_words (utf8 (hd TYPES))) [], pl_target = None,
     pl_new_expires_at = Some 130, pl_new_owner_idx = None\<rparr>]\<rparr>"

definition new_key :: b256 where "new_key = replicate 32 9"

definition create_log :: "event option list" where
  "create_log = [Some \<lparr>ev_entity_key = new_key, ev_operation_type = OP_CREATE, ev_owner = replicate 20 1, ev_expires_at = 130\<rparr>]"

definition created_pool :: pool where
  "created_pool = apply_success (bp_ops creating) create_log 0 (record_sent KCreate empty_pool)"

lemma created_alive: "alive created_pool = [(new_key, \<lparr>owner_idx = 0, al_expires_at = 130, pending = False\<rparr>)]"
  "expired created_pool = []" "expired_pending created_pool = []"
  by (simp_all add: created_pool_def apply_success_def creating_def create_log_def created_in_def confirm_op_def
      insert_entity_def record_sent_def record_confirmed_def empty_pool_def)

lemma first_tick:
  "build_batch low_rng plain_bindings 0 (dr_weights demo_args) 10 1 2 100 \<lparr>the_pool = empty_pool, the_rng = ()\<rparr> =
    Inr (Some creating, \<lparr>the_pool = record_sent KCreate empty_pool, the_rng = ()\<rparr>)"
  by (simp add: build_batch_def sbind_def random_range_def pick_op_kind_def get_pool_def build_op_def sret_def
      change_pool_def Let_def low_rng_def demo_args_def empty_pool_def is_feasible_def alive_count_def owned_available_def
      random_payload_def random_content_type_def plain_bindings_def creating_def TYPES_def mark_pending_def)

definition moving :: batch_plan where
  "moving = \<lparr>bp_signer_idx = 0, bp_ops = [\<lparr>pl_kind = KTransfer, pl_op = op_transfer_new plain_bindings new_key zero_address,
     pl_target = Some new_key, pl_new_expires_at = None, pl_new_owner_idx = Some 1\<rparr>]\<rparr>"

lemma second_tick:
  "build_batch low_rng plain_bindings 0 (dr_weights demo_args) 10 1 2 101 \<lparr>the_pool = created_pool, the_rng = ()\<rparr> =
    Inr (Some moving, \<lparr>the_pool = record_sent KTransfer (modify_entity new_key (\<lambda>e. e\<lparr>pending := True\<rparr>) created_pool),
      the_rng = ()\<rparr>)"
  by (simp add: build_batch_def sbind_def random_range_def pick_op_kind_def get_pool_def build_op_def sret_def
      change_pool_def Let_def low_rng_def demo_args_def created_alive is_feasible_def owned_available_def on_owned_def
      pick_owned_alive_def moving_def mark_pending_def)

lemma one_batch_per_entity_witness:
  "\<exists>d. drive_reach low_rng plain_bindings demo_args () d \<and> in_flight d 0 = Some moving \<and>
    get_entity new_key (pool_of d) = Some \<lparr>owner_idx = 0, al_expires_at = 130, pending = True\<rparr> \<and> driver_ok 2 d"
proof -
  let ?step = "drive_step low_rng plain_bindings demo_args"
  let ?d1 = "(start_driver ())\<lparr>d_sim := \<lparr>the_pool = record_sent KCreate empty_pool, the_rng = ()\<rparr>,
      in_flight := (\<lambda>_. None)(0 := Some creating)\<rparr>"
  let ?d2 = "(set_pool created_pool ?d1)\<lparr>in_flight := \<lambda>_. None\<rparr>"
  let ?p3 = "record_sent KTransfer (modify_entity new_key (\<lambda>e. e\<lparr>pending := True\<rparr>) created_pool)"
  let ?d3 = "?d2\<lparr>d_sim := \<lparr>the_pool = ?p3, the_rng = ()\<rparr>, in_flight := (\<lambda>_. None)(0 := Some moving)\<rparr>"
  have args: "length (dr_signers demo_args) = 2" "dr_max_alive demo_args = 10" "dr_max_ops demo_args = 1"
    by (simp_all add: demo_args_def)
  have idle: "idle_slot 2 (\<lambda>_. None) = Some 0" by (simp add: idle_slot_def upt_rec)
  have 1: "promote_expired low_rng b empty_pool = empty_pool" for b
    by (simp add: promote_expired_def low_rng_def empty_pool_def)
  have 2: "promote_expired low_rng (ucast (101 :: u64)) created_pool = created_pool"
    by (simp add: promote_expired_def low_rng_def created_alive)
  have "?step (start_driver ()) ?d1"
    using drive_step.tick[of demo_args "start_driver ()" 0 low_rng plain_bindings 100 "Some creating"
        "\<lparr>the_pool = record_sent KCreate empty_pool, the_rng = ()\<rparr>"] first_tick idle 1
    by (simp add: start_driver_def args)
  moreover have "?step ?d1 ?d2"
    using drive_step.confirm[of ?d1 0 creating demo_args "bp_ops creating" create_log low_rng plain_bindings]
    by (simp add: creating_def with_owner_def try_then_def fresh_logs_def created_in_def create_log_def get_entity_def
        empty_pool_def record_sent_def set_pool_def created_pool_def start_driver_def)
  moreover have "?step ?d2 ?d3"
    using drive_step.tick[of demo_args ?d2 0 low_rng plain_bindings 101 "Some moving" "\<lparr>the_pool = ?p3, the_rng = ()\<rparr>"]
      second_tick idle 2
    by (simp add: set_pool_def args)
  ultimately have "drive_reach low_rng plain_bindings demo_args () ?d3"
    unfolding drive_reach_def by (meson rtranclp.rtrancl_refl rtranclp.rtrancl_into_rtrancl)
  moreover have "get_entity new_key (pool_of ?d3) = Some \<lparr>owner_idx = 0, al_expires_at = 130, pending = True\<rparr>"
    by (simp add: get_entity_def[of _ created_pool] created_alive)
  moreover have "driver_ok 2 ?d3"
    using one_batch_per_entity[OF low_rng_ok calculation(1)] by (simp only: args)
  ultimately show ?thesis by (intro exI[of _ ?d3]) simp
qed

end
