(* ===== verification/Cli.thy ===== *)
theory Cli
  imports Simulate LexerPrint
begin

text \<open>
  The command line of \<open>crates/arkiv-cli/src/main.rs\<close>: splitting and parsing the attribute argument,
  payload arguments, and turning the operations of a batch file, with references to entities created
  earlier in the batch, into contract operations. The types of other crates (their parsers, the
  attribute and operation constructors) are the records \<open>cli_lib\<close> and \<open>bindings\<close>.
\<close>

subsection \<open>Batch attributes\<close>

datatype entity_key_ref = Literal b256 | Ref nat

datatype attribute_value = VUint u256 | VString ustring | VKey entity_key_ref

record batch_attribute =
  ba_name :: ustring
  ba_value :: attribute_value

datatype cli_error =
    EmptyBeforeComma
  | UnterminatedQuote uchar
  | EmptyAfterComma
  | MissingEquals
  | MissingName
  | MissingValue
  | MissingType
  | MissingNameBeforeType
  | UnknownType ustring
  | UnsupportedEscape uchar
  | UnfinishedEscape
  | UnescapedQuote
  | InvalidUint ustring
  | InvalidEntityKey ustring
  | InvalidAttribute nat ustring cli_error
  | InvalidName ustring
  | InvalidString
  | RefOutsideBatch nat
  | NotACreate nat
  | PayloadAndRandom
  | NoPayload
  | HexEmpty
  | HexOdd nat
  | HexInvalid uchar nat
  | HexDecode ustring
  | PayloadAndSize
  | InvalidContentType ustring
  | SlicePanic
  | EmptyBatchFile

record cli_lib =
  parse_u256 :: "ustring \<Rightarrow> u256 option"
  parse_b256 :: "ustring \<Rightarrow> b256 option"
  decode_hex :: "ustring \<Rightarrow> bytes option"
  ident_encode :: "ustring \<Rightarrow> b256 option"
  attribute_uint :: "b256 \<Rightarrow> u256 \<Rightarrow> op_attribute"
  attribute_string :: "b256 \<Rightarrow> bytes \<Rightarrow> op_attribute option"
  attribute_key :: "b256 \<Rightarrow> b256 \<Rightarrow> op_attribute"
  attribute_sort :: "op_attribute list \<Rightarrow> op_attribute list"

text \<open>
  The characters since the last separator are kept in \<open>cur\<close>; \<open>quote\<close> and \<open>escaped\<close> are the two
  flags of the loop.
\<close>

fun split_loop ::
  "ustring \<Rightarrow> ustring \<Rightarrow> uchar option \<Rightarrow> bool \<Rightarrow> ustring list \<Rightarrow> cli_error + ustring list" where
  "split_loop [] cur quote escaped parts =
     (case quote of
        Some q \<Rightarrow> Inl (UnterminatedQuote q)
      | None \<Rightarrow>
          let part = trim cur in
          if part = [] then Inl EmptyAfterComma else Inr (parts @ [part]))"
| "split_loop (c # cs) cur quote escaped parts =
     (if escaped then split_loop cs (cur @ [c]) quote False parts
      else if quote \<noteq> None \<and> c = 0x5C then split_loop cs (cur @ [c]) quote True parts
      else if Some c = quote then split_loop cs (cur @ [c]) None False parts
      else if quote = None \<and> (c = 0x27 \<or> c = 0x22) then split_loop cs (cur @ [c]) (Some c) False parts
      else if quote = None \<and> c = 0x2C then
        (let part = trim cur in
         if part = [] then Inl EmptyBeforeComma else split_loop cs [] None False (parts @ [part]))
      else split_loop cs (cur @ [c]) quote False parts)"

definition split_cli_attributes :: "ustring \<Rightarrow> cli_error + ustring list" where
  "split_cli_attributes input = split_loop input [] None False []"

definition rsplit_once :: "uchar \<Rightarrow> ustring \<Rightarrow> (ustring \<times> ustring) option" where
  "rsplit_once d s =
     (case split_once d (rev s) of None \<Rightarrow> None | Some (b, a) \<Rightarrow> Some (rev a, rev b))"

definition is_quoted :: "ustring \<Rightarrow> bool" where
  "is_quoted v \<longleftrightarrow> v \<noteq> [] \<and> (hd v = 0x27 \<and> last v = 0x27 \<or> hd v = 0x22 \<and> last v = 0x22)"

definition looks_like_entity_key :: "ustring \<Rightarrow> bool" where
  "looks_like_entity_key v \<longleftrightarrow> take 2 v = [0x30, 0x78] \<and>
     length (utf8 (drop 2 v)) = 64 \<and> (\<forall>c \<in> set (drop 2 v). is_ascii_hexdigit c)"

definition unescape :: "uchar \<Rightarrow> cli_error + uchar" where
  "unescape c =
     (if c = 0x5C \<or> c = 0x27 \<or> c = 0x22 \<or> c = 0x2C then Inr c
      else if c = 0x6E then Inr 0x0A
      else if c = 0x72 then Inr 0x0D
      else if c = 0x74 then Inr 0x09
      else Inl (UnsupportedEscape c))"

fun string_loop :: "ustring \<Rightarrow> bool \<Rightarrow> ustring \<Rightarrow> cli_error + ustring" where
  "string_loop [] escaped out = (if escaped then Inl UnfinishedEscape else Inr out)"
| "string_loop (c # cs) escaped out =
     (if escaped then try_then (unescape c) (\<lambda>d. string_loop cs False (out @ [d]))
      else if c = 0x5C then string_loop cs True out
      else string_loop cs False (out @ [c]))"

text \<open>The slice \<open>value[1..value.len() - 1]\<close> panics on a value that is one quote character.\<close>

definition parse_cli_string_value :: "ustring \<Rightarrow> cli_error + ustring" where
  "parse_cli_string_value value =
     (if \<not> is_quoted value then Inr value
      else if length value = 1 then Inl SlicePanic
      else
        let quote = hd value; inner = butlast (tl value) in
        try_then (string_loop inner False []) (\<lambda>out.
        if quote \<in> set out \<and> 0x5C \<notin> set inner then Inl UnescapedQuote else Inr out))"

definition parse_cli_uint_value :: "cli_lib \<Rightarrow> ustring \<Rightarrow> cli_error + u256" where
  "parse_cli_uint_value L value = (case parse_u256 L value of None \<Rightarrow> Inl (InvalidUint value) | Some n \<Rightarrow> Inr n)"

definition parse_cli_entity_key_value :: "cli_lib \<Rightarrow> ustring \<Rightarrow> cli_error + b256" where
  "parse_cli_entity_key_value L value =
     (case parse_b256 L value of None \<Rightarrow> Inl (InvalidEntityKey value) | Some k \<Rightarrow> Inr k)"

definition parse_typed_value :: "cli_lib \<Rightarrow> ustring option \<Rightarrow> ustring \<Rightarrow> cli_error + attribute_value" where
  "parse_typed_value L ty value =
     (case ty of
        Some t \<Rightarrow>
          if t \<in> {ascii ''string'', ascii ''str''} then map_sum id VString (parse_cli_string_value value)
          else if t \<in> {ascii ''uint'', ascii ''u256''} then map_sum id VUint (parse_cli_uint_value L value)
          else if t \<in> {ascii ''entityKey'', ascii ''entity-key'', ascii ''key''}
          then map_sum id (VKey \<circ> Literal) (parse_cli_entity_key_value L value)
          else Inl (UnknownType t)
      | None \<Rightarrow>
          if is_quoted value then map_sum id VString (parse_cli_string_value value)
          else if looks_like_entity_key value
          then map_sum id (VKey \<circ> Literal) (parse_cli_entity_key_value L value)
          else map_sum id VUint (parse_cli_uint_value L value))"

definition parse_cli_attribute :: "cli_lib \<Rightarrow> ustring \<Rightarrow> cli_error + batch_attribute" where
  "parse_cli_attribute L raw =
     (case split_once 0x3D raw of
        None \<Rightarrow> Inl MissingEquals
      | Some (l, v) \<Rightarrow>
          let left = trim l; value = trim v in
          if left = [] then Inl MissingName
          else if value = [] then Inl MissingValue
          else
            try_then
              (case rsplit_once 0x3A left of
                 None \<Rightarrow> Inr (left, None)
               | Some (name, ty) \<Rightarrow> if trim ty = [] then Inl MissingType else Inr (trim name, Some (trim ty)))
              (\<lambda>(name, ty).
              if name = [] then Inl MissingNameBeforeType
              else map_sum id (\<lambda>x. \<lparr>ba_name = name, ba_value = x\<rparr>) (parse_typed_value L ty value)))"

text \<open>Errors are wrapped with the position of the attribute; a panic is no error and passes.\<close>

definition wrap_error :: "nat \<Rightarrow> ustring \<Rightarrow> cli_error \<Rightarrow> cli_error" where
  "wrap_error n raw e = (if e = SlicePanic then SlicePanic else InvalidAttribute n raw e)"

fun parse_parts :: "cli_lib \<Rightarrow> nat \<Rightarrow> ustring list \<Rightarrow> cli_error + batch_attribute list" where
  "parse_parts L idx [] = Inr []"
| "parse_parts L idx (raw # rs) =
     try_then (map_sum (wrap_error (idx + 1) (trim raw)) id (parse_cli_attribute L (trim raw))) (\<lambda>a.
     map_sum id ((#) a) (parse_parts L (idx + 1) rs))"

definition parse_cli_attributes :: "cli_lib \<Rightarrow> ustring \<Rightarrow> cli_error + batch_attribute list" where
  "parse_cli_attributes L input =
     (if trim input = [] then Inr []
      else try_then (split_cli_attributes (trim input)) (parse_parts L 0))"

subsection \<open>Building contract attributes\<close>

definition build_attribute ::
  "cli_lib \<Rightarrow> (entity_key_ref \<Rightarrow> cli_error + b256) \<Rightarrow> batch_attribute \<Rightarrow> cli_error + op_attribute" where
  "build_attribute L resolve a =
     (case ident_encode L (ba_name a) of
        None \<Rightarrow> Inl (InvalidName (ba_name a))
      | Some name \<Rightarrow>
          (case ba_value a of
             VUint n \<Rightarrow> Inr (attribute_uint L name n)
           | VString s \<Rightarrow>
               (case attribute_string L name (utf8 s) of None \<Rightarrow> Inl InvalidString | Some x \<Rightarrow> Inr x)
           | VKey r \<Rightarrow> map_sum id (attribute_key L name) (resolve r)))"

fun build_all ::
  "cli_lib \<Rightarrow> (entity_key_ref \<Rightarrow> cli_error + b256) \<Rightarrow> batch_attribute list \<Rightarrow> cli_error + op_attribute list" where
  "build_all L resolve [] = Inr []"
| "build_all L resolve (a # as) =
     try_then (build_attribute L resolve a) (\<lambda>x. map_sum id ((#) x) (build_all L resolve as))"

definition build_attributes ::
  "cli_lib \<Rightarrow> (entity_key_ref \<Rightarrow> cli_error + b256) \<Rightarrow> batch_attribute list \<Rightarrow> cli_error + op_attribute list" where
  "build_attributes L resolve attrs = map_sum id (attribute_sort L) (build_all L resolve attrs)"

definition build_cli_attributes :: "cli_lib \<Rightarrow> ustring \<Rightarrow> cli_error + op_attribute list" where
  "build_cli_attributes L input =
     try_then (parse_cli_attributes L input)
       (build_attributes L (\<lambda>r. case r of Literal k \<Rightarrow> Inr k | Ref i \<Rightarrow> Inl (RefOutsideBatch i)))"

subsection \<open>Payloads\<close>

definition parse_cli_payload :: "cli_lib \<Rightarrow> ustring \<Rightarrow> cli_error + bytes" where
  "parse_cli_payload L payload =
     (if take 2 payload = [0x30, 0x78] then
        let hex = drop 2 payload in
        if hex = [] then Inl HexEmpty
        else if length (utf8 hex) mod 2 \<noteq> 0 then Inl (HexOdd (length (utf8 hex)))
        else
          (case find (\<lambda>c. \<not> is_ascii_hexdigit c) hex of
             Some c \<Rightarrow> Inl (HexInvalid c (length (utf8 (takeWhile is_ascii_hexdigit hex))))
           | None \<Rightarrow> (case decode_hex L hex of None \<Rightarrow> Inl (HexDecode payload) | Some bs \<Rightarrow> Inr bs))
      else Inr (utf8 payload))"

text \<open>A random payload of the given size is the argument \<open>random\<close>.\<close>

definition resolve_cli_payload ::
  "cli_lib \<Rightarrow> (nat \<Rightarrow> bytes) \<Rightarrow> ustring option \<Rightarrow> bool \<Rightarrow> nat \<Rightarrow> cli_error + bytes" where
  "resolve_cli_payload L random payload is_random n =
     (case (payload, is_random) of
        (Some _, True) \<Rightarrow> Inl PayloadAndRandom
      | (None, False) \<Rightarrow> Inl NoPayload
      | (Some s, False) \<Rightarrow> parse_cli_payload L s
      | (None, True) \<Rightarrow> Inr (random n))"

definition resolve_payload ::
  "cli_lib \<Rightarrow> (nat \<Rightarrow> bytes) \<Rightarrow> ustring option \<Rightarrow> nat option \<Rightarrow> cli_error + bytes" where
  "resolve_payload L random payload n =
     (case (payload, n) of
        (Some _, Some _) \<Rightarrow> Inl PayloadAndSize
      | (Some s, None) \<Rightarrow>
          if take 2 s = [0x30, 0x78]
          then (case decode_hex L (drop 2 s) of None \<Rightarrow> Inl (HexDecode s) | Some bs \<Rightarrow> Inr bs)
          else Inr (utf8 s)
      | (None, Some k) \<Rightarrow> Inr (random k)
      | (None, None) \<Rightarrow> Inr [])"

subsection \<open>Batch files\<close>

text \<open>A key in a batch file: \<open>$N\<close> is the entity the operation at position \<open>N\<close> creates.\<close>

definition parse_key_ref :: "cli_lib \<Rightarrow> ustring \<Rightarrow> entity_key_ref option" where
  "parse_key_ref L s =
     (if take 1 s = [0x24] then map_option (\<lambda>n. Ref (unat n)) (from_str_radix 10 (drop 1 s))
      else map_option Literal (parse_b256 L s))"

datatype batch_op =
    BCreate ustring "ustring option" "nat option" u32 "batch_attribute list"
  | BUpdate entity_key_ref ustring "ustring option" "nat option" "batch_attribute list"
  | BExtend entity_key_ref u32
  | BTransfer entity_key_ref address
  | BDelete entity_key_ref
  | BExpire entity_key_ref

text \<open>
  The keys of the entities the batch will create, by the position of the operation: \<open>entity_key\<close> is
  the registry's function, called with the signer's nonce and the number of creations before.
\<close>

fun batch_refs :: "(u32 \<Rightarrow> b256) \<Rightarrow> u32 \<Rightarrow> nat \<Rightarrow> u32 \<Rightarrow> batch_op list \<Rightarrow> nat \<Rightarrow> b256 option" where
  "batch_refs entity_key signer_nonce i create_count [] = Map.empty"
| "batch_refs entity_key signer_nonce i create_count (op # ops) =
     (case op of
        BCreate _ _ _ _ _ \<Rightarrow>
          (batch_refs entity_key signer_nonce (Suc i) (create_count + 1) ops)
            (i \<mapsto> entity_key (signer_nonce + create_count))
      | _ \<Rightarrow> batch_refs entity_key signer_nonce (Suc i) create_count ops)"

definition resolve_ref :: "(nat \<Rightarrow> b256 option) \<Rightarrow> entity_key_ref \<Rightarrow> cli_error + b256" where
  "resolve_ref refs r =
     (case r of
        Literal k \<Rightarrow> Inr k
      | Ref i \<Rightarrow> (case refs i of None \<Rightarrow> Inl (NotACreate i) | Some k \<Rightarrow> Inr k))"

definition encode_mime :: "bindings \<Rightarrow> ustring \<Rightarrow> cli_error + words4" where
  "encode_mime B s = (case mime_encode B s of None \<Rightarrow> Inl (InvalidContentType s) | Some m \<Rightarrow> Inr m)"

definition build_batch_op ::
  "cli_lib \<Rightarrow> bindings \<Rightarrow> (nat \<Rightarrow> bytes) \<Rightarrow> (nat \<Rightarrow> b256 option) \<Rightarrow> batch_op \<Rightarrow> cli_error + operation" where
  "build_batch_op L B random refs op =
     (case op of
        BCreate content_type payload n btl attributes \<Rightarrow>
          try_then (resolve_payload L random payload n) (\<lambda>p.
          try_then (encode_mime B content_type) (\<lambda>m.
          try_then (build_attributes L (resolve_ref refs) attributes) (\<lambda>as.
          Inr (op_create_new B btl p m as))))
      | BUpdate key content_type payload n attributes \<Rightarrow>
          try_then (resolve_ref refs key) (\<lambda>k.
          try_then (resolve_payload L random payload n) (\<lambda>p.
          try_then (encode_mime B content_type) (\<lambda>m.
          try_then (build_attributes L (resolve_ref refs) attributes) (\<lambda>as.
          Inr (op_update_new B k p m as)))))
      | BExtend key btl \<Rightarrow> try_then (resolve_ref refs key) (\<lambda>k. Inr (op_extend_new B k btl))
      | BTransfer key new_owner \<Rightarrow> try_then (resolve_ref refs key) (\<lambda>k. Inr (op_transfer_new B k new_owner))
      | BDelete key \<Rightarrow> try_then (resolve_ref refs key) (\<lambda>k. Inr (op_delete_new B k))
      | BExpire key \<Rightarrow> try_then (resolve_ref refs key) (\<lambda>k. Inr (op_expire_new B k)))"

fun build_ops ::
  "cli_lib \<Rightarrow> bindings \<Rightarrow> (nat \<Rightarrow> bytes) \<Rightarrow> (nat \<Rightarrow> b256 option) \<Rightarrow> batch_op list \<Rightarrow> cli_error + operation list" where
  "build_ops L B random refs [] = Inr []"
| "build_ops L B random refs (op # ops) =
     try_then (build_batch_op L B random refs op) (\<lambda>x. map_sum id ((#) x) (build_ops L B random refs ops))"

definition build_batch_file ::
  "cli_lib \<Rightarrow> bindings \<Rightarrow> (nat \<Rightarrow> bytes) \<Rightarrow> (u32 \<Rightarrow> b256) \<Rightarrow> u32 \<Rightarrow> batch_op list \<Rightarrow> cli_error + operation list" where
  "build_batch_file L B random entity_key signer_nonce ops =
     (if ops = [] then Inl EmptyBatchFile
      else build_ops L B random (batch_refs entity_key signer_nonce 0 0 ops) ops)"

end
