(* ===== verification/CliText.thy ===== *)
theory CliText
  imports Cli
begin

text \<open>
  Attributes written on the command line are read back: names without separators, values of every
  type, strings with any characters in quotes.
\<close>

subsection \<open>Writing attributes\<close>

definition escape_cli :: "uchar \<Rightarrow> ustring" where
  "escape_cli c = (if c = 0x5C \<or> c = 0x27 then [0x5C, c] else [c])"

definition quoted :: "ustring \<Rightarrow> ustring" where
  "quoted s = 0x27 # concat (map escape_cli s) @ [0x27]"

fun show_value :: "attribute_value \<Rightarrow> ustring" where
  "show_value (VUint n) = dec_digits (unat n)"
| "show_value (VString s) = quoted s"
| "show_value (VKey (Literal k)) = ascii ''0x'' @ hex_digits k"
| "show_value (VKey (Ref i)) = []"

fun show_type :: "attribute_value \<Rightarrow> ustring" where
  "show_type (VUint n) = ascii '':uint''"
| "show_type (VString s) = ascii '':string''"
| "show_type (VKey k) = ascii '':entityKey''"

text \<open>With \<open>typed\<close> the type is written, without it the value alone shows it.\<close>

definition show_attribute :: "bool \<Rightarrow> batch_attribute \<Rightarrow> ustring" where
  "show_attribute typed a = ba_name a @ (if typed then show_type (ba_value a) else []) @ 0x3D # show_value (ba_value a)"

fun show_attributes :: "bool \<Rightarrow> batch_attribute list \<Rightarrow> ustring" where
  "show_attributes typed [] = []"
| "show_attributes typed [a] = show_attribute typed a"
| "show_attributes typed (a # as) = show_attribute typed a @ 0x2C # show_attributes typed as"

definition name_char :: "uchar \<Rightarrow> bool" where
  "name_char c \<longleftrightarrow> c \<notin> {0x3D, 0x3A, 0x2C, 0x27, 0x22} \<and> \<not> is_whitespace c"

definition writable :: "batch_attribute \<Rightarrow> bool" where
  "writable a \<longleftrightarrow> ba_name a \<noteq> [] \<and> list_all name_char (ba_name a) \<and>
     (case ba_value a of VKey (Ref i) \<Rightarrow> False | VKey (Literal k) \<Rightarrow> length k = 32 | _ \<Rightarrow> True)"

text \<open>What is documented of the parsers of the number and key types.\<close>

definition parsers_ok :: "cli_lib \<Rightarrow> bool" where
  "parsers_ok L \<longleftrightarrow> (\<forall>n. parse_u256 L (dec_digits (unat n)) = Some n) \<and>
     (\<forall>k. length k = 32 \<longrightarrow> parse_b256 L (ascii ''0x'' @ hex_digits k) = Some k)"

subsection \<open>Splitting\<close>

definition plain_text :: "ustring \<Rightarrow> bool" where
  "plain_text s \<longleftrightarrow> list_all (\<lambda>c. c \<notin> {0x2C, 0x27, 0x22}) s"

lemma split_plain:
  "plain_text t \<Longrightarrow> split_loop (t @ r) cur None False parts = split_loop r (cur @ t) None False parts"
  by (induction t arbitrary: cur) (auto simp: plain_text_def)

lemma split_in_quotes:
  "split_loop (concat (map escape_cli s) @ r) cur (Some 0x27) False parts =
    split_loop r (cur @ concat (map escape_cli s)) (Some 0x27) False parts"
  by (induction s arbitrary: cur) (auto simp: escape_cli_def)

lemma split_quoted:
  "split_loop (quoted s @ r) cur None False parts = split_loop r (cur @ quoted s) None False parts"
  using split_in_quotes[of s "0x27 # r" "cur @ [0x27]"] by (simp add: quoted_def)

lemma digits_plain:
  "list_all is_ascii_hexdigit s \<Longrightarrow> plain_text s" "list_all is_ascii_digit s \<Longrightarrow> plain_text s"
  by (auto simp: list_all_iff plain_text_def is_ascii_hexdigit_def is_ascii_digit_def)

lemma value_digits:
  "list_all is_ascii_digit (dec_digits n)" "dec_digits n \<noteq> []" "list_all is_ascii_hexdigit (hex_digits k)"
  using dec_digits_ok[of n] hex_digits_ok(2)[of k] by (simp_all add: list_all_iff)

lemma plain_append [simp]: "plain_text (s @ t) = (plain_text s \<and> plain_text t)" "plain_text []"
  "plain_text (c # s) = (c \<notin> {0x2C, 0x27, 0x22} \<and> plain_text s)"
  by (simp_all add: plain_text_def)

lemma split_value:
  assumes "case v of VKey (Ref i) \<Rightarrow> False | _ \<Rightarrow> True"
  shows "split_loop (show_value v @ r) cur None False parts = split_loop r (cur @ show_value v) None False parts"
proof (cases v)
  case (VUint n)
  then show ?thesis by (simp add: split_plain digits_plain(2) value_digits(1))
next
  case (VString s)
  then show ?thesis by (simp add: split_quoted)
next
  case (VKey k)
  then obtain b where "v = VKey (Literal b)" using assms by (cases k) auto
  moreover have "plain_text (ascii ''0x'' @ hex_digits b)"
    using digits_plain(1)[OF value_digits(3)] by (simp add: ascii_def)
  ultimately show ?thesis using split_plain[of "ascii ''0x'' @ hex_digits b" r cur parts] by simp
qed

lemma split_attribute:
  assumes "writable a"
  shows "split_loop (show_attribute typed a @ r) cur None False parts =
    split_loop r (cur @ show_attribute typed a) None False parts"
proof -
  have "plain_text (ba_name a)"
    using assms by (auto simp: writable_def plain_text_def name_char_def list_all_iff)
  moreover have "plain_text (show_type v)" for v by (cases v) (simp_all add: ascii_def)
  ultimately have "plain_text (ba_name a @ (if typed then show_type (ba_value a) else []) @ [0x3D])" by simp
  note head = split_plain[OF this]
  have v: "case ba_value a of VKey (Ref i) \<Rightarrow> False | _ \<Rightarrow> True"
    using assms by (auto simp: writable_def split: attribute_value.splits entity_key_ref.splits)
  show ?thesis
    using head[of "show_value (ba_value a) @ r" cur parts]
      split_value[OF v, of r "cur @ ba_name a @ (if typed then show_type (ba_value a) else []) @ [0x3D]" parts]
    by (simp add: show_attribute_def)
qed

subsection \<open>Trimming\<close>

lemma trim_id: "s \<noteq> [] \<Longrightarrow> \<not> is_whitespace (hd s) \<Longrightarrow> \<not> is_whitespace (last s) \<Longrightarrow> trim s = s"
  by (simp add: trim_def dropWhile_eq_self_iff[THEN iffD2] hd_rev)

lemma digit_not_white: "is_ascii_hexdigit c \<Longrightarrow> \<not> is_whitespace c" "is_ascii_digit c \<Longrightarrow> \<not> is_whitespace c"
  by (auto simp: is_whitespace_def is_ascii_hexdigit_def is_ascii_digit_def)

lemma value_ends:
  assumes "writable a"
  shows "show_value (ba_value a) \<noteq> [] \<and> \<not> is_whitespace (hd (show_value (ba_value a))) \<and>
    \<not> is_whitespace (last (show_value (ba_value a)))"
proof (cases "ba_value a")
  case (VUint n)
  then show ?thesis
    using value_digits(1,2)[of "unat n"] digit_not_white(2) hd_in_set last_in_set by (fastforce simp: list_all_iff)
next
  case (VString s)
  then show ?thesis by (simp add: quoted_def is_whitespace_def)
next
  case (VKey k)
  then obtain b where b: "ba_value a = VKey (Literal b)" "length b = 32"
    using assms by (cases k) (auto simp: writable_def)
  have "hex_digits b \<noteq> []" using hex_digits_ok(1)[of b] b(2) by auto
  then show ?thesis
    using b(1) digit_not_white(1)[of "last (hex_digits b)"] value_digits(3)[of b]
    by (simp add: ascii_def list_all_iff is_whitespace_def)
qed

lemma name_ends:
  assumes "writable a"
  shows "ba_name a \<noteq> []" "\<not> is_whitespace (hd (ba_name a))" "\<not> is_whitespace (last (ba_name a))"
    "{0x3D, 0x3A, 0x2C, 0x27, 0x22} \<inter> set (ba_name a) = {}"
  using assms hd_in_set[of "ba_name a"] last_in_set[of "ba_name a"]
  by (auto simp: writable_def list_all_iff name_char_def)

lemma attribute_trim:
  assumes "writable a"
  shows "trim (show_attribute typed a) = show_attribute typed a" "show_attribute typed a \<noteq> []"
  using name_ends(1,2)[OF assms] value_ends[OF assms]
  by (auto simp: show_attribute_def intro!: trim_id)

lemma split_attributes:
  assumes "list_all writable as" "as \<noteq> []"
  shows "split_loop (show_attributes typed as) [] None False parts = Inr (parts @ map (show_attribute typed) as)"
  using assms
proof (induction typed as arbitrary: parts rule: show_attributes.induct)
  case (2 typed a)
  then show ?case using split_attribute[of a typed "[]" "[]" parts] by (simp add: attribute_trim)
next
  case (3 typed a b as)
  then show ?case
    using split_attribute[of a typed "0x2C # show_attributes typed (b # as)" "[]" parts]
    by (simp add: attribute_trim)
qed simp

subsection \<open>Parsing\<close>

lemma split_once_at: "d \<notin> set s \<Longrightarrow> split_once d (s @ d # r) = Some (s, r)"
  by (induction s) (auto simp: split_once_def)

lemma rsplit_once_at: "d \<notin> set r \<Longrightarrow> rsplit_once d (s @ d # r) = Some (s, r)"
  using split_once_at[of d "rev r" "rev s"] by (simp add: rsplit_once_def)

lemma rsplit_once_none: "d \<notin> set s \<Longrightarrow> rsplit_once d s = None"
  by (simp add: rsplit_once_def split_once_def)

lemma string_loop_escaped:
  "string_loop (concat (map escape_cli s)) False out = Inr (out @ s)"
  by (induction s arbitrary: out) (auto simp: escape_cli_def unescape_def try_then_def)

lemma parse_quoted: "parse_cli_string_value (quoted s) = Inr s"
proof -
  have "0x27 \<in> set s \<Longrightarrow> 0x5C \<in> set (concat (map escape_cli s))" by (force simp: escape_cli_def)
  then show ?thesis
    by (simp add: parse_cli_string_value_def is_quoted_def quoted_def string_loop_escaped try_then_def Let_def)
qed

lemma digits_unquoted:
  "is_quoted (dec_digits n) = False" "looks_like_entity_key (dec_digits n) = False"
  "is_quoted (ascii ''0x'' @ hex_digits k) = False"
  "length k = 32 \<Longrightarrow> looks_like_entity_key (ascii ''0x'' @ hex_digits k)"
proof -
  have d: "\<forall>c \<in> set (dec_digits n). 0x30 \<le> c \<and> c \<le> 0x39"
    using value_digits(1)[of n] by (simp add: list_all_iff is_ascii_digit_def)
  moreover have "hd (dec_digits n) \<in> set (dec_digits n)" using value_digits(2)[of n] by simp
  ultimately have "0x30 \<le> hd (dec_digits n)" by blast
  then have "hd (dec_digits n) \<notin> {0x27, 0x22}" "0x78 \<notin> set (dec_digits n)" using d by auto
  then show "is_quoted (dec_digits n) = False" "looks_like_entity_key (dec_digits n) = False"
    by (auto simp: is_quoted_def looks_like_entity_key_def dest: in_set_takeD[of _ 2] intro: list.set_intros)
      (metis in_set_takeD list.set_intros)
  show "is_quoted (ascii ''0x'' @ hex_digits k) = False" by (simp add: is_quoted_def ascii_def)
  show "looks_like_entity_key (ascii ''0x'' @ hex_digits k)" if "length k = 32"
  proof -
    have "len_utf8 c = 1" if "is_ascii_hexdigit c" for c
      using that by (auto simp: len_utf8_def is_ascii_hexdigit_def is_ascii_digit_def)
    then have "sum_list (map len_utf8 (hex_digits k)) = sum_list (map (\<lambda>_. 1) (hex_digits k))"
      using hex_digits_ok(2)[of k] by (intro arg_cong[of _ _ sum_list] map_cong) auto
    then show ?thesis
      using hex_digits_ok[of k] that by (simp add: looks_like_entity_key_def ascii_def length_utf8 sum_list_triv)
  qed
qed

lemma parse_value:
  assumes L: "parsers_ok L" and a: "writable a"
  shows "parse_typed_value L (if typed then Some (tl (show_type (ba_value a))) else None) (show_value (ba_value a)) =
    Inr (ba_value a)"
proof (cases "ba_value a")
  case (VUint n)
  then show ?thesis
    using L by (auto simp: parse_typed_value_def parse_cli_uint_value_def parsers_ok_def digits_unquoted ascii_def)
next
  case (VString s)
  moreover have "is_quoted (quoted s)" by (simp add: is_quoted_def quoted_def)
  ultimately show ?thesis by (simp add: parse_typed_value_def parse_quoted ascii_def)
next
  case (VKey k)
  then obtain b where b: "ba_value a = VKey (Literal b)" "length b = 32"
    using a by (cases k) (auto simp: writable_def)
  then have "parse_cli_entity_key_value L (ascii ''0x'' @ hex_digits b) = Inr b"
    using L by (simp add: parse_cli_entity_key_value_def parsers_ok_def)
  then show ?thesis
    using b digits_unquoted(3,4)[of b] by (simp add: parse_typed_value_def) (simp add: ascii_def)
qed

lemma parse_attribute:
  assumes L: "parsers_ok L" and a: "writable a"
  shows "parse_cli_attribute L (show_attribute typed a) = Inr a"
proof -
  let ?ty = "tl (show_type (ba_value a))"
  let ?left = "ba_name a @ (if typed then 0x3A # ?ty else [])"
  note N = name_ends[OF a] and V = value_ends[OF a]
  have ty: "show_type (ba_value a) = 0x3A # ?ty" "0x3D \<notin> set ?ty" "0x3A \<notin> set ?ty" "trim ?ty = ?ty" "?ty \<noteq> []"
    "\<not> is_whitespace (last ?ty)"
    by (cases "ba_value a"; simp add: ascii_def trim_def is_whitespace_def)+
  have "show_attribute typed a = ?left @ 0x3D # show_value (ba_value a)"
    using ty(1) by (simp add: show_attribute_def)
  moreover have "0x3D \<notin> set ?left" using N(4) ty(2) by auto
  ultimately have s: "split_once 0x3D (show_attribute typed a) = Some (?left, show_value (ba_value a))"
    using split_once_at[of "0x3D" ?left] by presburger
  have l: "trim ?left = ?left" "?left \<noteq> []" using N(1-3) ty(5,6) by (auto intro!: trim_id)
  have v: "trim (show_value (ba_value a)) = show_value (ba_value a)" "show_value (ba_value a) \<noteq> []"
    using V by (auto intro!: trim_id)
  have "0x3A \<notin> set (ba_name a)" using N(4) by auto
  then have r: "rsplit_once 0x3A ?left = (if typed then Some (ba_name a, ?ty) else None)"
    using rsplit_once_at[OF ty(3), of "ba_name a"] rsplit_once_none by simp
  have n: "trim (ba_name a) = ba_name a" using N(1-3) by (intro trim_id)
  show ?thesis
    using parse_value[OF L a, of typed] s l v r ty(4,5) n N(1)
    by (cases typed) (simp_all add: parse_cli_attribute_def Let_def try_then_def)
qed

lemma parse_parts_ok:
  assumes "parsers_ok L" "list_all writable as"
  shows "parse_parts L idx (map (show_attribute typed) as) = Inr as"
  using assms(2)
  by (induction as arbitrary: idx) (simp_all add: attribute_trim parse_attribute[OF assms(1)] try_then_def)

lemma attributes_ends:
  assumes "list_all writable as" "as \<noteq> []"
  shows "show_attributes typed as \<noteq> [] \<and> \<not> is_whitespace (hd (show_attributes typed as)) \<and>
    \<not> is_whitespace (last (show_attributes typed as))"
  using assms
proof (induction typed as rule: show_attributes.induct)
  case (2 typed a)
  then show ?case using name_ends(1,2)[of a] value_ends[of a] by (simp add: show_attribute_def)
next
  case (3 typed a b as)
  then show ?case using name_ends(1,2)[of a] by (simp add: show_attribute_def)
qed simp

text \<open>
  C32. The attribute argument is read as it is meant: any list of attributes, written with or without
  their types, parses back to exactly these attributes, in their order: integers, entity keys, and
  strings with any characters in them, commas, quotes, backslashes, spaces and line ends included.
\<close>

theorem cli_attributes_roundtrip:
  assumes "parsers_ok L" "list_all writable as"
  shows "parse_cli_attributes L (show_attributes typed as) = Inr as"
proof (cases "as = []")
  case True
  then show ?thesis by (simp add: parse_cli_attributes_def trim_def)
next
  case False
  note E = attributes_ends[OF assms(2) False, of typed]
  have "trim (show_attributes typed as) = show_attributes typed as" using E by (intro trim_id) auto
  then show ?thesis
    using E split_attributes[OF assms(2) False, of typed "[]"] parse_parts_ok[OF assms, of 0 typed]
    by (simp add: parse_cli_attributes_def split_cli_attributes_def try_then_def)
qed

definition plain_parsers :: cli_lib where
  "plain_parsers = \<lparr>parse_u256 = \<lambda>s. Some (of_nat (dec_val s)), parse_b256 = \<lambda>s. unhex (drop 2 s),
     decode_hex = unhex, ident_encode = \<lambda>s. Some (utf8 s @ replicate (32 - length s) 0),
     attribute_uint = \<lambda>n x. \<lparr>at_name = n, at_value_type = 1, at_value = [u256_be x]\<rparr>,
     attribute_string = \<lambda>n bs. Some \<lparr>at_name = n, at_value_type = 2, at_value = [bs]\<rparr>,
     attribute_key = \<lambda>n k. \<lparr>at_name = n, at_value_type = 3, at_value = [k]\<rparr>, attribute_sort = \<lambda>as. as\<rparr>"

lemma plain_parsers_ok: "parsers_ok plain_parsers"
proof -
  have "unhex (hex_digits k) = Some k" if "length k = 32" for k
    using plain_hex_law that by (simp add: hex_law_def plain_env_def)
  then show ?thesis
    using dec_digits_ok by (simp add: parsers_ok_def plain_parsers_def ascii_def)
qed

lemma cli_attributes_roundtrip_witness:
  "parse_cli_attributes plain_parsers (ascii ''a:string='' @ [0x27, 0x2C, 0x5C, 0x27, 0x27] @ ascii '',b:uint=7'') =
    Inr [\<lparr>ba_name = ascii ''a'', ba_value = VString [0x2C, 0x27]\<rparr>, \<lparr>ba_name = ascii ''b'', ba_value = VUint 7\<rparr>]"
proof -
  let ?as = "[\<lparr>ba_name = ascii ''a'', ba_value = VString [0x2C, 0x27]\<rparr>, \<lparr>ba_name = ascii ''b'', ba_value = VUint 7\<rparr>]"
  have "list_all writable ?as" by (simp add: writable_def name_char_def is_whitespace_def ascii_def)
  from cli_attributes_roundtrip[OF plain_parsers_ok this, of True] show ?thesis
    by (simp add: show_attribute_def quoted_def escape_cli_def ascii_def dec_digits.simps)
qed

text \<open>A value that is a single quote character passes the splitting and makes the parser panic.\<close>

lemma single_quote_panics: "parse_cli_attributes L [0x27, 0x3D, 0x27] = Inl SlicePanic"
  by (simp add: parse_cli_attributes_def split_cli_attributes_def trim_def is_whitespace_def try_then_def
      parse_cli_attribute_def split_once_def rsplit_once_def parse_typed_value_def is_quoted_def
      parse_cli_string_value_def wrap_error_def Let_def)

end
