(* ===== verification/Commands.thy ===== *)
theory Commands
  imports Cli SimulateInv
begin

text \<open>
  The commands of \<open>crates/arkiv-cli/src/main.rs\<close> and the dev accounts of
  \<open>crates/arkiv-genesis/src/lib.rs\<close>: the operations each command sends, the start of the load
  generator, the accounts spliced into a genesis file, the walk over the history of the registry, and
  the sending of many creations with retries. Mnemonic derivation, the registry's functions and the
  outcomes of sending are arguments.
\<close>

subsection \<open>Dev accounts\<close>

definition ARKIV_DEV_ACCOUNT_COUNT :: nat where "ARKIV_DEV_ACCOUNT_COUNT = 100"

definition arkiv_dev_balance_wei :: u256 where
  "arkiv_dev_balance_wei = 10000 * 1000000000000000000"

datatype genesis_error = TooManySigners nat | DeriveFailed u32

text \<open>\<open>derive\<close> gives the address of the signer at an index of the mnemonic.\<close>

fun derive_all :: "(u32 \<Rightarrow> address option) \<Rightarrow> u32 list \<Rightarrow> genesis_error + address list" where
  "derive_all derive [] = Inr []"
| "derive_all derive (i # js) =
     (case derive i of
        None \<Rightarrow> Inl (DeriveFailed i)
      | Some a \<Rightarrow> map_sum id ((#) a) (derive_all derive js))"

definition dev_signers :: "(u32 \<Rightarrow> address option) \<Rightarrow> nat \<Rightarrow> genesis_error + address list" where
  "dev_signers derive n =
     (if ARKIV_DEV_ACCOUNT_COUNT < n then Inl (TooManySigners n)
      else derive_all derive (map of_nat [0..<n]))"

text \<open>\<open>funded b\<close> is the genesis account with balance \<open>b\<close> and default fields.\<close>

definition dev_funding_alloc ::
  "(u32 \<Rightarrow> address option) \<Rightarrow> (u256 \<Rightarrow> 'acct) \<Rightarrow> nat \<Rightarrow> u256 \<Rightarrow> genesis_error + (address \<times> 'acct) list" where
  "dev_funding_alloc derive funded n balance_wei =
     map_sum id (map (\<lambda>a. (a, funded balance_wei))) (dev_signers derive n)"

definition insert_all :: "('k \<times> 'v) list \<Rightarrow> ('k \<rightharpoonup> 'v) \<Rightarrow> ('k \<rightharpoonup> 'v)" where
  "insert_all kvs m = fold (\<lambda>(k, v) m. m(k \<mapsto> v)) kvs m"

definition genesis_alloc ::
  "(u32 \<Rightarrow> address option) \<Rightarrow> (u256 \<Rightarrow> 'acct) \<Rightarrow> genesis_error + (address \<rightharpoonup> 'acct)" where
  "genesis_alloc derive funded =
     try_then (dev_funding_alloc derive funded ARKIV_DEV_ACCOUNT_COUNT arkiv_dev_balance_wei)
       (\<lambda>accs. Inr (insert_all accs Map.empty))"

text \<open>
  \<open>inject_predeploy\<close> on the allocation of the genesis file: the new allocation and the number of
  accounts reported.
\<close>

definition inject_predeploy ::
  "(u32 \<Rightarrow> address option) \<Rightarrow> (u256 \<Rightarrow> 'acct) \<Rightarrow> (address \<rightharpoonup> 'acct) \<Rightarrow>
    genesis_error + (address \<rightharpoonup> 'acct) \<times> nat" where
  "inject_predeploy derive funded alloc =
     try_then (genesis_alloc derive funded) (\<lambda>arkiv_alloc. Inr (alloc ++ arkiv_alloc, card (dom arkiv_alloc)))"

lemma derive_all_Inr: "derive_all derive js = Inr as \<longleftrightarrow> map derive js = map Some as"
proof (induction js arbitrary: as)
  case (Cons i js)
  then show ?case
    by (cases as; cases "derive_all derive js") (auto split: option.split)
qed auto

lemma dev_signers_length: "dev_signers derive n = Inr as \<Longrightarrow> length as = n \<and> n \<le> ARKIV_DEV_ACCOUNT_COUNT"
  by (auto simp: dev_signers_def derive_all_Inr split: if_splits dest: map_eq_imp_length_eq)

lemma insert_all_apply:
  "insert_all (map (\<lambda>k. (k, v)) ks) m k = (if k \<in> set ks then Some v else m k)"
  by (induction ks arbitrary: m) (auto simp: insert_all_def)

text \<open>The injection funds exactly the dev accounts and leaves every other account of the file alone.\<close>

lemma inject_predeploy_effect:
  assumes "dev_signers derive ARKIV_DEV_ACCOUNT_COUNT = Inr signers"
  shows "\<exists>alloc'. inject_predeploy derive funded alloc = Inr (alloc', card (set signers)) \<and>
    (\<forall>a. alloc' a = (if a \<in> set signers then Some (funded arkiv_dev_balance_wei) else alloc a))"
proof -
  let ?m = "insert_all (map (\<lambda>a. (a, funded arkiv_dev_balance_wei)) signers) Map.empty"
  have "dom ?m = set signers" by (auto simp: insert_all_apply split: if_splits)
  then show ?thesis
    using assms by (auto simp: inject_predeploy_def genesis_alloc_def dev_funding_alloc_def try_then_def
        map_add_def insert_all_apply)
qed

subsection \<open>Starting the load generator\<close>

datatype start_error =
    RateNotPositive
  | ZeroOpsPerTx
  | SignersFailed genesis_error
  | WeightsFailed sim_error
  | NoFirstSigner

record simulate_args =
  sa_signer_count :: nat
  sa_max_ops_per_tx :: nat
  sa_weights :: ustring
  sa_max_alive :: nat

text \<open>
  The checks of \<open>run\<close>, up to the wallet, which takes \<open>signers[0]\<close> and panics without one; the
  comparison of the floating-point rate with zero is an argument.
\<close>

definition start_run :: "(u32 \<Rightarrow> address option) \<Rightarrow> bool \<Rightarrow> simulate_args \<Rightarrow> start_error + drive_args" where
  "start_run derive rate_not_positive args =
     (if rate_not_positive then Inl RateNotPositive
      else if sa_max_ops_per_tx args = 0 then Inl ZeroOpsPerTx
      else
        try_then (map_sum SignersFailed id (dev_signers derive (sa_signer_count args))) (\<lambda>signers.
        try_then (map_sum WeightsFailed id (parse_weights (sa_weights args))) (\<lambda>weights.
        if signers = [] then Inl NoFirstSigner
        else Inr \<lparr>dr_weights = weights, dr_max_alive = sa_max_alive args, dr_max_ops = sa_max_ops_per_tx args,
          dr_signers = signers\<rparr>)))"

lemma start_run_ok:
  assumes "start_run derive r args = Inr d"
  shows "0 < dr_max_ops d" "length (dr_signers d) = sa_signer_count args" "0 < length (dr_signers d)"
    "length (dr_signers d) \<le> ARKIV_DEV_ACCOUNT_COUNT" "\<exists>(kind, w) \<in> set (dr_weights d). w \<noteq> 0"
  using assms dev_signers_length[of derive "sa_signer_count args"]
  by (cases "dev_signers derive (sa_signer_count args)";
      auto simp: start_run_def try_then_def parse_weights_def split: if_splits sum.splits)+

text \<open>A signer count of zero passes the checks and panics.\<close>

lemma no_signers_panics:
  assumes "sa_signer_count args = 0" "sa_max_ops_per_tx args \<noteq> 0" "parse_weights (sa_weights args) = Inr ws"
  shows "start_run derive False args = Inl NoFirstSigner"
  using assms by (simp add: start_run_def dev_signers_def ARKIV_DEV_ACCOUNT_COUNT_def try_then_def)

subsection \<open>Commands that send operations\<close>

definition create_command ::
  "cli_lib \<Rightarrow> bindings \<Rightarrow> (nat \<Rightarrow> bytes) \<Rightarrow> ustring \<Rightarrow> u32 \<Rightarrow> ustring option \<Rightarrow> bool \<Rightarrow> nat \<Rightarrow> ustring \<Rightarrow>
    cli_error + operation list" where
  "create_command L B random content_type btl payload is_random n attributes =
     try_then (resolve_cli_payload L random payload is_random n) (\<lambda>p.
     try_then (encode_mime B content_type) (\<lambda>m.
     try_then (build_cli_attributes L attributes) (\<lambda>as.
     Inr [op_create_new B btl p m as])))"

definition update_command ::
  "cli_lib \<Rightarrow> bindings \<Rightarrow> (nat \<Rightarrow> bytes) \<Rightarrow> b256 \<Rightarrow> ustring \<Rightarrow> ustring option \<Rightarrow> bool \<Rightarrow> nat \<Rightarrow> ustring \<Rightarrow>
    cli_error + operation list" where
  "update_command L B random key content_type payload is_random n attributes =
     try_then (resolve_cli_payload L random payload is_random n) (\<lambda>p.
     try_then (encode_mime B content_type) (\<lambda>m.
     try_then (build_cli_attributes L attributes) (\<lambda>as.
     Inr [op_update_new B key p m as])))"

definition extend_command :: "bindings \<Rightarrow> b256 \<Rightarrow> u32 \<Rightarrow> operation list" where
  "extend_command B key btl = [op_extend_new B key btl]"

definition transfer_command :: "bindings \<Rightarrow> b256 \<Rightarrow> address \<Rightarrow> operation list" where
  "transfer_command B key new_owner = [op_transfer_new B key new_owner]"

definition delete_command :: "bindings \<Rightarrow> b256 \<Rightarrow> operation list" where
  "delete_command B key = [op_delete_new B key]"

definition expire_command :: "bindings \<Rightarrow> b256 \<Rightarrow> operation list" where
  "expire_command B key = [op_expire_new B key]"

text \<open>A batch file with one literal operation sends what the command sends.\<close>

lemma batch_of_one:
  "build_batch_file L B random ek n [BExtend (Literal k) btl] = Inr (extend_command B k btl)"
  "build_batch_file L B random ek n [BTransfer (Literal k) a] = Inr (transfer_command B k a)"
  "build_batch_file L B random ek n [BDelete (Literal k)] = Inr (delete_command B k)"
  "build_batch_file L B random ek n [BExpire (Literal k)] = Inr (expire_command B k)"
  by (simp_all add: build_batch_file_def build_batch_op_def resolve_ref_def try_then_def extend_command_def
      transfer_command_def delete_command_def expire_command_def)

text \<open>References in a batch lead to creations only, counted from the nonce of the signer.\<close>

definition creations :: "batch_op list \<Rightarrow> nat" where
  "creations ops = length (filter (\<lambda>op. case op of BCreate _ _ _ _ _ \<Rightarrow> True | _ \<Rightarrow> False) ops)"

lemma batch_refs_shift:
  "batch_refs ek n i c ops j =
     (if i \<le> j \<and> j < i + length ops then
        (case ops ! (j - i) of
           BCreate _ _ _ _ _ \<Rightarrow> Some (ek (n + c + of_nat (creations (take (j - i) ops))))
         | _ \<Rightarrow> None)
      else None)"
proof (induction ops arbitrary: i c)
  case (Cons op ops)
  have j: "j = i \<or> j < i \<or> (Suc i \<le> j \<and> j - i = Suc (j - Suc i))" by linarith
  show ?case
    by (cases op; use j in \<open>auto simp: Cons creations_def algebra_simps split: batch_op.split\<close>)
qed auto

subsection \<open>The history of the registry\<close>

text \<open>
  The view functions of the registry, on a chain that does not change while the command runs; block
  nodes are linked towards the genesis block.
\<close>

record block_node =
  tx_count :: u32
  prev_block :: u32

record 'e registry_view =
  head_block :: "'e + u32"
  genesis_block :: "'e + u32"
  get_block_node :: "u32 \<Rightarrow> 'e + block_node"
  tx_op_count :: "u32 \<Rightarrow> u32 \<Rightarrow> 'e + u32"
  change_set_hash_at_op :: "u32 \<Rightarrow> u32 \<Rightarrow> u32 \<Rightarrow> 'e + b256"

datatype history_line = NoOperations | BlockLine u32 | TxLine u32 | OpLine u32 b256

text \<open>The loop from the head to the genesis block; \<open>None\<close> when it does not return.\<close>

partial_function (option) collect_blocks ::
  "'e registry_view \<Rightarrow> u32 \<Rightarrow> u32 \<Rightarrow> (u32 \<times> block_node) list \<Rightarrow> ('e + (u32 \<times> block_node) list) option" where
  "collect_blocks V genesis block_num blocks =
     (case get_block_node V block_num of
        Inl e \<Rightarrow> Some (Inl e)
      | Inr n \<Rightarrow>
          (let blocks' = (if 0 < tx_count n then blocks @ [(block_num, n)] else blocks) in
           if block_num = genesis \<or> prev_block n = 0 then Some (Inr blocks')
           else collect_blocks V genesis (prev_block n) blocks'))"

text \<open>
  The printing loops: the lines printed, and an error, the total of operations so far, or \<open>None\<close>
  after the jump out of all loops.
\<close>

fun print_ops ::
  "'e registry_view \<Rightarrow> nat \<Rightarrow> u32 \<Rightarrow> u32 \<Rightarrow> nat list \<Rightarrow> nat \<Rightarrow> history_line list \<times> ('e + nat option)" where
  "print_ops V max_ops b t [] shown = ([], Inr (Some shown))"
| "print_ops V max_ops b t (op_seq # ops) shown =
     (if max_ops \<le> shown then ([], Inr None)
      else
        (case change_set_hash_at_op V b t (of_nat op_seq) of
           Inl e \<Rightarrow> ([], Inl e)
         | Inr h \<Rightarrow>
             (case print_ops V max_ops b t ops (shown + 1) of
                (ls, r) \<Rightarrow> (OpLine (of_nat op_seq) h # ls, r))))"

fun print_txs ::
  "'e registry_view \<Rightarrow> nat \<Rightarrow> u32 \<Rightarrow> nat list \<Rightarrow> nat \<Rightarrow> history_line list \<times> ('e + nat option)" where
  "print_txs V max_ops b [] shown = ([], Inr (Some shown))"
| "print_txs V max_ops b (t # ts) shown =
     (case tx_op_count V b (of_nat t) of
        Inl e \<Rightarrow> ([], Inl e)
      | Inr n \<Rightarrow>
          (case print_ops V max_ops b (of_nat t) [0..<unat n] shown of
             (ls, Inr (Some shown')) \<Rightarrow>
               (case print_txs V max_ops b ts shown' of (ls', r) \<Rightarrow> (TxLine (of_nat t) # ls @ ls', r))
           | (ls, r) \<Rightarrow> (TxLine (of_nat t) # ls, r)))"

fun print_blocks ::
  "'e registry_view \<Rightarrow> nat \<Rightarrow> (u32 \<times> block_node) list \<Rightarrow> nat \<Rightarrow> history_line list \<times> ('e + nat option)" where
  "print_blocks V max_ops [] shown = ([], Inr (Some shown))"
| "print_blocks V max_ops ((b, n) # bs) shown =
     (case print_txs V max_ops b [0..<unat (tx_count n)] shown of
        (ls, Inr (Some shown')) \<Rightarrow>
          (case print_blocks V max_ops bs shown' of (ls', r) \<Rightarrow> (BlockLine b # ls @ ls', r))
      | (ls, r) \<Rightarrow> (BlockLine b # ls, r))"

definition history_max_ops :: "u32 option \<Rightarrow> nat" where
  "history_max_ops depth = (case depth of None \<Rightarrow> 2 ^ 32 - 1 | Some n \<Rightarrow> unat n)"

definition walk_history ::
  "'e registry_view \<Rightarrow> u32 option \<Rightarrow> u32 \<Rightarrow> u32 \<Rightarrow> (history_line list \<times> ('e + unit)) option" where
  "walk_history V depth head genesis =
     (case collect_blocks V genesis head [] of
        None \<Rightarrow> None
      | Some (Inl e) \<Rightarrow> Some ([], Inl e)
      | Some (Inr blocks) \<Rightarrow>
          (case print_blocks V (history_max_ops depth) (rev blocks) 0 of
             (ls, r) \<Rightarrow> Some (ls, map_sum id (\<lambda>_. ()) r)))"

definition history_command ::
  "'e registry_view \<Rightarrow> u32 option \<Rightarrow> (history_line list \<times> ('e + unit)) option" where
  "history_command V depth =
     (case head_block V of
        Inl e \<Rightarrow> Some ([], Inl e)
      | Inr head \<Rightarrow>
          (case genesis_block V of
             Inl e \<Rightarrow> Some ([], Inl e)
           | Inr genesis \<Rightarrow>
               if head = genesis then
                 (case get_block_node V head of
                    Inl e \<Rightarrow> Some ([], Inl e)
                  | Inr n \<Rightarrow> if tx_count n = 0 then Some ([NoOperations], Inr ()) else walk_history V depth head genesis)
               else walk_history V depth head genesis))"

text \<open>The walk ends when every block node links to a lower block.\<close>

lemma collect_blocks_returns:
  assumes "\<And>b n. get_block_node V b = Inr n \<Longrightarrow> prev_block n = 0 \<or> prev_block n < b"
  shows "\<exists>r. collect_blocks V genesis b blocks = Some r"
proof (induction "unat b" arbitrary: b blocks rule: less_induct)
  case less
  show ?case
  proof (cases "get_block_node V b")
    case (Inr n)
    then have "prev_block n = 0 \<or> unat (prev_block n) < unat b"
      using assms word_less_nat_alt by blast
    then show ?thesis
      using Inr less by (subst collect_blocks.simps) (auto simp: Let_def)
  qed (subst collect_blocks.simps, simp)
qed

lemma history_returns:
  assumes "\<And>b n. get_block_node V b = Inr n \<Longrightarrow> prev_block n = 0 \<or> prev_block n < b"
  shows "\<exists>out. history_command V depth = Some out"
proof -
  have "\<exists>out. walk_history V depth h g = Some out" for h g
    using collect_blocks_returns[of V g h "[]", OF assms]
    by (auto simp: walk_history_def split: option.split sum.split prod.split)
  then show ?thesis by (auto simp: history_command_def split: sum.split)
qed

text \<open>A depth bounds the number of operations printed.\<close>

definition op_lines :: "history_line list \<Rightarrow> nat" where
  "op_lines ls = length (filter (\<lambda>l. case l of OpLine _ _ \<Rightarrow> True | _ \<Rightarrow> False) ls)"

lemma op_lines_simps [simp]:
  "op_lines [] = 0" "op_lines (ls @ ls') = op_lines ls + op_lines ls'" "op_lines (OpLine n h # ls) = Suc (op_lines ls)"
  "op_lines (BlockLine b # ls) = op_lines ls" "op_lines (TxLine t # ls) = op_lines ls" "op_lines (NoOperations # ls) = op_lines ls"
  by (simp_all add: op_lines_def)

definition within :: "nat \<Rightarrow> nat \<Rightarrow> history_line list \<times> ('e + nat option) \<Rightarrow> bool" where
  "within max_ops shown out \<longleftrightarrow> shown + op_lines (fst out) \<le> max_ops \<and>
     (\<forall>shown'. snd out = Inr (Some shown') \<longrightarrow> shown' = shown + op_lines (fst out))"

lemma within_total: "within m shown (ls, Inr (Some n)) \<longleftrightarrow> n = shown + op_lines ls \<and> n \<le> m"
  by (auto simp: within_def)

text \<open>A header line and a part that did not end normally; and a part followed by the rest.\<close>

lemma within_stop:
  "within m shown (ls, r) \<Longrightarrow> op_lines [l] = 0 \<Longrightarrow> within m shown (l # ls, r)"
  by (cases l) (auto simp: within_def)

lemma within_go:
  "within m shown (ls, Inr (Some n)) \<Longrightarrow> within m n (ls', r) \<Longrightarrow> op_lines [l] = 0 \<Longrightarrow>
    within m shown (l # ls @ ls', r)"
  by (cases l) (simp_all add: within_def add.assoc)

lemma print_ops_within: "shown \<le> m \<Longrightarrow> within m shown (print_ops V m b t ops shown)"
proof (induction ops arbitrary: shown)
  case (Cons q ops)
  obtain ls r where rest: "print_ops V m b t ops (shown + 1) = (ls, r)" by fastforce
  then have "shown < m \<Longrightarrow> within m (shown + 1) (ls, r)" using Cons.IH[of "shown + 1"] by simp
  then show ?case
    using Cons.prems rest by (auto simp: within_def split: sum.split)
qed (simp add: within_def)

lemma print_txs_within: "shown \<le> m \<Longrightarrow> within m shown (print_txs V m b ts shown)"
proof (induction ts arbitrary: shown)
  case (Cons t ts)
  show ?case
  proof (cases "tx_op_count V b (of_nat t)")
    case (Inr n)
    obtain ls r where out: "print_ops V m b (of_nat t) [0..<unat n] shown = (ls, r)" by fastforce
    then have w: "within m shown (ls, r)" using print_ops_within[OF Cons.prems] by metis
    show ?thesis
    proof (cases "\<exists>k. r = Inr (Some k)")
      case True
      then obtain k where k: "r = Inr (Some k)" by blast
      then have "k \<le> m" using w by (simp add: within_total)
      then show ?thesis
        using within_go[OF w[unfolded k], of _ _ "TxLine (of_nat t)"] Cons.IH[of k] out Inr k
        by (auto split: prod.split)
    next
      case False
      then have "print_txs V m b (t # ts) shown = (TxLine (of_nat t) # ls, r)"
        using out Inr by (auto split: sum.split option.split)
      then show ?thesis using within_stop[OF w, of "TxLine (of_nat t)"] by simp
    qed
  qed (use Cons in \<open>simp add: within_def\<close>)
qed (simp add: within_def)

lemma print_blocks_within: "shown \<le> m \<Longrightarrow> within m shown (print_blocks V m bs shown)"
proof (induction bs arbitrary: shown)
  case (Cons bn bs)
  obtain b n where bn: "bn = (b, n)" by fastforce
  obtain ls r where out: "print_txs V m b [0..<unat (tx_count n)] shown = (ls, r)" by fastforce
  then have w: "within m shown (ls, r)" using print_txs_within[OF Cons.prems] by metis
  show ?case
  proof (cases "\<exists>k. r = Inr (Some k)")
    case True
    then obtain k where k: "r = Inr (Some k)" by blast
    then have "k \<le> m" using w by (simp add: within_total)
    then show ?thesis
      using within_go[OF w[unfolded k], of _ _ "BlockLine b"] Cons.IH[of k] out bn k by (auto split: prod.split)
  next
    case False
    then have "print_blocks V m (bn # bs) shown = (BlockLine b # ls, r)"
      using out bn by (auto split: sum.split option.split)
    then show ?thesis using within_stop[OF w, of "BlockLine b"] by simp
  qed
qed (simp add: within_def)

lemma walk_depth:
  assumes "walk_history V (Some n) h g = Some (ls, r)"
  shows "op_lines ls \<le> unat n"
proof (cases "collect_blocks V g h []")
  case (Some c)
  show ?thesis
  proof (cases c)
    case (Inr blocks)
    obtain ls' r' where out: "print_blocks V (unat n) (rev blocks) 0 = (ls', r')" by fastforce
    have "within (unat n) 0 (ls', r')" using print_blocks_within[of 0 "unat n" V "rev blocks"] by (simp add: out)
    then show ?thesis
      using assms Some Inr out by (simp add: walk_history_def history_max_ops_def within_def)
  qed (use assms Some in \<open>simp add: walk_history_def\<close>)
qed (use assms in \<open>simp add: walk_history_def\<close>)

lemma history_depth: "history_command V (Some n) = Some (ls, r) \<Longrightarrow> op_lines ls \<le> unat n"
  by (auto simp: history_command_def walk_depth split: sum.splits if_splits)

subsection \<open>Sending many creations\<close>

text \<open>
  One transaction of the spam command: \<open>send\<close> is the outcome of sending an operation with a nonce
  on a network whose state moves on, and the random payload comes from that state, anew at every
  attempt. A full pool is tried again; \<open>None\<close> when that never ends.
\<close>

datatype send_result = Sent | PoolFull | SendFailed

definition spam_operation :: "bindings \<Rightarrow> (nat \<Rightarrow> bytes) \<Rightarrow> u32 \<Rightarrow> nat \<Rightarrow> cli_error + operation" where
  "spam_operation B random btl n =
     try_then (encode_mime B (ascii ''application/octet-stream'')) (\<lambda>m.
     Inr (op_create_new B btl (random n) m []))"

partial_function (option) spam_send ::
  "('n \<Rightarrow> cli_error + operation) \<Rightarrow> (u64 \<Rightarrow> operation \<Rightarrow> 'n \<Rightarrow> send_result \<times> 'n) \<Rightarrow> u64 \<Rightarrow> 'n \<Rightarrow>
    (cli_error + bool \<times> 'n) option" where
  "spam_send make_op send nonce s =
     (case make_op s of
        Inl e \<Rightarrow> Some (Inl e)
      | Inr op \<Rightarrow>
          (case send nonce op s of
             (Sent, s') \<Rightarrow> Some (Inr (True, s'))
           | (PoolFull, s') \<Rightarrow> spam_send make_op send nonce s'
           | (SendFailed, s') \<Rightarrow> Some (Inr (False, s'))))"

text \<open>The nonces of the transactions that were sent, in order.\<close>

fun spam_loop ::
  "('n \<Rightarrow> cli_error + operation) \<Rightarrow> (u64 \<Rightarrow> operation \<Rightarrow> 'n \<Rightarrow> send_result \<times> 'n) \<Rightarrow> u64 \<Rightarrow> nat list \<Rightarrow> 'n \<Rightarrow>
    (cli_error + u64 list \<times> 'n) option" where
  "spam_loop make_op send nonce_start [] s = Some (Inr ([], s))"
| "spam_loop make_op send nonce_start (i # js) s =
     (case spam_send make_op send (nonce_start + of_nat i) s of
        None \<Rightarrow> None
      | Some (Inl e) \<Rightarrow> Some (Inl e)
      | Some (Inr (ok, s1)) \<Rightarrow>
          (case spam_loop make_op send nonce_start js s1 of
             None \<Rightarrow> None
           | Some (Inl e) \<Rightarrow> Some (Inl e)
           | Some (Inr (sent_nonces, s2)) \<Rightarrow>
               Some (Inr ((if ok then (nonce_start + of_nat i) # sent_nonces else sent_nonces), s2))))"

text \<open>The report: how many receipts arrived, and how many did not.\<close>

definition spam_report :: "(u64 \<Rightarrow> 'n \<Rightarrow> bool) \<Rightarrow> u64 list \<Rightarrow> 'n \<Rightarrow> nat \<times> nat" where
  "spam_report receipt sent_nonces s =
     (length (filter (\<lambda>x. receipt x s) sent_nonces), length (filter (\<lambda>x. \<not> receipt x s) sent_nonces))"

definition spam_command ::
  "bindings \<Rightarrow> ('n \<Rightarrow> nat \<Rightarrow> bytes) \<Rightarrow> (u64 \<Rightarrow> operation \<Rightarrow> 'n \<Rightarrow> send_result \<times> 'n) \<Rightarrow> (u64 \<Rightarrow> 'n \<Rightarrow> bool) \<Rightarrow>
    u64 \<Rightarrow> u32 \<Rightarrow> nat \<Rightarrow> u32 \<Rightarrow> 'n \<Rightarrow> (cli_error + nat \<times> nat) option" where
  "spam_command B random send receipt nonce_start n_txs n btl s =
     (case spam_loop (\<lambda>s. spam_operation B (random s) btl n) send nonce_start [0..<unat n_txs] s of
        None \<Rightarrow> None
      | Some (Inl e) \<Rightarrow> Some (Inl e)
      | Some (Inr (sent_nonces, s')) \<Rightarrow> Some (Inr (spam_report receipt sent_nonces s')))"

text \<open>The command returns when a full pool is drained after finitely many attempts.\<close>

definition retried :: "('n \<Rightarrow> operation) \<Rightarrow> (u64 \<Rightarrow> operation \<Rightarrow> 'n \<Rightarrow> send_result \<times> 'n) \<Rightarrow> u64 \<Rightarrow> nat \<Rightarrow> 'n \<Rightarrow> 'n" where
  "retried op send nonce k = (\<lambda>s. snd (send nonce (op s) s)) ^^ k"

definition drains :: "(u64 \<Rightarrow> operation \<Rightarrow> 'n \<Rightarrow> send_result \<times> 'n) \<Rightarrow> bool" where
  "drains send \<longleftrightarrow> (\<forall>op nonce s. \<exists>k. fst (send nonce (op (retried op send nonce k s)) (retried op send nonce k s)) \<noteq> PoolFull)"

lemma spam_send_returns:
  "fst (send nonce (op (retried op send nonce k s)) (retried op send nonce k s)) \<noteq> PoolFull \<Longrightarrow>
    \<exists>r. spam_send (\<lambda>s. Inr (op s)) send nonce s = Some (Inr r)"
proof (induction k arbitrary: s)
  case 0
  then show ?case
    by (subst spam_send.simps) (auto simp: retried_def split: prod.split send_result.split)
next
  case (Suc k)
  have "\<exists>r. spam_send (\<lambda>s. Inr (op s)) send nonce (snd (send nonce (op s) s)) = Some (Inr r)"
    using Suc.IH[of "snd (send nonce (op s) s)"] Suc.prems
    by (simp add: retried_def funpow_Suc_right del: funpow.simps)
  then show ?case by (subst spam_send.simps) (auto split: prod.split send_result.split)
qed

lemma spam_loop_sends:
  assumes "drains send"
  shows "\<exists>sent_nonces s'. spam_loop (\<lambda>s. Inr (op s)) send nonce_start js s = Some (Inr (sent_nonces, s')) \<and>
    length sent_nonces \<le> length js \<and> set sent_nonces \<subseteq> (\<lambda>i. nonce_start + of_nat i) ` set js"
proof (induction js arbitrary: s)
  case (Cons i js)
  obtain k where "fst (send (nonce_start + of_nat i) (op (retried op send (nonce_start + of_nat i) k s))
      (retried op send (nonce_start + of_nat i) k s)) \<noteq> PoolFull"
    using assms unfolding drains_def by blast
  then obtain ok s1 where one: "spam_send (\<lambda>s. Inr (op s)) send (nonce_start + of_nat i) s = Some (Inr (ok, s1))"
    using spam_send_returns by (metis surj_pair)
  obtain ns s2 where rest: "spam_loop (\<lambda>s. Inr (op s)) send nonce_start js s1 = Some (Inr (ns, s2))"
    "length ns \<le> length js" "set ns \<subseteq> (\<lambda>i. nonce_start + of_nat i) ` set js"
    using Cons.IH[of s1] by blast
  then show ?case using one by auto
qed simp

lemma spam_returns:
  assumes "drains send" "mime_encode B (ascii ''application/octet-stream'') = Some m"
  shows "\<exists>good bad. spam_command B random send receipt nonce_start n_txs n btl s = Some (Inr (good, bad)) \<and>
    good + bad \<le> unat n_txs"
proof -
  have "(\<lambda>s. spam_operation B (random s) btl n) = (\<lambda>s. Inr (op_create_new B btl (random s n) m []))"
    using assms(2) by (simp add: spam_operation_def encode_mime_def try_then_def)
  moreover obtain ns s' where p: "spam_loop (\<lambda>s. Inr (op_create_new B btl (random s n) m [])) send nonce_start
      [0..<unat n_txs] s = Some (Inr (ns, s'))" "length ns \<le> unat n_txs"
    using spam_loop_sends[OF assms(1), of "\<lambda>s. op_create_new B btl (random s n) m []" nonce_start
        "[0..<unat n_txs]" s] by auto
  moreover have "length (filter (\<lambda>x. receipt x s') ns) + length (filter (\<lambda>x. \<not> receipt x s') ns) = length ns"
    by (rule sum_length_filter_compl)
  ultimately show ?thesis by (simp add: spam_command_def spam_report_def)
qed

end
