(* ===== verification/FeeParams.thy ===== *)
theory FeeParams
  imports BaseFee
begin

text \<open>
  The fee parameters of \<open>vendor/alloy-eips/src/eip1559/basefee.rs\<close> with the presets of
  \<open>constants.rs\<close>, and the fee estimate of \<open>helpers.rs\<close>. The base fee of the next block reads the
  installed schedule and not the parameters it is called on.
\<close>

record base_fee_params =
  bfp_max_change_denominator :: u128
  bfp_elasticity_multiplier :: u128

definition bfp_new :: "u128 \<Rightarrow> u128 \<Rightarrow> base_fee_params" where
  "bfp_new d e = \<lparr>bfp_max_change_denominator = d, bfp_elasticity_multiplier = e\<rparr>"

definition DEFAULT_BASE_FEE_MAX_CHANGE_DENOMINATOR :: u64 where "DEFAULT_BASE_FEE_MAX_CHANGE_DENOMINATOR = 8"
definition DEFAULT_ELASTICITY_MULTIPLIER :: u64 where "DEFAULT_ELASTICITY_MULTIPLIER = 2"
definition OP_SEPOLIA_EIP1559_DEFAULT_BASE_FEE_MAX_CHANGE_DENOMINATOR :: u128 where
  "OP_SEPOLIA_EIP1559_DEFAULT_BASE_FEE_MAX_CHANGE_DENOMINATOR = 50"

definition OP_SEPOLIA_EIP1559_BASE_FEE_MAX_CHANGE_DENOMINATOR_CANYON :: u128 where
  "OP_SEPOLIA_EIP1559_BASE_FEE_MAX_CHANGE_DENOMINATOR_CANYON = 250"

definition OP_SEPOLIA_EIP1559_DEFAULT_ELASTICITY_MULTIPLIER :: u128 where
  "OP_SEPOLIA_EIP1559_DEFAULT_ELASTICITY_MULTIPLIER = 6"

definition OP_MAINNET_EIP1559_DEFAULT_BASE_FEE_MAX_CHANGE_DENOMINATOR :: u128 where
  "OP_MAINNET_EIP1559_DEFAULT_BASE_FEE_MAX_CHANGE_DENOMINATOR = 50"

definition OP_MAINNET_EIP1559_BASE_FEE_MAX_CHANGE_DENOMINATOR_CANYON :: u128 where
  "OP_MAINNET_EIP1559_BASE_FEE_MAX_CHANGE_DENOMINATOR_CANYON = 250"

definition OP_MAINNET_EIP1559_DEFAULT_ELASTICITY_MULTIPLIER :: u128 where
  "OP_MAINNET_EIP1559_DEFAULT_ELASTICITY_MULTIPLIER = 6"

definition BASE_SEPOLIA_EIP1559_DEFAULT_ELASTICITY_MULTIPLIER :: u128 where
  "BASE_SEPOLIA_EIP1559_DEFAULT_ELASTICITY_MULTIPLIER = 10"

definition bfp_ethereum :: base_fee_params where
  "bfp_ethereum = bfp_new (ucast DEFAULT_BASE_FEE_MAX_CHANGE_DENOMINATOR) (ucast DEFAULT_ELASTICITY_MULTIPLIER)"

definition bfp_optimism :: base_fee_params where
  "bfp_optimism = bfp_new OP_MAINNET_EIP1559_DEFAULT_BASE_FEE_MAX_CHANGE_DENOMINATOR
     OP_MAINNET_EIP1559_DEFAULT_ELASTICITY_MULTIPLIER"

definition bfp_optimism_canyon :: base_fee_params where
  "bfp_optimism_canyon = bfp_new OP_MAINNET_EIP1559_BASE_FEE_MAX_CHANGE_DENOMINATOR_CANYON
     OP_MAINNET_EIP1559_DEFAULT_ELASTICITY_MULTIPLIER"

definition bfp_optimism_sepolia :: base_fee_params where
  "bfp_optimism_sepolia = bfp_new OP_SEPOLIA_EIP1559_DEFAULT_BASE_FEE_MAX_CHANGE_DENOMINATOR
     OP_SEPOLIA_EIP1559_DEFAULT_ELASTICITY_MULTIPLIER"

definition bfp_optimism_sepolia_canyon :: base_fee_params where
  "bfp_optimism_sepolia_canyon = bfp_new OP_SEPOLIA_EIP1559_BASE_FEE_MAX_CHANGE_DENOMINATOR_CANYON
     OP_SEPOLIA_EIP1559_DEFAULT_ELASTICITY_MULTIPLIER"

definition bfp_base_sepolia :: base_fee_params where
  "bfp_base_sepolia = bfp_new OP_SEPOLIA_EIP1559_DEFAULT_BASE_FEE_MAX_CHANGE_DENOMINATOR
     BASE_SEPOLIA_EIP1559_DEFAULT_ELASTICITY_MULTIPLIER"

definition bfp_base_sepolia_canyon :: base_fee_params where
  "bfp_base_sepolia_canyon = bfp_new OP_SEPOLIA_EIP1559_BASE_FEE_MAX_CHANGE_DENOMINATOR_CANYON
     BASE_SEPOLIA_EIP1559_DEFAULT_ELASTICITY_MULTIPLIER"

definition next_block_base_fee :: "schedule \<Rightarrow> base_fee_params \<Rightarrow> u64 \<Rightarrow> u64 \<Rightarrow> u64 \<Rightarrow> u64 option" where
  "next_block_base_fee sched params gas_used gas_limit base_fee =
     calc_next_block_base_fee sched gas_used gas_limit base_fee"

text \<open>With no schedule the parameters in force are those of Ethereum.\<close>

lemma default_is_ethereum:
  "elasticity_multiplier (params_latest []) = bfp_elasticity_multiplier bfp_ethereum"
  "base_fee_max_change_denominator (params_latest []) = bfp_max_change_denominator bfp_ethereum"
  by (simp_all add: params_latest_def default_params_def bfp_ethereum_def bfp_new_def
      DEFAULT_ELASTICITY_MULTIPLIER_def DEFAULT_BASE_FEE_MAX_CHANGE_DENOMINATOR_def)

subsection \<open>Fee estimates\<close>

record estimation =
  est_max_fee_per_gas :: u128
  est_max_priority_fee_per_gas :: u128

definition scale_by_pct :: "u64 \<Rightarrow> estimation \<Rightarrow> estimation" where
  "scale_by_pct pct e =
     e\<lparr>est_max_fee_per_gas := est_max_fee_per_gas e * (100 + ucast pct) div 100,
       est_max_priority_fee_per_gas := est_max_priority_fee_per_gas e * (100 + ucast pct) div 100\<rparr>"

text \<open>A fee below \<open>2 ^ 63\<close> is scaled without wrap-around.\<close>

lemma scaled_fee:
  assumes "unat x < 2 ^ 63"
  shows "unat (x * (100 + ucast (pct :: u64)) div 100 :: u128) = unat x * (100 + unat pct) div 100"
proof -
  have p: "unat (100 + ucast pct :: u128) = 100 + unat pct"
    using u64_bound[of pct] by (simp add: unat_word_ariths)
  have "unat x * (100 + unat pct) < 2 ^ 63 * (2 * 2 ^ 64)"
    using assms u64_bound[of pct] by (intro mult_strict_mono) simp_all
  then have "unat (x * (100 + ucast pct)) = unat x * (100 + unat pct)"
    unfolding unat_word_ariths(2) p by simp
  then show ?thesis by (simp add: unat_div_distrib)
qed

lemma scale_grows:
  assumes "unat (est_max_fee_per_gas e) < 2 ^ 63"
  shows "est_max_fee_per_gas e \<le> est_max_fee_per_gas (scale_by_pct pct e)"
proof -
  have "unat (est_max_fee_per_gas e) * 100 div 100 \<le> unat (est_max_fee_per_gas e) * (100 + unat pct) div 100"
    by (intro div_le_mono mult_le_mono2) simp
  then show ?thesis by (simp add: word_le_nat_alt scale_by_pct_def scaled_fee[OF assms])
qed

end
