(* ===== verification/Spec2Isabelle.thy ===== *)
theory Spec2Isabelle
  imports IndexLimits RpcAnswers SimulateDemo CliText Commands FeeParams
begin

text \<open>
  A verification development for Arkiv on reth: a queryable entity database that a precompile keeps
  inside the accounts of an EVM chain.

  \<^bold>\<open>The program and its parts.\<close> A transaction calls the precompile (\<open>crates/arkiv-node/src/precompile.rs\<close>)
  with a batch of operations: create, update, extend, transfer, delete and expire an entity. The
  precompile charges gas, checks attributes and signed payload references, takes the payment of the
  payload provider, and hands each operation to the database crate (\<open>crates/arkiv-entitydb/src/lib.rs\<close>),
  which keeps entities as account code, ids and counters in slots of one system account, one bitmap of
  ids per attribute value, and per attribute one ordered set of values
  (\<open>crates/arkiv-entitydb/src/index_tree.rs\<close>). The crate reaches the state through the trait
  \<open>StateAdapter\<close>: over the journal of the EVM or over a read-only snapshot
  (\<open>crates/arkiv-node/src/state_adapter.rs\<close>), or in memory. Queries are lexed, parsed and evaluated to
  bitmaps (\<open>crates/arkiv-entitydb/src/query/\<close>) and served page by page by the JSON-RPC namespace
  (\<open>crates/arkiv-node/src/rpc.rs\<close>). A poller (\<open>crates/arkiv-node/src/protocol_schedule.rs\<close>) installs the
  protocol parameters which the fee market (\<open>vendor/alloy-eips/src/eip1559/\<close>) and the payment read. The
  command line (\<open>crates/arkiv-cli/src/\<close>) builds operations, batches and load.

  \<^bold>\<open>Which theory models which part.\<close> Constants have the names of the code unless the name is taken.

  \<^item> \<open>Prelude\<close>: machine words, big-endian encodings, saturating arithmetic, and the monad \<open>sm\<close> of a state
    and an error with the rules of its weakest preconditions.
  \<^item> \<open>ArtNode\<close>, \<open>ArtTree\<close>, \<open>ArtSer\<close>: the nodes \<open>N4\<close> to \<open>N256\<close>, insertion, removal, scans and the byte
    codec of \<open>index_tree.rs\<close>. \<open>ArtShape\<close>, \<open>ArtWide\<close>, \<open>ArtView\<close>, \<open>ArtConv\<close>, \<open>ArtInsert\<close>, \<open>ArtRemove\<close> and
    \<open>ArtIter\<close> hold the shape invariants and the proofs over the abstract view of a node; \<open>IndexSet\<close> the
    locale \<open>key_set\<close> and its interpretation on the tree; \<open>IndexStore\<close> and \<open>IndexNarrow\<close> what survives being
    stored; \<open>IndexLimits\<close> where the tree is no set.
  \<^item> \<open>StateDb\<close>, \<open>EntityDb\<close>, \<open>StateMemory\<close>: addresses, slots, readers, the six handlers and the in-memory
    adapter of \<open>lib.rs\<close>. The locales \<open>reader_laws\<close> and \<open>adapter_laws\<close> state what the crate relies on from
    an adapter; they are interpreted on the in-memory adapter (\<open>StateMemory\<close>), proved for the adapter over
    the journal (\<open>LedgerRefines\<close>) and interpreted on the read-only one (\<open>RpcAnswers\<close>), so every theorem
    about the crate is proved once, on a plain memory.
  \<^item> \<open>EntityIndex\<close>, \<open>EntityStore\<close>, \<open>EntityOps\<close>, \<open>EntityHistory\<close>: the two index tiers as one relation, the
    database as a map from keys to ids and entities, the simulation of each handler and of histories.
  \<^item> \<open>Lexer\<close>, \<open>LexerPrint\<close>, \<open>Parser\<close>, \<open>QueryGrammar\<close>: \<open>lexer.rs\<close> and \<open>parser.rs\<close>, a printer, and the
    grammar of the header comment as an inductive relation.
  \<^item> \<open>Interp\<close>, \<open>InterpSound\<close>, \<open>QueryAnswers\<close>: \<open>interpreter.rs\<close>, evaluation against the satisfaction of a
    query by an entity, pages and walks of pages.
  \<^item> \<open>Precompile\<close>, \<open>PrecompileRun\<close>: \<open>precompile.rs\<close> and the adapters of \<open>state_adapter.rs\<close>. \<open>Utf8\<close>,
    \<open>Attributes\<close>, \<open>PayloadAuth\<close> and \<open>Gas\<close> hold the theorems on its checks and charges.
  \<^item> \<open>EvmLaws\<close>, \<open>Ledger\<close>, \<open>LedgerRefines\<close>, \<open>LedgerCalls\<close>, \<open>LedgerProps\<close>: what the precompile relies on
    from the journal, the ledger as the abstract specification of a call, the simulation, and what follows
    for owners, references, nonces and payments.
  \<^item> \<open>BaseFee\<close>, \<open>FeeParams\<close>, \<open>Schedule\<close>: \<open>arkiv_schedule.rs\<close>, \<open>helpers.rs\<close>, \<open>basefee.rs\<close>, and the poller
    with its reachable states.
  \<^item> \<open>RpcText\<close>, \<open>Rpc\<close>, \<open>RpcAnswers\<close>: \<open>rpc.rs\<close>: number formats, the three methods, and the composition of
    the precompile, the snapshot, the query and its pages.
  \<^item> \<open>Simulate\<close>, \<open>SimulateInv\<close>, \<open>SimulateDemo\<close>: \<open>simulate.rs\<close>: planning, receipts, and the driver as a step
    relation whose steps interleave in any order. \<open>Cli\<close>, \<open>CliText\<close>, \<open>Commands\<close>: \<open>main.rs\<close> and the dev
    accounts of \<open>crates/arkiv-genesis/src/lib.rs\<close>.
  \<^item> \<open>TableHost\<close> and \<open>LedgerDemo\<close>: concrete parameters (a hash that numbers the preimages in use, a plain
    journal, a chain with two accounts) on which the theorems are applied.

  \<^bold>\<open>What the lemmas show.\<close> Any history of operations run by the crate answers reads and queries as an
  abstract map does; a call of the precompile fails, reverts, runs out of gas or succeeds exactly as the
  ledger says, and from the ledger follow the safety of other owners, the single use of references, the
  conservation of payments and the counting of nonces. The pages of \<open>arkiv_query\<close>, followed by their cursors,
  list exactly the matching entities of the ledger. The parser accepts the grammar; printing is inverted by
  lexing, by the number parsers and by the attribute parser of the command line. The base fee is that of
  EIP-1559 above the floor, in bounds; every reachable schedule is usable. In the load generator an entity is
  in one batch at most. Where the code does not do what it means to, a lemma shows it: bytes \<open>0xFF\<close> in
  wide nodes, holes in \<open>N48\<close>, content types outside the signature, parameters that apply before their
  block, denominators that divide by zero, creations of the load generator that are all refused, keys it
  reserves and loses, a quote that makes the command line panic.

  \<^bold>\<open>Hypotheses.\<close> \<open>db_world\<close> says of the library functions behind \<open>hostlib\<close> that the hash is injective on
  the finitely many preimages of a history, that RLP and the bitmap encoding round-trip, and that derived
  addresses are apart; it takes the values of an attribute with an ordered index from a narrow universe, since
  wide nodes lose keys when they are stored (\<open>IndexLimits\<close>). \<open>arkiv_world\<close> adds that derived entity keys are
  distinct. \<open>evm_laws\<close> states the documented behaviour of the journal, \<open>serves\<close> that a snapshot shows a
  memory, \<open>rng_ok\<close> that random choices lie in their ranges, \<open>expire_binding_ok\<close> and \<open>bindings_ok\<close> what the
  constructors of the contract bindings return, \<open>parsers_ok\<close> that the parsers of numbers and keys read what
  their printers write. Each theorem with a hypothesis is applied at a concrete input.

  \<^bold>\<open>Machine integers, termination, fuel.\<close> Integers have the width of the code and wrap around as in a
  release build, except where the code saturates or checks. A panic is \<open>None\<close> or an error. Recursion is
  structural or has a measure; the lexer and the parser end because every call leaves a
  shorter input. \<open>walk_pages\<close> and \<open>rpc_walk\<close>, the client that follows cursors, take the
  number of requests: the theorems show that one more than the number of matches is enough.
  \<open>collect_blocks\<close> and \<open>spam_send\<close> may not return and are partial functions with values in \<open>option\<close>; they
  are shown to return for linked block nodes and for a pool that drains.

  \<^bold>\<open>Not modelled.\<close> Libraries are arguments: keccak256, RLP, roaring bitmaps, secp256k1, JSON, the ABI codec,
  Unicode tables, revm, reth, alloy providers, random numbers, mnemonics. The assembly of the node
  (\<open>main.rs\<close>, \<open>lib.rs\<close>, \<open>install.rs\<close> and \<open>evm.rs\<close> of \<open>arkiv-node\<close>) delegates every method to reth or revm. The
  clap declarations, serde derives, asynchronous runtimes, logging and printing are I/O. The call stack of
  the parser, memory limits and timers are left out, and so are tests, scripts, documents, and the part of the
  vendored \<open>alloy-eips\<close> that is not changed for this chain.
\<close>

end
